(* ===== verification/GP_Prelude.thy ===== *)
theory GP_Prelude
  imports Main "HOL-Library.Finite_Map" "HOL-Library.Word" "HOL-Library.Signed_Division"
    "HOL-Library.Multiset" "HOL-Library.Char_ord" "HOL-Library.List_Lexorder"
begin

text \<open>
  The part of the Go language and its standard library that the proxy relies on, and the
  generic lemmas the components share: outcomes of a call (a result, a panic, or a call that is
  still blocked), 64-bit signed arithmetic with its wrap-around, times and durations in
  nanoseconds, byte strings with the functions of packages \<^verbatim>\<open>strings\<close> and
  \<^verbatim>\<open>strconv\<close>, the iteration order of \<^verbatim>\<open>range\<close> over a map, and
  transition systems with their reachable states.

  A Go map is a finite map (\<^typ>\<open>('k, 'v) fmap\<close>), a \<^verbatim>\<open>map[string]struct{}\<close> used as a
  set is a \<^typ>\<open>string set\<close>, a string is a list of bytes. The case mappings and
  \<^verbatim>\<open>TrimSpace\<close> are those of ASCII text; bytes above 127 are left as they are.
\<close>

named_theorems frame_simps \<open>what an operation leaves unchanged\<close>
named_theorems go_defs \<open>definitions of the string and time helpers, for evaluation\<close>

section \<open>Outcome of a call\<close>

text \<open>A call returns a value, panics, or has not returned yet (it waits for the environment).\<close>

datatype 'a go = Ret 'a | Panic string | Blocked

fun go_bind :: "'a go \<Rightarrow> ('a \<Rightarrow> 'b go) \<Rightarrow> 'b go" where
  "go_bind (Ret x) f = f x"
| "go_bind (Panic e) f = Panic e"
| "go_bind Blocked f = Blocked"

text \<open>
  Outcomes are ordered by what is known of them: a call that is blocked may still end in any way, a
  call that has ended stays as it is. A model that is monotone in what it has been given so far
  never takes back what it did.
\<close>

instantiation go :: (type) order_bot
begin

definition bot_go :: "'a go" where
  "bot_go = Blocked"

definition less_eq_go :: "'a go \<Rightarrow> 'a go \<Rightarrow> bool" where
  "less_eq_go x y \<longleftrightarrow> x = Blocked \<or> x = y"

definition less_go :: "'a go \<Rightarrow> 'a go \<Rightarrow> bool" where
  "less_go x y \<longleftrightarrow> x \<le> y \<and> x \<noteq> y"

instance
  by standard (auto simp: bot_go_def less_eq_go_def less_go_def)

end

text \<open>Indexing a slice with a Go int: out of range panics.\<close>

definition index_go :: "'a list \<Rightarrow> int \<Rightarrow> 'a go" where
  "index_go xs i =
     (if 0 \<le> i \<and> i < int (length xs) then Ret (xs ! nat i) else Panic ''index out of range'')"

section \<open>64-bit signed integers\<close>

definition wrap64 :: "int \<Rightarrow> int" where
  "wrap64 x = (x + 2 ^ 63) mod 2 ^ 64 - 2 ^ 63"

definition in_i64 :: "int \<Rightarrow> bool" where
  "in_i64 x \<longleftrightarrow> - (2 ^ 63) \<le> x \<and> x < 2 ^ 63"

section \<open>Times and durations\<close>

text \<open>
  A \<^verbatim>\<open>time.Duration\<close> is a 64-bit count of nanoseconds. A \<^verbatim>\<open>time.Time\<close> is
  the count of nanoseconds since year 1, so that the zero value is 0; \<^verbatim>\<open>Sub\<close> saturates
  at the bounds of a duration.
\<close>

type_synonym Time = int
type_synonym Duration = int

definition Millisecond :: Duration where "Millisecond = 1000000"
definition Second :: Duration where "Second = 1000000000"
definition zeroTime :: Time where "zeroTime = 0"

definition Before :: "Time \<Rightarrow> Time \<Rightarrow> bool" where "Before t u \<longleftrightarrow> t < u"
definition After :: "Time \<Rightarrow> Time \<Rightarrow> bool" where "After t u \<longleftrightarrow> u < t"
definition AddDur :: "Time \<Rightarrow> Duration \<Rightarrow> Time" where "AddDur t d = t + d"

definition SubTime :: "Time \<Rightarrow> Time \<Rightarrow> Duration" where
  "SubTime t u = max (- (2 ^ 63)) (min (2 ^ 63 - 1) (t - u))"

text \<open>\<^verbatim>\<open>time.Duration(n) * unit\<close>: a product of two 64-bit integers.\<close>

definition dur_of :: "int \<Rightarrow> Duration \<Rightarrow> Duration" where
  "dur_of n unit = wrap64 (n * unit)"

section \<open>Strings\<close>

definition lower_char :: "char \<Rightarrow> char" where
  "lower_char c = (let n = (of_char c :: nat) in if 65 \<le> n \<and> n \<le> 90 then char_of (n + 32) else c)"

definition upper_char :: "char \<Rightarrow> char" where
  "upper_char c = (let n = (of_char c :: nat) in if 97 \<le> n \<and> n \<le> 122 then char_of (n - 32) else c)"

definition ToLower :: "string \<Rightarrow> string" where "ToLower s = map lower_char s"
definition ToUpper :: "string \<Rightarrow> string" where "ToUpper s = map upper_char s"

definition is_space :: "char \<Rightarrow> bool" where
  "is_space c \<longleftrightarrow> (let n = (of_char c :: nat) in (9 \<le> n \<and> n \<le> 13) \<or> n = 32)"

definition is_digit :: "char \<Rightarrow> bool" where
  "is_digit c \<longleftrightarrow> (let n = (of_char c :: nat) in 48 \<le> n \<and> n \<le> 57)"

definition digit_val :: "char \<Rightarrow> nat" where
  "digit_val c = of_char c - 48"

definition TrimSpace :: "string \<Rightarrow> string" where
  "TrimSpace s = rev (dropWhile is_space (rev (dropWhile is_space s)))"

definition HasPrefix :: "string \<Rightarrow> string \<Rightarrow> bool" where
  "HasPrefix s p \<longleftrightarrow> length p \<le> length s \<and> take (length p) s = p"

definition HasSuffix :: "string \<Rightarrow> string \<Rightarrow> bool" where
  "HasSuffix s p \<longleftrightarrow> length p \<le> length s \<and> drop (length s - length p) s = p"

definition TrimPrefix :: "string \<Rightarrow> string \<Rightarrow> string" where
  "TrimPrefix s p = (if HasPrefix s p then drop (length p) s else s)"

fun IndexByte :: "string \<Rightarrow> char \<Rightarrow> nat option" where
  "IndexByte [] c = None"
| "IndexByte (x # xs) c = (if x = c then Some 0 else map_option Suc (IndexByte xs c))"

fun LastIndexByte :: "string \<Rightarrow> char \<Rightarrow> nat option" where
  "LastIndexByte [] c = None"
| "LastIndexByte (x # xs) c =
     (case LastIndexByte xs c of Some i \<Rightarrow> Some (Suc i) | None \<Rightarrow> if x = c then Some 0 else None)"

text \<open>\<^verbatim>\<open>strings.Split\<close> at a separator of one byte; the result is never empty.\<close>

fun SplitByte :: "string \<Rightarrow> char \<Rightarrow> string list" where
  "SplitByte [] c = [[]]"
| "SplitByte (x # xs) c =
     (if x = c then [] # SplitByte xs c
      else (case SplitByte xs c of [] \<Rightarrow> [[x]] | f # fs \<Rightarrow> (x # f) # fs))"

text \<open>Base 10 (\<^verbatim>\<open>strconv.Itoa\<close>, \<^verbatim>\<open>strconv.FormatInt\<close>) and base 16.\<close>

definition digit_char :: "nat \<Rightarrow> char" where
  "digit_char d = char_of (if d < 10 then 48 + d else 87 + d)"

fun nat_digits :: "nat \<Rightarrow> nat \<Rightarrow> string" where
  "nat_digits b n =
     (if b < 2 \<or> n < b then [digit_char n] else nat_digits b (n div b) @ [digit_char (n mod b)])"

declare nat_digits.simps [simp del]

definition FormatInt :: "int \<Rightarrow> string" where
  "FormatInt v = (if v < 0 then CHR ''-'' # nat_digits 10 (nat (- v)) else nat_digits 10 (nat v))"

lemmas [go_defs] = lower_char_def upper_char_def ToLower_def ToUpper_def is_space_def is_digit_def
  digit_val_def TrimSpace_def HasPrefix_def HasSuffix_def TrimPrefix_def digit_char_def
  FormatInt_def Millisecond_def Second_def zeroTime_def Before_def After_def AddDur_def
  SubTime_def dur_of_def wrap64_def

text \<open>Evaluation of characters given by their code, and of decimal numbers.\<close>

lemmas char_eval = char_of_def bit_0 bit_Suc_0_iff nat_digits.simps

section \<open>Iteration order of a map\<close>

text \<open>
  \<^verbatim>\<open>range\<close> over a map visits every key once, in an order the language leaves open. Where
  the order can be seen, a definition takes it as an argument: \<open>rng i S\<close> lists the keys \<open>S\<close> in
  the order that loop number \<open>i\<close> of the function visits them.
\<close>

type_synonym key_order = "nat \<Rightarrow> string set \<Rightarrow> string list"

locale map_range =
  fixes rng :: key_order
  assumes rng_set: "finite S \<Longrightarrow> set (rng i S) = S"
    and rng_distinct: "finite S \<Longrightarrow> distinct (rng i S)"
begin

lemma rng_length: "finite S \<Longrightarrow> length (rng i S) = card S"
  by (metis distinct_card rng_distinct rng_set)

lemma rng_sort: "finite S \<Longrightarrow> sort (rng i S) = sorted_list_of_set S"
  by (metis rng_distinct rng_set sorted_list_of_set_sort_remdups distinct_remdups_id)

lemma rng_fmdom: "set (rng i (fmdom' m)) = fmdom' m"
  by (simp add: rng_set)

end

definition sorted_range :: key_order where
  "sorted_range i S = sorted_list_of_set S"

interpretation sorted_range: map_range sorted_range
  by unfold_locales (simp_all add: sorted_range_def)

section \<open>Transition systems\<close>

inductive reach :: "('s \<Rightarrow> bool) \<Rightarrow> ('s \<Rightarrow> 's \<Rightarrow> bool) \<Rightarrow> 's \<Rightarrow> bool"
  for init step where
  reach_init: "init s \<Longrightarrow> reach init step s"
| reach_step: "reach init step s \<Longrightarrow> step s t \<Longrightarrow> reach init step t"

text \<open>An inductive invariant of a transition system holds in every reachable state.\<close>

locale inductive_invariant =
  fixes init :: "'s \<Rightarrow> bool" and step :: "'s \<Rightarrow> 's \<Rightarrow> bool" and inv :: "'s \<Rightarrow> bool"
  assumes inv_init: "init s \<Longrightarrow> inv s"
    and inv_step: "inv s \<Longrightarrow> step s t \<Longrightarrow> inv t"
begin

lemma reach_inv: "reach init step s \<Longrightarrow> inv s"
  by (induction rule: reach.induct) (auto intro: inv_init inv_step)

end

text \<open>
  A system whose state is a function of its events: an event is enabled in a state (and gives the next
  one) or not. A run is a list of events that are enabled one after the other.
\<close>

fun run_all :: "('e \<Rightarrow> 's \<Rightarrow> 's option) \<Rightarrow> 'e list \<Rightarrow> 's \<Rightarrow> 's option" where
  "run_all event [] s = Some s"
| "run_all event (e # es) s = (case event e s of None \<Rightarrow> None | Some t \<Rightarrow> run_all event es t)"

lemma run_all_append: "run_all event es s = Some t \<Longrightarrow> run_all event (es @ es') s = run_all event es' t"
  by (induction es arbitrary: s) (auto split: option.splits)

lemma run_all_snoc:
  "run_all event (es @ [e]) s = Some u \<Longrightarrow> \<exists>t. run_all event es s = Some t \<and> event e t = Some u"
  by (induction es arbitrary: s) (auto split: option.splits)

locale event_system =
  fixes event :: "'e \<Rightarrow> 's \<Rightarrow> 's option" and inv :: "'s \<Rightarrow> bool"
  assumes inv_event: "inv s \<Longrightarrow> event e s = Some t \<Longrightarrow> inv t"
begin

lemma run_inv: "run_all event es s = Some t \<Longrightarrow> inv s \<Longrightarrow> inv t"
  by (induction es arbitrary: s) (auto intro: inv_event split: option.splits)

end

text \<open>
  A service that can be stopped: once it is cancelled it can finish by its own events, and it stays
  finished.
\<close>

locale service = event_system event inv
  for event :: "'e \<Rightarrow> 's \<Rightarrow> 's option" and inv :: "'s \<Rightarrow> bool" +
  fixes finished :: "'s \<Rightarrow> bool" and cancelled :: "'s \<Rightarrow> bool" and own :: "'e \<Rightarrow> bool"
  assumes finished_event: "finished s \<Longrightarrow> event e s = Some t \<Longrightarrow> finished t"
    and can_finish: "inv s \<Longrightarrow> cancelled s \<Longrightarrow> \<exists>es t. run_all event es s = Some t \<and> list_all own es \<and> finished t"
begin

lemma finished_run: "run_all event es s = Some t \<Longrightarrow> finished s \<Longrightarrow> finished t"
  by (induction es arbitrary: s) (auto intro: finished_event split: option.splits)

end

section \<open>Counting threads\<close>

text \<open>The number of threads below \<open>n\<close> whose local state satisfies \<open>P\<close>.\<close>

definition cnt :: "nat \<Rightarrow> ('a \<Rightarrow> bool) \<Rightarrow> (nat \<Rightarrow> 'a) \<Rightarrow> int" where
  "cnt n P f = int (card {i. i < n \<and> P (f i)})"

lemma cnt_nonneg [simp]: "0 \<le> cnt n P f"
  by (simp add: cnt_def)

lemma cnt_le: "cnt n P f \<le> int n"
proof -
  have "card {i. i < n \<and> P (f i)} \<le> card {..<n}"
    by (rule card_mono) auto
  then show ?thesis by (simp add: cnt_def)
qed

lemma cnt_mono: "(\<And>x. P x \<Longrightarrow> Q x) \<Longrightarrow> cnt n P f \<le> cnt n Q f"
  unfolding cnt_def by (intro of_nat_mono card_mono) auto

lemma cnt_upd:
  assumes "t < n"
  shows "cnt n P (f(t := x)) = cnt n P f + of_bool (P x) - of_bool (P (f t))"
proof -
  let ?A = "{i. i < n \<and> i \<noteq> t \<and> P (f i)}"
  have split: "{i. i < n \<and> P (g i)} = (if P (g t) then insert t ?A else ?A)"
    if "\<And>i. i \<noteq> t \<Longrightarrow> g i = f i" for g
    using assms that by auto (metis that)+
  have "finite ?A" "t \<notin> ?A" by simp_all
  then show ?thesis
    using split [of f] split [of "f(t := x)"] by (simp add: cnt_def)
qed

lemma cnt_pos: "t < n \<Longrightarrow> P (f t) \<Longrightarrow> 0 < cnt n P f"
  unfolding cnt_def by (auto simp: card_gt_0_iff)

lemma cnt_0: "(\<And>t. t < n \<Longrightarrow> \<not> P (f t)) \<Longrightarrow> cnt n P f = 0"
  by (auto simp: cnt_def)

section \<open>Lemmas on 64-bit arithmetic\<close>

lemma wrap64_id [simp]: "in_i64 x \<Longrightarrow> wrap64 x = x"
  by (simp add: wrap64_def in_i64_def)

lemma wrap64_range: "in_i64 (wrap64 x)"
  by (simp add: wrap64_def in_i64_def)

lemma wrap64_add_left [simp]: "wrap64 (wrap64 x + y) = wrap64 (x + y)"
proof -
  have "(wrap64 x + y + 2 ^ 63) mod 2 ^ 64 = ((x + 2 ^ 63) mod 2 ^ 64 + y) mod 2 ^ 64"
    by (simp add: wrap64_def algebra_simps)
  then show ?thesis
    by (simp add: wrap64_def mod_simps algebra_simps)
qed

lemma wrap64_add_right [simp]: "wrap64 (x + wrap64 y) = wrap64 (x + y)"
  using wrap64_add_left [of y x] by (simp add: add.commute)

lemma wrap64_high:
  assumes "2 ^ 63 \<le> x" "x < 2 ^ 64"
  shows "wrap64 x = x - 2 ^ 64"
proof -
  have "(x + 2 ^ 63) mod 2 ^ 64 = ((x - 2 ^ 63) + 1 * 2 ^ 64) mod 2 ^ 64"
    by (rule arg_cong [where f = "\<lambda>y. y mod 2 ^ 64"]) simp
  also have "\<dots> = (x - 2 ^ 63) mod 2 ^ 64" by (rule mod_mult_self1)
  also have "\<dots> = x - 2 ^ 63" using assms by (intro mod_pos_pos_trivial) simp_all
  finally show ?thesis by (simp add: wrap64_def)
qed

lemma in_i64_small: "0 \<le> x \<Longrightarrow> x < 2 ^ 63 \<Longrightarrow> in_i64 x"
  by (simp add: in_i64_def)

lemma in_i64_0 [simp]: "in_i64 0" and in_i64_1 [simp]: "in_i64 1"
  by (simp_all add: in_i64_def)

lemma smod_small_neg: "- l < y \<Longrightarrow> y < 0 \<Longrightarrow> y smod l = (y :: int)"
  by (simp add: smod_int_alt_def)

lemma smod_neg:
  assumes "x < 0" "0 < l" "\<not> l dvd x"
  shows "x smod l < (0 :: int)"
proof -
  have "\<bar>x\<bar> mod l \<noteq> 0" using assms(3) by (simp add: dvd_eq_mod_eq_0 [symmetric])
  then have "0 < \<bar>x\<bar> mod l" using assms(2) by (simp add: less_le)
  then show ?thesis using assms by (simp add: smod_int_alt_def)
qed

section \<open>Lemmas on outcomes, lists and strings\<close>

lemma Blocked_le [simp]: "Blocked \<le> r"
  by (simp add: less_eq_go_def)

lemma Ret_le [simp]: "Ret x \<le> r \<longleftrightarrow> r = Ret x" and Panic_le [simp]: "Panic p \<le> r \<longleftrightarrow> r = Panic p"
  by (auto simp: less_eq_go_def)

lemma go_bind_mono: "r \<le> r' \<Longrightarrow> (\<And>x. f x \<le> g x) \<Longrightarrow> go_bind r f \<le> go_bind r' g"
  by (cases r) auto

lemma go_bind_eq_Ret: "go_bind r f = Ret y \<longleftrightarrow> (\<exists>x. r = Ret x \<and> f x = Ret y)"
  by (cases r) auto

lemma index_go_Ret [simp]:
  "0 \<le> i \<Longrightarrow> i < int (length xs) \<Longrightarrow> index_go xs i = Ret (xs ! nat i)"
  by (simp add: index_go_def)

lemma index_go_in_set: "index_go xs i = Ret x \<Longrightarrow> x \<in> set xs"
  by (auto simp: index_go_def split: if_splits)

lemma IndexByte_None [simp]: "IndexByte s c = None \<longleftrightarrow> c \<notin> set s"
  by (induction s) auto

lemma LastIndexByte_None [simp]: "LastIndexByte s c = None \<longleftrightarrow> c \<notin> set s"
  by (induction s) (auto split: option.splits)

lemma IndexByte_append: "c \<notin> set s \<Longrightarrow> IndexByte (s @ c # t) c = Some (length s)"
  by (induction s) auto

lemma LastIndexByte_append: "c \<notin> set t \<Longrightarrow> LastIndexByte (s @ c # t) c = Some (length s)"
  by (induction s) (auto split: option.splits)

lemma HasPrefix_append [simp]: "HasPrefix (p @ s) p"
  by (simp add: HasPrefix_def)

lemma HasPrefix_Nil [simp]: "HasPrefix s []"
  by (simp add: HasPrefix_def)

lemma HasPrefix_single: "HasPrefix s [c] \<longleftrightarrow> s \<noteq> [] \<and> hd s = c"
  by (cases s) (auto simp: HasPrefix_def)

lemma HasPrefix_iff: "HasPrefix s p \<longleftrightarrow> (\<exists>t. s = p @ t)"
  unfolding HasPrefix_def by (metis append_take_drop_id append_eq_conv_conj length_append le_add1)

lemma TrimPrefix_append [simp]: "TrimPrefix (p @ s) p = s"
  by (simp add: TrimPrefix_def)

lemma HasSuffix_single: "HasSuffix s [c] \<longleftrightarrow> s \<noteq> [] \<and> last s = c"
proof (cases s rule: rev_cases)
  case (snoc ys y)
  then show ?thesis by (simp add: HasSuffix_def)
qed (simp add: HasSuffix_def)

lemma SplitByte_not_Nil [simp]: "SplitByte s c \<noteq> []"
  by (cases s) (auto split: list.splits)

lemma nat_digits_not_Nil [simp]: "nat_digits b n \<noteq> []"
  by (subst nat_digits.simps) simp

text \<open>The decimal digits of a number determine it, so that its text does.\<close>

definition dec_value :: "string \<Rightarrow> nat" where
  "dec_value s = foldl (\<lambda>a c. a * 10 + digit_val c) 0 s"

lemma digit_val_digit_char: "d < 10 \<Longrightarrow> digit_val (digit_char d) = d"
  by (simp add: digit_val_def digit_char_def)

lemma is_digit_digit_char: "d < 10 \<Longrightarrow> is_digit (digit_char d)"
  by (simp add: is_digit_def digit_char_def)

lemma dec_value_digits [simp]: "dec_value (nat_digits 10 n) = n"
proof (induction n rule: less_induct)
  case (less n)
  then show ?case
    by (subst nat_digits.simps) (simp add: dec_value_def digit_val_digit_char)
qed

lemma nat_digits_inj [simp]: "nat_digits 10 m = nat_digits 10 n \<longleftrightarrow> m = n"
  by (metis dec_value_digits)

lemma nat_digits_all_digits: "list_all is_digit (nat_digits 10 n)"
proof (induction n rule: less_induct)
  case (less n)
  then show ?case
    by (subst nat_digits.simps) (simp add: is_digit_digit_char)
qed

lemma FormatInt_inj [simp]: "0 \<le> v \<Longrightarrow> 0 \<le> w \<Longrightarrow> FormatInt v = FormatInt w \<longleftrightarrow> v = w"
  by (simp add: FormatInt_def eq_nat_nat_iff)

lemma FormatInt_digits: "0 \<le> v \<Longrightarrow> list_all is_digit (FormatInt v)"
  by (simp add: FormatInt_def nat_digits_all_digits)

end
