(* ===== verification/GP_Net.thy ===== *)
theory GP_Net
  imports GP_Prelude
begin

text \<open>
  The functions of Go's package \<^verbatim>\<open>net\<close> that configuration checking, cluster
  construction and DNS discovery call: \<^verbatim>\<open>SplitHostPort\<close>, \<^verbatim>\<open>JoinHostPort\<close>,
  \<^verbatim>\<open>ParseIP\<close> and \<^verbatim>\<open>IP.String\<close>. An address is kept in its 16-byte form, as
  eight 16-bit groups; an IPv4 address has the prefix \<^verbatim>\<open>::ffff\<close>.
\<close>

section \<open>host:port strings\<close>

datatype AddrError = MissingPort | TooManyColons | MissingCloseBracket
  | UnexpectedOpenBracket | UnexpectedCloseBracket

definition split_tail :: "string \<Rightarrow> nat \<Rightarrow> string \<Rightarrow> nat \<Rightarrow> nat \<Rightarrow> AddrError + (string \<times> string)" where
  "split_tail hp i host j k =
     (if IndexByte (drop j hp) (CHR ''['') \<noteq> None then Inl UnexpectedOpenBracket
      else if IndexByte (drop k hp) (CHR '']'') \<noteq> None then Inl UnexpectedCloseBracket
      else Inr (host, drop (i + 1) hp))"

definition SplitHostPort :: "string \<Rightarrow> AddrError + (string \<times> string)" where
  "SplitHostPort hp =
     (case LastIndexByte hp (CHR '':'') of
        None \<Rightarrow> Inl MissingPort
      | Some i \<Rightarrow>
          if hp ! 0 = CHR ''['' then
            (case IndexByte hp (CHR '']'') of
               None \<Rightarrow> Inl MissingCloseBracket
             | Some e \<Rightarrow>
                 if e + 1 = length hp then Inl MissingPort
                 else if e + 1 = i then split_tail hp i (take (e - 1) (drop 1 hp)) 1 (e + 1)
                 else if hp ! (e + 1) = CHR '':'' then Inl TooManyColons
                 else Inl MissingPort)
          else
            (let host = take i hp
             in if IndexByte host (CHR '':'') \<noteq> None then Inl TooManyColons
                else split_tail hp i host 0 0))"

definition JoinHostPort :: "string \<Rightarrow> string \<Rightarrow> string" where
  "JoinHostPort host port =
     (if IndexByte host (CHR '':'') \<noteq> None then ''['' @ host @ '']:'' @ port
      else host @ '':'' @ port)"

section \<open>IP addresses\<close>

type_synonym IP = "nat list"

definition ipv4_field :: "string \<Rightarrow> nat option" where
  "ipv4_field s =
     (if s = [] \<or> \<not> list_all is_digit s \<or> (1 < length s \<and> hd s = CHR ''0'') then None
      else let v = foldl (\<lambda>a c. a * 10 + digit_val c) 0 s in if 255 < v then None else Some v)"

definition parseIPv4Fields :: "string \<Rightarrow> (nat \<times> nat) option" where
  "parseIPv4Fields s =
     (case map ipv4_field (SplitByte s (CHR ''.'')) of
        [Some a, Some b, Some c, Some d] \<Rightarrow> Some (a * 256 + b, c * 256 + d)
      | _ \<Rightarrow> None)"

definition hex_val :: "char \<Rightarrow> nat option" where
  "hex_val c = (let n = (of_char c :: nat) in
     if 48 \<le> n \<and> n \<le> 57 then Some (n - 48)
     else if 97 \<le> n \<and> n \<le> 102 then Some (n - 87)
     else if 65 \<le> n \<and> n \<le> 70 then Some (n - 55) else None)"

text \<open>
  The loop of the IPv6 parser: at most eight groups, each of one to four hex digits; \<open>e\<close> is
  the position of the ellipsis. It returns the groups, the ellipsis and the text left over.
\<close>

fun ipv6_loop :: "nat \<Rightarrow> nat list \<Rightarrow> nat option \<Rightarrow> string
    \<Rightarrow> (nat list \<times> nat option \<times> string) option" where
  "ipv6_loop 0 gs e s = Some (gs, e, s)"
| "ipv6_loop (Suc k) gs e s =
     (let h = takeWhile (\<lambda>c. hex_val c \<noteq> None) s; r = drop (length h) s in
      if h = [] \<or> 4 < length h then None
      else if r \<noteq> [] \<and> hd r = CHR ''.'' then
        (if e = None \<and> length gs \<noteq> 6 then None
         else if 8 < length gs + 2 then None
         else (case parseIPv4Fields s of
                 None \<Rightarrow> None
               | Some (a, b) \<Rightarrow> Some (gs @ [a, b], e, [])))
      else
        (let gs' = gs @ [foldl (\<lambda>a c. a * 16 + the (hex_val c)) 0 h] in
         if r = [] then Some (gs', e, [])
         else if hd r \<noteq> CHR '':'' \<or> length r = 1 then None
         else (let s' = tl r in
           if hd s' = CHR '':'' then
             (if e \<noteq> None then None
              else if tl s' = [] then Some (gs', Some (length gs'), [])
              else ipv6_loop k gs' (Some (length gs')) (tl s'))
           else ipv6_loop k gs' e s')))"

definition ipv6_finish :: "(nat list \<times> nat option \<times> string) option \<Rightarrow> IP option" where
  "ipv6_finish r =
     (case r of
        Some (gs, e, []) \<Rightarrow>
          (case e of
             None \<Rightarrow> if length gs = 8 then Some gs else None
           | Some j \<Rightarrow> if length gs < 8
               then Some (take j gs @ replicate (8 - length gs) 0 @ drop j gs) else None)
      | _ \<Rightarrow> None)"

definition parseIPv6 :: "string \<Rightarrow> IP option" where
  "parseIPv6 s =
     (if HasPrefix s ''::'' then
        (if length s = 2 then Some (replicate 8 0)
         else ipv6_finish (ipv6_loop 8 [] (Some 0) (drop 2 s)))
      else ipv6_finish (ipv6_loop 8 [] None s))"

text \<open>A zone (after \<^verbatim>\<open>%\<close>) is never accepted by \<^verbatim>\<open>net.ParseIP\<close>.\<close>

definition ParseIP :: "string \<Rightarrow> IP option" where
  "ParseIP s =
     (if CHR ''%'' \<in> set s then None
      else case find (\<lambda>c. c = CHR ''.'' \<or> c = CHR '':'') s of
        None \<Rightarrow> None
      | Some c \<Rightarrow>
          if c = CHR ''.''
          then map_option (\<lambda>(a, b). [0, 0, 0, 0, 0, 65535, a, b]) (parseIPv4Fields s)
          else parseIPv6 s)"

fun join_with :: "string \<Rightarrow> string list \<Rightarrow> string" where
  "join_with sep [] = []"
| "join_with sep [s] = s"
| "join_with sep (s # t # ts) = s @ sep @ join_with sep (t # ts)"

text \<open>The longest run of at least two zero groups, the leftmost of several: (start, end).\<close>

definition zero_run :: "IP \<Rightarrow> nat \<times> nat" where
  "zero_run ip =
     foldl (\<lambda>(zs, ze) i. let l = length (takeWhile (\<lambda>g. g = 0) (drop i ip)) in
              if 2 \<le> l \<and> ze - zs < l then (i, i + l) else (zs, ze)) (255, 255) [0..<8]"

definition IP_String :: "IP \<Rightarrow> string" where
  "IP_String ip =
     (if length ip = 8 \<and> take 6 ip = [0, 0, 0, 0, 0, 65535] then
        join_with ''.'' (map (nat_digits 10)
          [ip ! 6 div 256, ip ! 6 mod 256, ip ! 7 div 256, ip ! 7 mod 256])
      else (case zero_run ip of (zs, ze) \<Rightarrow>
        if zs = 255 then join_with '':'' (map (nat_digits 16) ip)
        else join_with '':'' (map (nat_digits 16) (take zs ip)) @ ''::''
             @ join_with '':'' (map (nat_digits 16) (drop ze ip))))"

lemmas [go_defs] = split_tail_def SplitHostPort_def JoinHostPort_def ipv4_field_def
  parseIPv4Fields_def ParseIP_def IP_String_def

section \<open>Round trip\<close>

text \<open>
  A host without brackets and a port without colons or brackets are recovered from the joined
  address, whether the host is a name, an IPv4 literal or an IPv6 literal (which gets brackets).
\<close>

definition host_chars_ok :: "string \<Rightarrow> bool" where
  "host_chars_ok h \<longleftrightarrow> CHR ''['' \<notin> set h \<and> CHR '']'' \<notin> set h"

definition port_chars_ok :: "string \<Rightarrow> bool" where
  "port_chars_ok p \<longleftrightarrow> CHR '':'' \<notin> set p \<and> CHR ''['' \<notin> set p \<and> CHR '']'' \<notin> set p"

lemma split_join_plain:
  assumes "CHR '':'' \<notin> set h" "host_chars_ok h" "port_chars_ok p"
  shows "SplitHostPort (h @ '':'' @ p) = Inr (h, p)"
proof -
  have i: "LastIndexByte (h @ '':'' @ p) (CHR '':'') = Some (length h)"
    using assms(3) LastIndexByte_append by (simp add: port_chars_ok_def)
  have "(h @ '':'' @ p) ! 0 \<noteq> CHR ''[''"
    using assms(2) by (cases h) (auto simp: host_chars_ok_def)
  with i assms show ?thesis
    by (simp add: SplitHostPort_def split_tail_def host_chars_ok_def port_chars_ok_def)
qed

lemma split_join_bracketed:
  assumes "host_chars_ok h" "port_chars_ok p"
  shows "SplitHostPort (''['' @ h @ '']:'' @ p) = Inr (h, p)"
proof -
  have "LastIndexByte ((''['' @ h @ '']'') @ CHR '':'' # p) (CHR '':'') = Some (length (''['' @ h @ '']''))"
    using assms(2) by (intro LastIndexByte_append) (simp add: port_chars_ok_def)
  then have i: "LastIndexByte (''['' @ h @ '']:'' @ p) (CHR '':'') = Some (length h + 2)"
    by simp
  have "IndexByte ((''['' @ h) @ CHR '']'' # CHR '':'' # p) (CHR '']'') = Some (length (''['' @ h))"
    using assms(1) by (intro IndexByte_append) (auto simp: host_chars_ok_def)
  then have e: "IndexByte (''['' @ h @ '']:'' @ p) (CHR '']'') = Some (length h + 1)"
    by simp
  show ?thesis
    using assms i e by (simp add: SplitHostPort_def split_tail_def host_chars_ok_def port_chars_ok_def)
qed

lemma split_join:
  assumes "host_chars_ok h" "port_chars_ok p"
  shows "SplitHostPort (JoinHostPort h p) = Inr (h, p)"
  using assms split_join_plain split_join_bracketed by (simp add: JoinHostPort_def)

end
