(* ===== verification/GP_Config.thy ===== *)
theory GP_Config
  imports GP_Net
begin

text \<open>
  Package \<^verbatim>\<open>internal/config\<close>: the configuration types (\<^verbatim>\<open>types.go\<close>) and
  \<^verbatim>\<open>Validate\<close> (\<^verbatim>\<open>validate.go\<close>). A pointer field is an option. The test that a file
  exists (\<^verbatim>\<open>os.Stat\<close>) is an argument of the definitions. \<open>Validate_valid\<close> says that
  the checker accepts exactly the configurations of the declarative specification
  \<open>valid_config\<close>.
\<close>

section \<open>Configuration types\<close>

record FilterChain =
  fc_Name :: string
  fc_Filters :: "string list"
  fc_SNIHosts :: "string list"

record TLSCertEntry =
  ce_CertPath :: string
  ce_KeyPath :: string
  ce_SNIHosts :: "string list"

record TLSConfig =
  tls_CertPath :: string
  tls_KeyPath :: string
  tls_MinVersion :: string
  tls_ClientCAPath :: string
  tls_RequireClientCert :: bool
  tls_Certs :: "TLSCertEntry list"

record ListenerSpec =
  ls_Name :: string
  ls_Address :: string
  ls_TLS :: "TLSConfig option"
  ls_FilterChains :: "FilterChain list"

record RetryPolicy =
  rp_RequestTimeoutMs :: int
  rp_PerTryTimeoutMs :: int
  rp_MaxRetries :: int
  rp_IdempotentOnly :: bool
  rp_BackoffBaseMs :: int
  rp_BackoffMaxMs :: int

record RouteRule =
  rr_Prefix :: string
  rr_Cluster :: string
  rr_StripPrefix :: bool
  rr_PrefixRewrite :: string
  rr_HostRewrite :: string
  rr_SetHeaders :: "(string, string) fmap"
  rr_RemoveHeaders :: "string list"
  rr_RetryPolicy :: "RetryPolicy option"

record OutlierSpec =
  os_ConsecutiveFailures :: int
  os_EjectionSeconds :: int

record HealthCheckSpec =
  hc_Type :: string
  hc_IntervalMillis :: int
  hc_TimeoutMillis :: int
  hc_HTTPPath :: string
  hc_HealthyThreshold :: int
  hc_UnhealthyThreshold :: int

record CircuitBreakerSpec =
  cb_MaxRequests :: int
  cb_MaxPending :: int
  cb_PerEndpointMaxRequests :: int

record UpstreamTLSConfig =
  ut_Enabled :: bool
  ut_InsecureSkipVerify :: bool
  ut_ServerName :: string

record ClusterSpec =
  cs_Name :: string
  cs_Endpoints :: "string list"
  cs_Discovery :: string
  cs_DnsRefreshSeconds :: int
  cs_Outlier :: "OutlierSpec option"
  cs_HealthCheck :: "HealthCheckSpec option"
  cs_CircuitBreaker :: "CircuitBreakerSpec option"
  cs_LBPolicy :: string
  cs_UpstreamTLS :: "UpstreamTLSConfig option"
  cs_RetryPolicy :: "RetryPolicy option"

record RateLimitSpec =
  rl_RequestsPerSecond :: int
  rl_Burst :: int
  rl_Scope :: string

record ProxyConfig =
  Listeners :: "ListenerSpec list"
  Routes :: "RouteRule list"
  Clusters :: "ClusterSpec list"
  RateLimit :: "RateLimitSpec option"

section \<open>Validation\<close>

datatype cfg_error =
    ClusterEmptyName
  | ClusterDuplicateName string
  | ClusterEndpointsEmpty string
  | ClusterInvalidEndpoint string string
  | ClusterInvalidLBPolicy string string
  | ClusterNegativeBreaker string
  | RouteEmptyPrefix nat
  | RouteEmptyCluster nat
  | RouteUnknownCluster nat string
  | ListenerEmptyName
  | ListenerEmptyAddress string
  | ListenerInvalidAddress string string
  | ListenerTLSCert string
  | ListenerTLSKey string
  | ListenerClientCAEmpty string
  | ListenerClientCA string
  | ListenerExtraCert string
  | ListenerExtraKey string
  | ListenerNoFilterChains string
  | ListenerEmptyChain string string
  | ListenerUnknownFilter string string

text \<open>\<open>stat p\<close> says whether \<^verbatim>\<open>os.Stat(p)\<close> succeeds.\<close>

definition fileExists :: "(string \<Rightarrow> bool) \<Rightarrow> string \<Rightarrow> bool" where
  "fileExists stat path \<longleftrightarrow> path \<noteq> [] \<and> stat path"

definition endpoint_ok :: "string \<Rightarrow> bool" where
  "endpoint_ok ep =
     (case SplitHostPort ep of Inl _ \<Rightarrow> False | Inr (host, port) \<Rightarrow> port \<noteq> [] \<and> host \<noteq> [])"

definition lb_policies :: "string list" where
  "lb_policies = [[], ''round_robin'', ''random'', ''least_requests'']"

definition breaker_ok :: "CircuitBreakerSpec option \<Rightarrow> bool" where
  "breaker_ok cb =
     (case cb of None \<Rightarrow> True
      | Some b \<Rightarrow> \<not> (cb_MaxRequests b < 0 \<or> cb_MaxPending b < 0 \<or> cb_PerEndpointMaxRequests b < 0))"

text \<open>The loop over the clusters; \<open>seen\<close> holds the names of the map \<^verbatim>\<open>clusters\<close>.\<close>

fun validate_clusters :: "string set \<Rightarrow> ClusterSpec list \<Rightarrow> cfg_error + string set" where
  "validate_clusters seen [] = Inr seen"
| "validate_clusters seen (c # cs) =
     (if cs_Name c = [] then Inl ClusterEmptyName
      else if cs_Name c \<in> seen then Inl (ClusterDuplicateName (cs_Name c))
      else if cs_Endpoints c = [] then Inl (ClusterEndpointsEmpty (cs_Name c))
      else case find (\<lambda>ep. \<not> endpoint_ok ep) (cs_Endpoints c) of
        Some ep \<Rightarrow> Inl (ClusterInvalidEndpoint (cs_Name c) ep)
      | None \<Rightarrow>
          if ToLower (cs_LBPolicy c) \<notin> set lb_policies
          then Inl (ClusterInvalidLBPolicy (cs_Name c) (cs_LBPolicy c))
          else if \<not> breaker_ok (cs_CircuitBreaker c) then Inl (ClusterNegativeBreaker (cs_Name c))
          else validate_clusters (insert (cs_Name c) seen) cs)"

fun validate_routes :: "string set \<Rightarrow> nat \<Rightarrow> RouteRule list \<Rightarrow> cfg_error option" where
  "validate_routes names i [] = None"
| "validate_routes names i (r # rs) =
     (if rr_Prefix r = [] then Some (RouteEmptyPrefix i)
      else if rr_Cluster r = [] then Some (RouteEmptyCluster i)
      else if rr_Cluster r \<notin> names then Some (RouteUnknownCluster i (rr_Cluster r))
      else validate_routes names (Suc i) rs)"

fun validate_certs :: "(string \<Rightarrow> bool) \<Rightarrow> string \<Rightarrow> TLSCertEntry list \<Rightarrow> cfg_error option" where
  "validate_certs stat l [] = None"
| "validate_certs stat l (ce # ces) =
     (if \<not> fileExists stat (ce_CertPath ce) then Some (ListenerExtraCert l)
      else if \<not> fileExists stat (ce_KeyPath ce) then Some (ListenerExtraKey l)
      else validate_certs stat l ces)"

definition validate_tls :: "(string \<Rightarrow> bool) \<Rightarrow> string \<Rightarrow> TLSConfig option \<Rightarrow> cfg_error option" where
  "validate_tls stat l tls =
     (case tls of
        None \<Rightarrow> None
      | Some t \<Rightarrow>
          if \<not> fileExists stat (tls_CertPath t) then Some (ListenerTLSCert l)
          else if \<not> fileExists stat (tls_KeyPath t) then Some (ListenerTLSKey l)
          else if tls_RequireClientCert t \<and> tls_ClientCAPath t = [] then Some (ListenerClientCAEmpty l)
          else if tls_RequireClientCert t \<and> \<not> fileExists stat (tls_ClientCAPath t)
          then Some (ListenerClientCA l)
          else validate_certs stat l (tls_Certs t))"

definition known_filters :: "string set" where
  "known_filters = {''logging'', ''hcm''}"

fun validate_chains :: "string \<Rightarrow> FilterChain list \<Rightarrow> cfg_error option" where
  "validate_chains l [] = None"
| "validate_chains l (fc # fcs) =
     (if fc_Filters fc = [] then Some (ListenerEmptyChain l (fc_Name fc))
      else case find (\<lambda>fn. fn \<notin> known_filters) (fc_Filters fc) of
        Some fn \<Rightarrow> Some (ListenerUnknownFilter l fn)
      | None \<Rightarrow> validate_chains l fcs)"

fun validate_listeners :: "(string \<Rightarrow> bool) \<Rightarrow> ListenerSpec list \<Rightarrow> cfg_error option" where
  "validate_listeners stat [] = None"
| "validate_listeners stat (l # ls) =
     (if ls_Name l = [] then Some ListenerEmptyName
      else if ls_Address l = [] then Some (ListenerEmptyAddress (ls_Name l))
      else case SplitHostPort (ls_Address l) of
        Inl _ \<Rightarrow> Some (ListenerInvalidAddress (ls_Name l) (ls_Address l))
      | Inr _ \<Rightarrow>
          (case validate_tls stat (ls_Name l) (ls_TLS l) of
             Some e \<Rightarrow> Some e
           | None \<Rightarrow>
               if ls_FilterChains l = [] then Some (ListenerNoFilterChains (ls_Name l))
               else (case validate_chains (ls_Name l) (ls_FilterChains l) of
                       Some e \<Rightarrow> Some e
                     | None \<Rightarrow> validate_listeners stat ls)))"

definition Validate :: "(string \<Rightarrow> bool) \<Rightarrow> ProxyConfig \<Rightarrow> cfg_error option" where
  "Validate stat cfg =
     (case validate_clusters {} (Clusters cfg) of
        Inl e \<Rightarrow> Some e
      | Inr names \<Rightarrow>
          (case validate_routes names 0 (Routes cfg) of
             Some e \<Rightarrow> Some e
           | None \<Rightarrow> validate_listeners stat (Listeners cfg)))"

section \<open>Specification of a valid configuration\<close>

definition valid_cluster :: "ClusterSpec \<Rightarrow> bool" where
  "valid_cluster c \<longleftrightarrow>
     cs_Name c \<noteq> [] \<and> cs_Endpoints c \<noteq> [] \<and> (\<forall>ep \<in> set (cs_Endpoints c). endpoint_ok ep) \<and>
     ToLower (cs_LBPolicy c) \<in> set lb_policies \<and> breaker_ok (cs_CircuitBreaker c)"

definition valid_route :: "string set \<Rightarrow> RouteRule \<Rightarrow> bool" where
  "valid_route names r \<longleftrightarrow> rr_Prefix r \<noteq> [] \<and> rr_Cluster r \<noteq> [] \<and> rr_Cluster r \<in> names"

definition valid_tls :: "(string \<Rightarrow> bool) \<Rightarrow> TLSConfig \<Rightarrow> bool" where
  "valid_tls stat t \<longleftrightarrow>
     fileExists stat (tls_CertPath t) \<and> fileExists stat (tls_KeyPath t) \<and>
     (tls_RequireClientCert t \<longrightarrow> fileExists stat (tls_ClientCAPath t)) \<and>
     (\<forall>ce \<in> set (tls_Certs t). fileExists stat (ce_CertPath ce) \<and> fileExists stat (ce_KeyPath ce))"

definition valid_chain :: "FilterChain \<Rightarrow> bool" where
  "valid_chain fc \<longleftrightarrow> fc_Filters fc \<noteq> [] \<and> set (fc_Filters fc) \<subseteq> known_filters"

definition valid_listener :: "(string \<Rightarrow> bool) \<Rightarrow> ListenerSpec \<Rightarrow> bool" where
  "valid_listener stat l \<longleftrightarrow>
     ls_Name l \<noteq> [] \<and> ls_Address l \<noteq> [] \<and> (\<exists>hp. SplitHostPort (ls_Address l) = Inr hp) \<and>
     (\<forall>t. ls_TLS l = Some t \<longrightarrow> valid_tls stat t) \<and>
     ls_FilterChains l \<noteq> [] \<and> (\<forall>fc \<in> set (ls_FilterChains l). valid_chain fc)"

definition valid_config :: "(string \<Rightarrow> bool) \<Rightarrow> ProxyConfig \<Rightarrow> bool" where
  "valid_config stat cfg \<longleftrightarrow>
     distinct (map cs_Name (Clusters cfg)) \<and>
     (\<forall>c \<in> set (Clusters cfg). valid_cluster c) \<and>
     (\<forall>r \<in> set (Routes cfg). valid_route (cs_Name ` set (Clusters cfg)) r) \<and>
     (\<forall>l \<in> set (Listeners cfg). valid_listener stat l)"

lemmas config_defs = endpoint_ok_def breaker_ok_def lb_policies_def known_filters_def
  fileExists_def validate_tls_def Validate_def

section \<open>The checker implements the specification\<close>

lemma find_None: "find P xs = None \<longleftrightarrow> (\<forall>x \<in> set xs. \<not> P x)"
  by (induction xs) auto

lemma validate_clusters_iff:
  "(\<exists>names. validate_clusters seen cs = Inr names) \<longleftrightarrow>
     (\<forall>c \<in> set cs. valid_cluster c) \<and> distinct (map cs_Name cs) \<and> cs_Name ` set cs \<inter> seen = {}"
  by (induction seen cs rule: validate_clusters.induct)
    (auto simp: valid_cluster_def find_None option.case_eq_if)

lemma validate_clusters_names:
  "validate_clusters seen cs = Inr names \<Longrightarrow> names = cs_Name ` set cs \<union> seen"
  by (induction seen cs rule: validate_clusters.induct) (auto split: if_splits option.splits)

lemma validate_routes_iff: "validate_routes names i rs = None \<longleftrightarrow> (\<forall>r \<in> set rs. valid_route names r)"
  by (induction names i rs rule: validate_routes.induct) (auto simp: valid_route_def)

lemma validate_certs_iff:
  "validate_certs stat l ces = None \<longleftrightarrow>
     (\<forall>ce \<in> set ces. fileExists stat (ce_CertPath ce) \<and> fileExists stat (ce_KeyPath ce))"
  by (induction stat l ces rule: validate_certs.induct) auto

lemma validate_tls_iff: "validate_tls stat l tls = None \<longleftrightarrow> (\<forall>t. tls = Some t \<longrightarrow> valid_tls stat t)"
  by (cases tls) (auto simp: validate_tls_def valid_tls_def validate_certs_iff fileExists_def)

lemma validate_chains_iff: "validate_chains l fcs = None \<longleftrightarrow> (\<forall>fc \<in> set fcs. valid_chain fc)"
  by (induction l fcs rule: validate_chains.induct)
    (auto simp: valid_chain_def find_None option.case_eq_if)

lemma validate_listeners_iff:
  "validate_listeners stat ls = None \<longleftrightarrow> (\<forall>l \<in> set ls. valid_listener stat l)"
  by (induction stat ls rule: validate_listeners.induct)
    (auto simp: valid_listener_def validate_tls_iff validate_chains_iff option.case_eq_if
      simp del: not_None_eq split: sum.splits)

lemma Validate_valid: "Validate stat cfg = None \<longleftrightarrow> valid_config stat cfg"
proof (cases "validate_clusters {} (Clusters cfg)")
  case (Inl e)
  then have "\<not> ((\<forall>c \<in> set (Clusters cfg). valid_cluster c) \<and> distinct (map cs_Name (Clusters cfg)))"
    using validate_clusters_iff [of "{}" "Clusters cfg"] by auto
  with Inl show ?thesis by (auto simp: Validate_def valid_config_def)
next
  case (Inr names)
  then have "(\<forall>c \<in> set (Clusters cfg). valid_cluster c)" "distinct (map cs_Name (Clusters cfg))"
    and "names = cs_Name ` set (Clusters cfg)"
    using validate_clusters_iff [of "{}" "Clusters cfg"] validate_clusters_names by force+
  with Inr show ?thesis
    by (auto simp: Validate_def valid_config_def validate_listeners_iff
        simp flip: validate_routes_iff [of _ 0] split: option.splits)
qed

end
