(* ===== verification/GP_Metrics.thy ===== *)
theory GP_Metrics
  imports GP_Prelude
begin

text \<open>
  Package \<^verbatim>\<open>internal/obs/metrics\<close> (\<^verbatim>\<open>metrics.go\<close>): the process-wide registry of
  counters and gauges. The two package variables are one record that every operation of the proxy
  threads through. Values are 64-bit: \<^verbatim>\<open>atomic.AddInt64\<close> wraps around.

  The locale \<open>counter_store\<close> states what a named store of 64-bit counters promises (an addition
  changes the named value and no other); it is interpreted on the counters and on the gauges, and
  the value after any sequence of additions is proved once, inside it.
\<close>

section \<open>The registry\<close>

record registry =
  counters :: "(string, int) fmap"
  gauges :: "(string, int) fmap"

definition empty_registry :: registry where
  "empty_registry = \<lparr>counters = fmempty, gauges = fmempty\<rparr>"

text \<open>Reading a Go map of integers: a missing key reads as 0.\<close>

definition fmget :: "('k, int) fmap \<Rightarrow> 'k \<Rightarrow> int" where
  "fmget m k = (case fmlookup m k of None \<Rightarrow> 0 | Some v \<Rightarrow> v)"

definition Add :: "string \<Rightarrow> int \<Rightarrow> registry \<Rightarrow> registry" where
  "Add name delta m =
     m\<lparr>counters := fmupd name (wrap64 (fmget (counters m) name + delta)) (counters m)\<rparr>"

definition Inc :: "string \<Rightarrow> registry \<Rightarrow> registry" where
  "Inc name = Add name 1"

definition AddGauge :: "string \<Rightarrow> int \<Rightarrow> registry \<Rightarrow> registry" where
  "AddGauge name delta m =
     m\<lparr>gauges := fmupd name (wrap64 (fmget (gauges m) name + delta)) (gauges m)\<rparr>"

definition SetGauge :: "string \<Rightarrow> int \<Rightarrow> registry \<Rightarrow> registry" where
  "SetGauge name v m = m\<lparr>gauges := fmupd name v (gauges m)\<rparr>"

definition hist_buckets :: "int list" where
  "hist_buckets = [5, 10, 25, 50, 100, 200, 500, 1000, 2000, 5000]"

definition hist_key :: "string \<Rightarrow> string \<Rightarrow> string" where
  "hist_key cluster suffix = ''hist.upstream_request_duration_ms.'' @ cluster @ suffix"

definition bucket_key :: "string \<Rightarrow> int \<Rightarrow> string" where
  "bucket_key cluster b = hist_key cluster (''.bucket.'' @ FormatInt b)"

definition ObserveUpstreamLatencyMs :: "string \<Rightarrow> int \<Rightarrow> registry \<Rightarrow> registry" where
  "ObserveUpstreamLatencyMs cluster ms m =
     (let ms = (if ms < 0 then 0 else ms);
          m = foldl (\<lambda>m b. if ms \<le> b then Add (bucket_key cluster b) 1 m else m) m hist_buckets;
          m = Add (hist_key cluster ''.bucket.Inf'') 1 m;
          m = Add (hist_key cluster ''.count'') 1 m
      in Add (hist_key cluster ''.sum'') ms m)"

definition downstream_key :: "string \<Rightarrow> string \<Rightarrow> string" where
  "downstream_key method cluster =
     ''downstream_http_requests_total.method.'' @ ToUpper method @ ''.cluster.'' @ cluster"

definition IncDownstreamRequest :: "string \<Rightarrow> string \<Rightarrow> registry \<Rightarrow> registry" where
  "IncDownstreamRequest method cluster =
     (let method = (if method = [] then ''UNKNOWN'' else method);
          cluster = (if cluster = [] then ''none'' else cluster)
      in Add (downstream_key method cluster) 1)"

definition outcome_key :: "string \<Rightarrow> string \<Rightarrow> string" where
  "outcome_key cluster outcome =
     ''upstream_requests_total.cluster.'' @ cluster @ ''.outcome.'' @ outcome"

definition IncUpstreamOutcome :: "string \<Rightarrow> string \<Rightarrow> registry \<Rightarrow> registry" where
  "IncUpstreamOutcome cluster outcome =
     (let cluster = (if cluster = [] then ''none'' else cluster);
          outcome = (if outcome = [] then ''unknown'' else outcome)
      in Add (outcome_key cluster outcome) 1)"

definition code_class_key :: "int \<Rightarrow> string" where
  "code_class_key status =
     (let class = status sdiv 100 in
      if class = 1 then ''http_responses_1xx_total''
      else if class = 2 then ''http_responses_2xx_total''
      else if class = 3 then ''http_responses_3xx_total''
      else if class = 4 then ''http_responses_4xx_total''
      else if class = 5 then ''http_responses_5xx_total''
      else ''http_responses_other_total'')"

definition IncCode :: "int \<Rightarrow> registry \<Rightarrow> registry" where
  "IncCode status m = Inc (code_class_key status) (Inc ''http_responses_total'' m)"

text \<open>Counters first, then gauges: a gauge overrides a counter of the same name.\<close>

definition Snapshot :: "registry \<Rightarrow> (string, int) fmap" where
  "Snapshot m = fmadd (counters m) (gauges m)"

definition RenderText :: "key_order \<Rightarrow> registry \<Rightarrow> string" where
  "RenderText rng m =
     (let snap = Snapshot m; keys = sort (rng 0 (fmdom' snap))
      in concat (map (\<lambda>k. k @ '' '' @ FormatInt (fmget snap k) @ [CHR 0x0A]) keys))"

lemmas metrics_defs = Add_def Inc_def AddGauge_def SetGauge_def IncCode_def
  IncDownstreamRequest_def IncUpstreamOutcome_def ObserveUpstreamLatencyMs_def

section \<open>A store of 64-bit counters\<close>

locale counter_store =
  fixes add :: "string \<Rightarrow> int \<Rightarrow> 's \<Rightarrow> 's" and get :: "'s \<Rightarrow> string \<Rightarrow> int"
    and invar :: "'s \<Rightarrow> bool"
  assumes get_add: "get (add k d s) k' = (if k' = k then wrap64 (get s k + d) else get s k')"
    and get_range: "invar s \<Longrightarrow> in_i64 (get s k)"
    and invar_add: "invar s \<Longrightarrow> invar (add k d s)"
begin

lemma invar_foldl: "invar s \<Longrightarrow> invar (foldl (\<lambda>s (k, d). add k d s) s ops)"
  by (induction ops arbitrary: s) (auto simp: invar_add)

text \<open>The value after a sequence of additions: the initial value plus what was added under the name.\<close>

lemma get_foldl:
  "invar s \<Longrightarrow> get (foldl (\<lambda>s (k, d). add k d s) s ops) k =
     wrap64 (get s k + sum_list (map snd (filter (\<lambda>op. fst op = k) ops)))"
proof (induction ops arbitrary: s)
  case Nil
  then show ?case by (simp add: get_range)
next
  case (Cons op ops)
  obtain k' d where op: "op = (k', d)" by force
  show ?case
    using Cons.IH [OF invar_add [OF Cons.prems]] by (simp add: op get_add add.assoc)
qed

text \<open>Additions commute, whatever their order: concurrent increments are never lost.\<close>

lemma get_foldl_perm:
  assumes "invar s" "mset ops = mset ops'"
  shows "get (foldl (\<lambda>s (k, d). add k d s) s ops) k = get (foldl (\<lambda>s (k, d). add k d s) s ops') k"
proof -
  have "mset (map snd (filter (\<lambda>op. fst op = k) ops)) = mset (map snd (filter (\<lambda>op. fst op = k) ops'))"
    using assms(2) by (metis mset_filter mset_map)
  then have "sum_list (map snd (filter (\<lambda>op. fst op = k) ops)) =
      sum_list (map snd (filter (\<lambda>op. fst op = k) ops'))"
    by (metis sum_mset_sum_list)
  with assms(1) show ?thesis by (simp add: get_foldl)
qed

end

definition counter_val :: "registry \<Rightarrow> string \<Rightarrow> int" where
  "counter_val m = fmget (counters m)"

definition gauge_val :: "registry \<Rightarrow> string \<Rightarrow> int" where
  "gauge_val m = fmget (gauges m)"

definition registry_ok :: "registry \<Rightarrow> bool" where
  "registry_ok m \<longleftrightarrow> (\<forall>k. in_i64 (counter_val m k)) \<and> (\<forall>k. in_i64 (gauge_val m k))"

lemma fmget_upd [simp]: "fmget (fmupd k v m) k' = (if k' = k then v else fmget m k')"
  by (simp add: fmget_def)

lemma fmget_empty [simp]: "fmget fmempty k = 0"
  by (simp add: fmget_def)

interpretation counter_reg: counter_store Add counter_val registry_ok
  by unfold_locales (auto simp: Add_def counter_val_def gauge_val_def registry_ok_def wrap64_range)

interpretation gauge_reg: counter_store AddGauge gauge_val registry_ok
  by unfold_locales (auto simp: AddGauge_def counter_val_def gauge_val_def registry_ok_def wrap64_range)

lemma registry_ok_empty [simp]: "registry_ok empty_registry"
  by (simp add: registry_ok_def counter_val_def gauge_val_def empty_registry_def)

lemma registry_ok_SetGauge: "registry_ok m \<Longrightarrow> in_i64 v \<Longrightarrow> registry_ok (SetGauge k v m)"
  by (simp add: registry_ok_def counter_val_def gauge_val_def SetGauge_def)

lemma counter_val_Inc [simp]:
  "counter_val (Inc k m) k' = (if k' = k then wrap64 (counter_val m k + 1) else counter_val m k')"
  by (simp add: Inc_def counter_reg.get_add)

lemma counter_val_SetGauge [frame_simps]: "counter_val (SetGauge k v m) k' = counter_val m k'"
  by (simp add: counter_val_def SetGauge_def)

lemma counter_val_AddGauge [frame_simps]: "counter_val (AddGauge k v m) k' = counter_val m k'"
  by (simp add: counter_val_def AddGauge_def)

lemma gauge_val_Add [frame_simps]: "gauge_val (Add k v m) k' = gauge_val m k'"
  by (simp add: gauge_val_def Add_def)

lemma gauge_val_Inc [frame_simps]: "gauge_val (Inc k m) k' = gauge_val m k'"
  by (simp add: Inc_def gauge_val_Add)

lemma gauge_val_SetGauge: "gauge_val (SetGauge k v m) k' = (if k' = k then v else gauge_val m k')"
  by (simp add: gauge_val_def SetGauge_def)

section \<open>The latency histogram\<close>

text \<open>The additions of one observation, as a list of keys and amounts.\<close>

definition observe_ops :: "string \<Rightarrow> int \<Rightarrow> (string \<times> int) list" where
  "observe_ops cluster ms =
     (let ms = (if ms < 0 then 0 else ms) in
      map (\<lambda>b. (bucket_key cluster b, 1)) (filter (\<lambda>b. ms \<le> b) hist_buckets) @
      [(hist_key cluster ''.bucket.Inf'', 1), (hist_key cluster ''.count'', 1),
       (hist_key cluster ''.sum'', ms)])"

definition observe_all :: "string \<Rightarrow> int list \<Rightarrow> registry \<Rightarrow> registry" where
  "observe_all cluster samples m = foldl (\<lambda>m ms. ObserveUpstreamLatencyMs cluster ms m) m samples"

lemma observe_as_ops:
  "ObserveUpstreamLatencyMs cluster ms m = foldl (\<lambda>m (k, d). Add k d m) m (observe_ops cluster ms)"
  by (simp add: ObserveUpstreamLatencyMs_def observe_ops_def hist_buckets_def Let_def)

lemma observe_all_as_ops:
  "observe_all cluster samples m =
     foldl (\<lambda>m (k, d). Add k d m) m (concat (map (observe_ops cluster) samples))"
  by (induction samples arbitrary: m) (simp_all add: observe_all_def observe_as_ops)

text \<open>What a sequence of observations adds under one key.\<close>

definition observed :: "string \<Rightarrow> int list \<Rightarrow> string \<Rightarrow> int" where
  "observed cluster samples k =
     (\<Sum>ms\<leftarrow>samples. sum_list (map snd (filter (\<lambda>op. fst op = k) (observe_ops cluster ms))))"

lemma observe_all_val:
  "registry_ok m \<Longrightarrow>
     counter_val (observe_all cluster samples m) k = wrap64 (counter_val m k + observed cluster samples k)"
proof -
  assume ok: "registry_ok m"
  have "sum_list (map snd (filter (\<lambda>op. fst op = k) (concat (map (observe_ops cluster) samples)))) =
      observed cluster samples k"
    by (induction samples) (simp_all add: observed_def)
  then show ?thesis
    by (simp add: observe_all_as_ops counter_reg.get_foldl [OF ok])
qed

lemma hist_key_inj [simp]: "hist_key cluster s = hist_key cluster t \<longleftrightarrow> s = t"
  by (simp add: hist_key_def)

lemma bucket_key_inj: "0 \<le> b \<Longrightarrow> 0 \<le> b' \<Longrightarrow> bucket_key cluster b = bucket_key cluster b' \<longleftrightarrow> b = b'"
  by (simp add: bucket_key_def)

lemma bucket_key_other:
  assumes "0 \<le> b" "\<not> list_all is_digit s"
  shows "bucket_key cluster b \<noteq> hist_key cluster (''.bucket.'' @ s)"
  using assms FormatInt_digits [of b] by (auto simp: bucket_key_def)

lemma hist_buckets_nonneg: "b \<in> set hist_buckets \<Longrightarrow> 0 \<le> b" and hist_buckets_distinct: "distinct hist_buckets"
  by (auto simp: hist_buckets_def)

lemma bucket_key_not_total:
  assumes "b \<in> set hist_buckets"
  shows "bucket_key cluster b \<noteq> hist_key cluster ''.bucket.Inf''"
    "bucket_key cluster b \<noteq> hist_key cluster ''.count''"
    "bucket_key cluster b \<noteq> hist_key cluster ''.sum''"
  using bucket_key_other [OF hist_buckets_nonneg [OF assms], of "''Inf''" cluster]
  by (simp_all add: is_digit_def bucket_key_def)

lemma filter_bucket_keys:
  assumes "b \<in> set hist_buckets"
  shows "filter (\<lambda>b'. bucket_key cluster b' = bucket_key cluster b \<and> ms \<le> b') hist_buckets =
    (if ms \<le> b then [b] else [])"
proof -
  have "filter (\<lambda>b'. bucket_key cluster b' = bucket_key cluster b \<and> ms \<le> b') hist_buckets =
      filter (\<lambda>b'. b' = b \<and> ms \<le> b') hist_buckets"
    using assms by (intro filter_cong) (auto simp: bucket_key_inj hist_buckets_nonneg)
  then show ?thesis
    using assms by (auto simp: hist_buckets_def)
qed

lemma observe_ops_bucket:
  assumes "b \<in> set hist_buckets"
  shows "sum_list (map snd (filter (\<lambda>op. fst op = bucket_key cluster b) (observe_ops cluster ms))) =
    (if max 0 ms \<le> b then 1 else 0)"
  using filter_bucket_keys [OF assms, of cluster "max 0 ms"] bucket_key_not_total [OF assms, of cluster]
  by (simp add: observe_ops_def Let_def filter_map comp_def conj_commute max_def split: if_splits)

lemma filter_no_bucket_key:
  assumes "\<And>b. b \<in> set hist_buckets \<Longrightarrow> bucket_key cluster b \<noteq> k"
  shows "filter (\<lambda>b'. bucket_key cluster b' = k \<and> ms \<le> b') hist_buckets = []"
  using assms by (simp add: filter_empty_conv)

lemma observe_ops_totals:
  "sum_list (map snd (filter (\<lambda>op. fst op = hist_key cluster ''.bucket.Inf'') (observe_ops cluster ms))) = 1"
  "sum_list (map snd (filter (\<lambda>op. fst op = hist_key cluster ''.count'') (observe_ops cluster ms))) = 1"
  "sum_list (map snd (filter (\<lambda>op. fst op = hist_key cluster ''.sum'') (observe_ops cluster ms))) = max 0 ms"
  using filter_no_bucket_key [of cluster "hist_key cluster ''.bucket.Inf''", OF bucket_key_not_total(1)]
    filter_no_bucket_key [of cluster "hist_key cluster ''.count''", OF bucket_key_not_total(2)]
    filter_no_bucket_key [of cluster "hist_key cluster ''.sum''", OF bucket_key_not_total(3)]
  by (simp_all add: observe_ops_def Let_def filter_map comp_def conj_commute max_def)

lemma observed_bucket:
  "b \<in> set hist_buckets \<Longrightarrow>
     observed cluster samples (bucket_key cluster b) = int (length (filter (\<lambda>ms. max 0 ms \<le> b) samples))"
  by (induction samples) (simp_all add: observed_def observe_ops_bucket)

lemma observed_totals:
  "observed cluster samples (hist_key cluster ''.bucket.Inf'') = int (length samples)"
  "observed cluster samples (hist_key cluster ''.count'') = int (length samples)"
  "observed cluster samples (hist_key cluster ''.sum'') = (\<Sum>ms\<leftarrow>samples. max 0 ms)"
  by (induction samples) (simp_all add: observed_def observe_ops_totals)

section \<open>Rendering\<close>

lemma RenderText_order_independent:
  assumes "map_range rng"
  shows "RenderText rng m = RenderText sorted_range m"
  using map_range.rng_sort [OF assms] sorted_range.rng_sort by (simp add: RenderText_def Let_def)

end
