(* ===== verification/GP_Cluster.thy ===== *)
theory GP_Cluster
  imports GP_Config GP_Metrics
begin

text \<open>
  Package \<^verbatim>\<open>internal/cluster\<close> (\<^verbatim>\<open>manager.go\<close>), first part: the state of a
  cluster and of its endpoints, the construction of the manager from the configuration, the
  availability of an endpoint, outlier detection (\<^verbatim>\<open>markFailure\<close>, \<^verbatim>\<open>markSuccess\<close>),
  active health (\<^verbatim>\<open>updateActiveHealth\<close>) and the in-flight counters of endpoints. Load
  balancing, the circuit breaker and discovery are in the theories that import this one.

  The mutex of a cluster makes each operation here one atomic step on the record. The map of
  \<^verbatim>\<open>*epState\<close> pointers holds the records themselves: an entry is only ever created where
  there is none, and never replaced by another pointer. The map
  \<^verbatim>\<open>hcCancel\<close> is the set of its keys; the goroutines its cancel functions stop are the list
  \<open>hcRunning\<close>.
\<close>

section \<open>State\<close>

type_synonym Endpoint = string

record epState =
  failures :: int
  unhealthyUntil :: Time
  activeUnhealthy :: bool
  consecSucc :: int
  consecFail :: int
  inFlight :: int

definition new_epState :: epState where
  "new_epState = \<lparr>failures = 0, unhealthyUntil = zeroTime, activeUnhealthy = False,
     consecSucc = 0, consecFail = 0, inFlight = 0\<rparr>"

record outlierCfg =
  consecutive :: int
  ejectFor :: Duration

record Cluster =
  c_Name :: string
  Endpoints :: "Endpoint list"
  rr :: "64 word"
  outlier :: outlierCfg
  state :: "(string, epState) fmap"
  hc :: "HealthCheckSpec option"
  hcCancel :: "string set"
  hcRunning :: "string list"
  cbMaxReqs :: int
  inflight :: int
  lbPolicy :: string
  discovery :: string
  dnsRefresh :: Duration
  seeds :: "string list"
  staticSeeds :: "string set"
  resolvedBySeed :: "(string, string set) fmap"
  baseCtx :: "nat option"
  epMaxReqs :: int

type_synonym Manager = "(string, Cluster) fmap"

section \<open>Construction\<close>

text \<open>An endpoint gets a state record unless it has one (\<^verbatim>\<open>if _, ok := c.state[a]; !ok\<close>).\<close>

definition ensure_state :: "string \<Rightarrow> Cluster \<Rightarrow> Cluster" where
  "ensure_state a c =
     (case fmlookup (state c) a of
        Some _ \<Rightarrow> c
      | None \<Rightarrow> c\<lparr>state := fmupd a new_epState (state c)\<rparr>)"

definition add_endpoint :: "string \<Rightarrow> Cluster \<Rightarrow> Cluster" where
  "add_endpoint a c = ensure_state a (c\<lparr>Endpoints := Endpoints c @ [a]\<rparr>)"

definition seed_endpoint :: "Cluster \<Rightarrow> string \<Rightarrow> Cluster" where
  "seed_endpoint c e =
     (case SplitHostPort e of
        Inl _ \<Rightarrow> add_endpoint e c
      | Inr (host, port) \<Rightarrow>
          (case ParseIP host of
             Some ip \<Rightarrow>
               (let addr = JoinHostPort (IP_String ip) port
                in (add_endpoint addr c)\<lparr>staticSeeds := insert addr (staticSeeds c)\<rparr>)
           | None \<Rightarrow> if discovery c \<noteq> ''strict_dns'' then add_endpoint e c else c))"

definition outlier_of :: "OutlierSpec option \<Rightarrow> outlierCfg" where
  "outlier_of spec =
     (case spec of
        None \<Rightarrow> \<lparr>consecutive = 3, ejectFor = dur_of 30 Second\<rparr>
      | Some s \<Rightarrow>
          \<lparr>consecutive = (if 0 < os_ConsecutiveFailures s then os_ConsecutiveFailures s else 3),
           ejectFor = (if 0 < os_EjectionSeconds s then dur_of (os_EjectionSeconds s) Second
                       else dur_of 30 Second)\<rparr>)"

definition health_defaults :: "HealthCheckSpec \<Rightarrow> HealthCheckSpec" where
  "health_defaults h =
     (let h = (if hc_Type h = [] then h\<lparr>hc_Type := ''tcp''\<rparr> else h);
          h = (if hc_IntervalMillis h \<le> 0 then h\<lparr>hc_IntervalMillis := 2000\<rparr> else h);
          h = (if hc_TimeoutMillis h \<le> 0 then h\<lparr>hc_TimeoutMillis := 1000\<rparr> else h);
          h = (if hc_HTTPPath h = [] then h\<lparr>hc_HTTPPath := ''/''\<rparr> else h);
          h = (if hc_HealthyThreshold h \<le> 0 then h\<lparr>hc_HealthyThreshold := 1\<rparr> else h)
      in (if hc_UnhealthyThreshold h \<le> 0 then h\<lparr>hc_UnhealthyThreshold := 3\<rparr> else h))"

definition lb_of :: "string \<Rightarrow> string" where
  "lb_of p =
     (let q = ToLower p in
      if q = [] \<or> q = ''round_robin'' then ''round_robin''
      else if q = ''random'' then ''random''
      else if q = ''least_requests'' then ''least_requests''
      else ''round_robin'')"

definition blank_cluster :: "ClusterSpec \<Rightarrow> Cluster" where
  "blank_cluster s =
     \<lparr>c_Name = cs_Name s, Endpoints = [], rr = 0, outlier = outlier_of (cs_Outlier s),
      state = fmempty, hc = None, hcCancel = {}, hcRunning = [], cbMaxReqs = 0, inflight = 0,
      lbPolicy = [], discovery = ToLower (TrimSpace (cs_Discovery s)),
      dnsRefresh = (if 0 < cs_DnsRefreshSeconds s then dur_of (cs_DnsRefreshSeconds s) Second
                    else dur_of 5 Second),
      seeds = cs_Endpoints s, staticSeeds = {}, resolvedBySeed = fmempty, baseCtx = None,
      epMaxReqs = 0\<rparr>"

definition breaker_limits :: "CircuitBreakerSpec option \<Rightarrow> Cluster \<Rightarrow> Cluster" where
  "breaker_limits cb c =
     (case cb of
        None \<Rightarrow> c
      | Some b \<Rightarrow>
          c\<lparr>cbMaxReqs := (if 0 < cb_MaxRequests b then cb_MaxRequests b else cbMaxReqs c),
            epMaxReqs := (if 0 < cb_PerEndpointMaxRequests b
                          then cb_PerEndpointMaxRequests b else epMaxReqs c)\<rparr>)"

definition new_cluster :: "ClusterSpec \<Rightarrow> Cluster" where
  "new_cluster s =
     (let c = foldl seed_endpoint (blank_cluster s) (cs_Endpoints s);
          c = c\<lparr>hc := map_option health_defaults (cs_HealthCheck s)\<rparr>;
          c = breaker_limits (cs_CircuitBreaker s) c
      in c\<lparr>lbPolicy := lb_of (cs_LBPolicy s)\<rparr>)"

fun new_manager :: "Manager \<Rightarrow> ClusterSpec list \<Rightarrow> string + Manager" where
  "new_manager m [] = Inr m"
| "new_manager m (s # ss) =
     (if cs_Name s = [] \<or> cs_Endpoints s = [] then Inl (cs_Name s)
      else new_manager (fmupd (cs_Name s) (new_cluster s) m) ss)"

definition NewManager :: "ClusterSpec list \<Rightarrow> string + Manager" where
  "NewManager specs = new_manager fmempty specs"

section \<open>Availability\<close>

definition snapshotEndpoints :: "Cluster \<Rightarrow> Endpoint list" where
  "snapshotEndpoints c = Endpoints c"

definition isEjected :: "Cluster \<Rightarrow> string \<Rightarrow> Time \<Rightarrow> bool" where
  "isEjected c addr now =
     (case fmlookup (state c) addr of None \<Rightarrow> False | Some st \<Rightarrow> Before now (unhealthyUntil st))"

definition isAvailable :: "Cluster \<Rightarrow> string \<Rightarrow> Time \<Rightarrow> bool" where
  "isAvailable c addr now =
     (case fmlookup (state c) addr of
        None \<Rightarrow> True
      | Some st \<Rightarrow>
          if activeUnhealthy st then False
          else if Before now (unhealthyUntil st) then False
          else True)"

definition underEndpointCap :: "Cluster \<Rightarrow> string \<Rightarrow> bool" where
  "underEndpointCap c addr =
     (if epMaxReqs c \<le> 0 then True
      else case fmlookup (state c) addr of
        None \<Rightarrow> True
      | Some st \<Rightarrow> inFlight st < epMaxReqs c)"

section \<open>Outlier detection and active health\<close>

text \<open>The record of an endpoint, created when there is none, then updated under the lock.\<close>

definition st_of :: "Cluster \<Rightarrow> string \<Rightarrow> epState" where
  "st_of c addr = (case fmlookup (state c) addr of None \<Rightarrow> new_epState | Some st \<Rightarrow> st)"

definition set_st :: "string \<Rightarrow> epState \<Rightarrow> Cluster \<Rightarrow> Cluster" where
  "set_st addr st c = c\<lparr>state := fmupd addr st (state c)\<rparr>"

definition markFailure :: "string \<Rightarrow> Time \<Rightarrow> Cluster \<times> registry \<Rightarrow> Cluster \<times> registry" where
  "markFailure addr now = (\<lambda>(c, m).
     let st = st_of c addr;
         st = st\<lparr>failures := wrap64 (failures st + 1)\<rparr>
     in if consecutive (outlier c) \<le> failures st
        then (set_st addr (st\<lparr>unhealthyUntil := AddDur now (ejectFor (outlier c)), failures := 0\<rparr>) c,
              Inc ''endpoints_ejected_total'' m)
        else (set_st addr st c, m))"

definition markSuccess :: "string \<Rightarrow> Cluster \<Rightarrow> Cluster" where
  "markSuccess addr c = set_st addr ((st_of c addr)\<lparr>failures := 0\<rparr>) c"

text \<open>
  The health-check goroutines only run where \<^verbatim>\<open>c.hc\<close> is set; dereferencing the nil pointer
  otherwise panics.
\<close>

definition updateActiveHealth :: "string \<Rightarrow> bool \<Rightarrow> Cluster \<Rightarrow> Cluster go" where
  "updateActiveHealth addr healthy c =
     (let st = st_of c addr in
      if healthy then
        (let st = st\<lparr>consecSucc := wrap64 (consecSucc st + 1), consecFail := 0\<rparr> in
         if activeUnhealthy st then
           (case hc c of
              None \<Rightarrow> Panic ''nil pointer dereference''
            | Some h \<Rightarrow> Ret (set_st addr
                (if hc_HealthyThreshold h \<le> consecSucc st then st\<lparr>activeUnhealthy := False\<rparr> else st) c))
         else Ret (set_st addr st c))
      else
        (let st = st\<lparr>consecFail := wrap64 (consecFail st + 1), consecSucc := 0\<rparr> in
         if \<not> activeUnhealthy st then
           (case hc c of
              None \<Rightarrow> Panic ''nil pointer dereference''
            | Some h \<Rightarrow> Ret (set_st addr
                (if hc_UnhealthyThreshold h \<le> consecFail st then st\<lparr>activeUnhealthy := True\<rparr> else st) c))
         else Ret (set_st addr st c)))"

text \<open>
  The verdict of one probe of \<^verbatim>\<open>runHealthCheck\<close>: an HTTP probe gives the status of the
  response or fails, a TCP probe connects or fails.
\<close>

datatype probe = HttpStatus int | HttpError | TcpConnected | TcpError

definition probe_healthy :: "HealthCheckSpec \<Rightarrow> (bool \<Rightarrow> probe) \<Rightarrow> bool" where
  "probe_healthy h run =
     (if ToLower (hc_Type h) = ''http'' then
        (case run True of HttpStatus s \<Rightarrow> s < 500 | _ \<Rightarrow> False)
      else (case run False of TcpConnected \<Rightarrow> True | _ \<Rightarrow> False))"

section \<open>Entry points of the manager\<close>

definition ep_gauge :: "Cluster \<Rightarrow> string \<Rightarrow> string" where
  "ep_gauge c addr = ''endpoint.'' @ c_Name c @ ''.'' @ addr @ ''.inflight_requests''"

definition IncEndpointInFlight :: "string \<Rightarrow> string \<Rightarrow> Manager \<times> registry \<Rightarrow> Manager \<times> registry" where
  "IncEndpointInFlight clusterName addr = (\<lambda>(cm, m).
     case fmlookup cm clusterName of
       None \<Rightarrow> (cm, m)
     | Some c \<Rightarrow>
         (case fmlookup (state c) addr of
            None \<Rightarrow> (cm, m)
          | Some st \<Rightarrow>
              (let v = wrap64 (inFlight st + 1)
               in (fmupd clusterName (set_st addr (st\<lparr>inFlight := v\<rparr>) c) cm,
                   SetGauge (ep_gauge c addr) v m))))"

definition DecEndpointInFlight :: "string \<Rightarrow> string \<Rightarrow> Manager \<times> registry \<Rightarrow> Manager \<times> registry" where
  "DecEndpointInFlight clusterName addr = (\<lambda>(cm, m).
     case fmlookup cm clusterName of
       None \<Rightarrow> (cm, m)
     | Some c \<Rightarrow>
         (case fmlookup (state c) addr of
            None \<Rightarrow> (cm, m)
          | Some st \<Rightarrow>
              (let v = wrap64 (inFlight st - 1);
                   v = (if v < 0 then 0 else v)
               in (fmupd clusterName (set_st addr (st\<lparr>inFlight := v\<rparr>) c) cm,
                   SetGauge (ep_gauge c addr) v m))))"

definition ReportFailure :: "string \<Rightarrow> string \<Rightarrow> Time \<Rightarrow> Manager \<times> registry \<Rightarrow> Manager \<times> registry" where
  "ReportFailure clusterName addr now = (\<lambda>(cm, m).
     case fmlookup cm clusterName of
       None \<Rightarrow> (cm, m)
     | Some c \<Rightarrow> (case markFailure addr now (c, m) of (c', m') \<Rightarrow> (fmupd clusterName c' cm, m')))"

definition ReportSuccess :: "string \<Rightarrow> string \<Rightarrow> Manager \<Rightarrow> Manager" where
  "ReportSuccess clusterName addr cm =
     (case fmlookup cm clusterName of
        None \<Rightarrow> cm
      | Some c \<Rightarrow> fmupd clusterName (markSuccess addr c) cm)"

section \<open>Debug snapshot\<close>

record EndpointDebug =
  ed_Address :: string
  ed_ActiveHealthy :: bool
  ed_PassiveEjected :: bool
  ed_EjectedUntil :: Time
  ed_InFlight :: int

record ClusterDebug =
  cd_Name :: string
  cd_LBPolicy :: string
  cd_MaxRequests :: int
  cd_PerEndpointMaxRequests :: int
  cd_InFlight :: int
  cd_Endpoints :: "EndpointDebug list"

definition endpoint_debug :: "Cluster \<Rightarrow> Time \<Rightarrow> Endpoint \<Rightarrow> EndpointDebug" where
  "endpoint_debug c now ep =
     (let (infl, unh, until) =
        (case fmlookup (state c) ep of
           None \<Rightarrow> (0, False, zeroTime)
         | Some st \<Rightarrow> (inFlight st, activeUnhealthy st, unhealthyUntil st))
      in \<lparr>ed_Address = ep, ed_ActiveHealthy = \<not> unh, ed_PassiveEjected = Before now until,
          ed_EjectedUntil = until, ed_InFlight = infl\<rparr>)"

definition cluster_debug :: "Time \<Rightarrow> Cluster \<Rightarrow> ClusterDebug" where
  "cluster_debug now c =
     \<lparr>cd_Name = c_Name c, cd_LBPolicy = lbPolicy c, cd_MaxRequests = cbMaxReqs c,
      cd_PerEndpointMaxRequests = epMaxReqs c, cd_InFlight = inflight c,
      cd_Endpoints = map (endpoint_debug c now) (snapshotEndpoints c)\<rparr>"

definition DebugSnapshot :: "key_order \<Rightarrow> Time \<Rightarrow> Manager \<Rightarrow> ClusterDebug list" where
  "DebugSnapshot rng now cm =
     map (\<lambda>n. cluster_debug now (the (fmlookup cm n))) (rng 0 (fmdom' cm))"

end
