(* ===== verification/GP_Health.thy ===== *)
theory GP_Health
  imports GP_Cluster
begin

text \<open>
  Well-formedness of a cluster and the health of its endpoints. \<open>wf_cluster\<close> is the invariant that
  construction establishes and every operation keeps. The counters that drive outlier detection
  and active health are related to the history of reports and probes: \<open>report_run\<close> refines the
  declarative \<open>last_ejection\<close>, and \<open>probe_run\<close> refines the hysteresis \<open>hysteresis\<close>.
\<close>

section \<open>The invariant\<close>

definition wf_ep :: "Cluster \<Rightarrow> epState \<Rightarrow> bool" where
  "wf_ep c st \<longleftrightarrow>
     0 \<le> failures st \<and> failures st < consecutive (outlier c) \<and> 0 \<le> inFlight st \<and>
     (case hc c of
        None \<Rightarrow> \<not> activeUnhealthy st
      | Some h \<Rightarrow>
          if activeUnhealthy st then 0 \<le> consecSucc st \<and> consecSucc st < hc_HealthyThreshold h
          else 0 \<le> consecFail st \<and> consecFail st < hc_UnhealthyThreshold h)"

definition wf_hc :: "HealthCheckSpec option \<Rightarrow> bool" where
  "wf_hc ho =
     (case ho of
        None \<Rightarrow> True
      | Some h \<Rightarrow> 0 < hc_HealthyThreshold h \<and> in_i64 (hc_HealthyThreshold h) \<and>
          0 < hc_UnhealthyThreshold h \<and> in_i64 (hc_UnhealthyThreshold h) \<and>
          0 < hc_IntervalMillis h \<and> 0 < hc_TimeoutMillis h)"

definition lb_names :: "string list" where
  "lb_names = [''round_robin'', ''random'', ''least_requests'']"

definition wf_cluster :: "Cluster \<Rightarrow> bool" where
  "wf_cluster c \<longleftrightarrow>
     0 < consecutive (outlier c) \<and> in_i64 (consecutive (outlier c)) \<and> wf_hc (hc c) \<and>
     (\<forall>a \<in> set (Endpoints c). fmlookup (state c) a \<noteq> None) \<and>
     (\<forall>a st. fmlookup (state c) a = Some st \<longrightarrow> wf_ep c st) \<and>
     lbPolicy c \<in> set lb_names \<and> 0 \<le> inflight c \<and>
     set (hcRunning c) = hcCancel c \<and> distinct (hcRunning c)"

definition wf_manager :: "Manager \<Rightarrow> bool" where
  "wf_manager cm \<longleftrightarrow> (\<forall>n c. fmlookup cm n = Some c \<longrightarrow> c_Name c = n \<and> wf_cluster c)"

text \<open>The integers of a specification are Go integers.\<close>

definition i64_spec :: "ClusterSpec \<Rightarrow> bool" where
  "i64_spec s \<longleftrightarrow>
     (\<forall>os. cs_Outlier s = Some os \<longrightarrow> in_i64 (os_ConsecutiveFailures os)) \<and>
     (\<forall>h. cs_HealthCheck s = Some h \<longrightarrow> in_i64 (hc_HealthyThreshold h) \<and> in_i64 (hc_UnhealthyThreshold h))"

section \<open>Histories of an endpoint\<close>

text \<open>Reports of the request path on one endpoint, and their effect on its cluster.\<close>

datatype report = RFail Time | RSucc

fun is_fail :: "report \<Rightarrow> bool" where
  "is_fail (RFail t) = True"
| "is_fail RSucc = False"

fun report_step :: "string \<Rightarrow> Cluster \<times> registry \<Rightarrow> report \<Rightarrow> Cluster \<times> registry" where
  "report_step addr (c, m) (RFail t) = markFailure addr t (c, m)"
| "report_step addr (c, m) RSucc = (markSuccess addr c, m)"

definition report_run :: "string \<Rightarrow> Cluster \<times> registry \<Rightarrow> report list \<Rightarrow> Cluster \<times> registry" where
  "report_run addr s es = foldl (report_step addr) s es"

text \<open>
  The specification reads a history newest report first. A failure that completes a multiple of \<open>n\<close>
  consecutive failures ejects the endpoint at its time; the last ejection counts.
\<close>

definition fail_streak :: "report list \<Rightarrow> nat" where
  "fail_streak hist = length (takeWhile is_fail hist)"

fun last_ejection :: "nat \<Rightarrow> report list \<Rightarrow> Time option" where
  "last_ejection n [] = None"
| "last_ejection n (RSucc # hist) = last_ejection n hist"
| "last_ejection n (RFail t # hist) =
     (if n dvd fail_streak (RFail t # hist) then Some t else last_ejection n hist)"

text \<open>Probes of the active health checker, and the hysteresis they follow (newest probe first).\<close>

fun probe_run :: "string \<Rightarrow> Cluster \<Rightarrow> bool list \<Rightarrow> Cluster go" where
  "probe_run addr c [] = Ret c"
| "probe_run addr c (r # rs) = go_bind (updateActiveHealth addr r c) (\<lambda>c. probe_run addr c rs)"

fun hysteresis :: "nat \<Rightarrow> nat \<Rightarrow> bool list \<Rightarrow> bool" where
  "hysteresis h u [] = False"
| "hysteresis h u (r # hist) =
     (if hysteresis h u hist then length (takeWhile (\<lambda>r. r) (r # hist)) < h
      else u \<le> length (takeWhile Not (r # hist)))"

section \<open>Lookups after an update\<close>

lemma st_of_set_st [simp]: "st_of (set_st a st c) b = (if b = a then st else st_of c b)"
  by (simp add: st_of_def set_st_def)

lemma lookup_set_st [simp]:
  "fmlookup (state (set_st a st c)) b = (if b = a then Some st else fmlookup (state c) b)"
  by (simp add: set_st_def)

lemma set_st_fields [simp]:
  "Endpoints (set_st a st c) = Endpoints c" "outlier (set_st a st c) = outlier c"
  "hc (set_st a st c) = hc c" "lbPolicy (set_st a st c) = lbPolicy c"
  "inflight (set_st a st c) = inflight c" "hcRunning (set_st a st c) = hcRunning c"
  "hcCancel (set_st a st c) = hcCancel c" "c_Name (set_st a st c) = c_Name c"
  "rr (set_st a st c) = rr c" "epMaxReqs (set_st a st c) = epMaxReqs c"
  "cbMaxReqs (set_st a st c) = cbMaxReqs c" "baseCtx (set_st a st c) = baseCtx c"
  by (simp_all add: set_st_def)

lemma wf_ep_set_st [simp]: "wf_ep (set_st a st c) st' = wf_ep c st'"
  by (simp add: wf_ep_def)

lemma wf_ep_new: "0 < consecutive (outlier c) \<Longrightarrow> wf_hc (hc c) \<Longrightarrow> wf_ep c new_epState"
  by (auto simp: wf_ep_def new_epState_def wf_hc_def split: option.splits)

lemma wf_set_st: "wf_cluster c \<Longrightarrow> wf_ep c st \<Longrightarrow> wf_cluster (set_st a st c)"
  by (auto simp: wf_cluster_def)

lemma wf_ep_st_of: "wf_cluster c \<Longrightarrow> wf_ep c (st_of c a)"
  by (auto simp: st_of_def wf_cluster_def intro: wf_ep_new split: option.splits)

lemma wf_managerD: "wf_manager cm \<Longrightarrow> fmlookup cm n = Some c \<Longrightarrow> wf_cluster c"
  by (simp add: wf_manager_def)

lemma wf_manager_upd: "wf_manager cm \<Longrightarrow> wf_cluster c \<Longrightarrow> c_Name c = n \<Longrightarrow> wf_manager (fmupd n c cm)"
  by (simp add: wf_manager_def)

section \<open>Construction establishes the invariant\<close>

lemma add_endpoint_fields [simp]:
  "Endpoints (add_endpoint a c) = Endpoints c @ [a]"
  "fmlookup (state (add_endpoint a c)) b =
     (if b = a \<and> fmlookup (state c) a = None then Some new_epState else fmlookup (state c) b)"
  by (auto simp: add_endpoint_def ensure_state_def split: option.splits)

lemma add_endpoint_frame [simp]:
  "outlier (add_endpoint a c) = outlier c" "hc (add_endpoint a c) = hc c"
  "inflight (add_endpoint a c) = inflight c" "hcRunning (add_endpoint a c) = hcRunning c"
  "hcCancel (add_endpoint a c) = hcCancel c" "discovery (add_endpoint a c) = discovery c"
  "c_Name (add_endpoint a c) = c_Name c" "staticSeeds (add_endpoint a c) = staticSeeds c"
  "cbMaxReqs (add_endpoint a c) = cbMaxReqs c" "epMaxReqs (add_endpoint a c) = epMaxReqs c"
  by (auto simp: add_endpoint_def ensure_state_def split: option.splits)

text \<open>What seeding keeps: fresh records only, a record for every endpoint, the other fields.\<close>

definition seeding :: "Cluster \<Rightarrow> Cluster \<Rightarrow> bool" where
  "seeding c0 c \<longleftrightarrow>
     (\<forall>a st. fmlookup (state c) a = Some st \<longrightarrow> st = new_epState) \<and>
     (\<forall>a \<in> set (Endpoints c). fmlookup (state c) a \<noteq> None) \<and>
     outlier c = outlier c0 \<and> inflight c = inflight c0 \<and> hcRunning c = hcRunning c0 \<and>
     hcCancel c = hcCancel c0 \<and> c_Name c = c_Name c0 \<and> discovery c = discovery c0 \<and>
     cbMaxReqs c = cbMaxReqs c0 \<and> epMaxReqs c = epMaxReqs c0"

lemma seeding_add: "seeding c0 c \<Longrightarrow> seeding c0 (add_endpoint a c)"
  by (auto simp: seeding_def split: if_splits)

lemma seeding_static: "seeding c0 (c\<lparr>staticSeeds := S\<rparr>) = seeding c0 c"
  by (simp add: seeding_def)

lemma seeding_seed: "seeding c0 c \<Longrightarrow> seeding c0 (seed_endpoint c e)"
  by (auto simp: seed_endpoint_def seeding_add seeding_static Let_def split: sum.splits option.splits)

lemma seeding_foldl: "seeding c0 c \<Longrightarrow> seeding c0 (foldl seed_endpoint c es)"
  by (induction es arbitrary: c) (auto simp: seeding_seed)

lemma wf_health_defaults:
  "in_i64 (hc_HealthyThreshold h) \<Longrightarrow> in_i64 (hc_UnhealthyThreshold h) \<Longrightarrow>
     wf_hc (Some (health_defaults h))"
  by (simp add: wf_hc_def health_defaults_def Let_def in_i64_def)

lemma lb_of_name: "lb_of p \<in> set lb_names"
  by (simp add: lb_of_def lb_names_def Let_def)

lemma outlier_of_pos:
  "0 < consecutive (outlier_of o')"
  "(\<forall>os. o' = Some os \<longrightarrow> in_i64 (os_ConsecutiveFailures os)) \<Longrightarrow> in_i64 (consecutive (outlier_of o'))"
  by (auto simp: outlier_of_def in_i64_def split: option.splits)

lemma breaker_limits_frame [simp]:
  "Endpoints (breaker_limits b c) = Endpoints c" "state (breaker_limits b c) = state c"
  "outlier (breaker_limits b c) = outlier c" "hc (breaker_limits b c) = hc c"
  "inflight (breaker_limits b c) = inflight c" "hcRunning (breaker_limits b c) = hcRunning c"
  "hcCancel (breaker_limits b c) = hcCancel c" "c_Name (breaker_limits b c) = c_Name c"
  by (simp_all add: breaker_limits_def split: option.splits)

lemma seeding_blank: "seeding (blank_cluster s) (foldl seed_endpoint (blank_cluster s) es)"
  by (rule seeding_foldl) (simp add: seeding_def blank_cluster_def)

lemma new_cluster_fields:
  "c_Name (new_cluster s) = cs_Name s" "inflight (new_cluster s) = 0"
  "outlier (new_cluster s) = outlier_of (cs_Outlier s)"
  "hc (new_cluster s) = map_option health_defaults (cs_HealthCheck s)"
  "lbPolicy (new_cluster s) = lb_of (cs_LBPolicy s)"
  "hcRunning (new_cluster s) = []" "hcCancel (new_cluster s) = {}"
  using seeding_blank [of s "cs_Endpoints s"]
  by (simp_all add: new_cluster_def Let_def seeding_def) (simp_all add: blank_cluster_def)

lemma new_cluster_state:
  "fmlookup (state (new_cluster s)) a = Some st \<Longrightarrow> st = new_epState"
  "a \<in> set (Endpoints (new_cluster s)) \<Longrightarrow> fmlookup (state (new_cluster s)) a \<noteq> None"
  using seeding_blank [of s "cs_Endpoints s"] by (auto simp: new_cluster_def Let_def seeding_def)

lemma new_cluster_wf:
  assumes "i64_spec s"
  shows "wf_cluster (new_cluster s)"
proof -
  have o: "0 < consecutive (outlier_of (cs_Outlier s))" "in_i64 (consecutive (outlier_of (cs_Outlier s)))"
    using assms outlier_of_pos by (auto simp: i64_spec_def)
  have h: "wf_hc (map_option health_defaults (cs_HealthCheck s))"
    using assms wf_health_defaults
    by (cases "cs_HealthCheck s") (auto simp: i64_spec_def wf_hc_def [of None])
  have "wf_ep (new_cluster s) st" if "fmlookup (state (new_cluster s)) a = Some st" for a st
    using new_cluster_state(1) [OF that] o h by (simp add: wf_ep_new new_cluster_fields)
  then show ?thesis
    using o h new_cluster_state(2) by (simp add: wf_cluster_def new_cluster_fields lb_of_name)
qed

lemma new_manager_wf:
  "new_manager m ss = Inr m' \<Longrightarrow> wf_manager m \<Longrightarrow> \<forall>s \<in> set ss. i64_spec s \<Longrightarrow> wf_manager m'"
  by (induction m ss rule: new_manager.induct)
    (auto simp: new_cluster_wf new_cluster_fields wf_manager_upd split: if_splits)

lemma new_manager_ok:
  "(\<exists>m'. new_manager m ss = Inr m') \<longleftrightarrow> (\<forall>s \<in> set ss. cs_Name s \<noteq> [] \<and> cs_Endpoints s \<noteq> [])"
  by (induction m ss rule: new_manager.induct) auto

lemma new_manager_dom: "new_manager m ss = Inr m' \<Longrightarrow> fmdom' m' = fmdom' m \<union> cs_Name ` set ss"
  by (induction m ss rule: new_manager.induct) (auto split: if_splits)

section \<open>The operations keep the invariant\<close>

lemma fail_inc_bounds:
  assumes "wf_cluster c" "wf_ep c st"
  shows "wrap64 (failures st + 1) = failures st + 1"
  using assms by (auto simp: wf_cluster_def wf_ep_def in_i64_def intro!: wrap64_id)

lemma markFailure_cases:
  assumes "wf_cluster c"
  shows "markFailure addr now (c, m) =
    (if failures (st_of c addr) + 1 = consecutive (outlier c)
     then (set_st addr ((st_of c addr)\<lparr>unhealthyUntil := now + ejectFor (outlier c), failures := 0\<rparr>) c,
           Inc ''endpoints_ejected_total'' m)
     else (set_st addr ((st_of c addr)\<lparr>failures := failures (st_of c addr) + 1\<rparr>) c, m))"
  using wf_ep_st_of [OF assms, of addr] fail_inc_bounds [OF assms wf_ep_st_of [OF assms, of addr]]
  by (auto simp: markFailure_def Let_def AddDur_def wf_ep_def)

lemma wf_markFailure: "wf_cluster c \<Longrightarrow> wf_cluster (fst (markFailure addr now (c, m)))"
  using wf_ep_st_of [of c addr]
  by (auto simp: markFailure_cases wf_ep_def wf_cluster_def [of c] intro!: wf_set_st split: option.splits)

lemma wf_markSuccess: "wf_cluster c \<Longrightarrow> wf_cluster (markSuccess addr c)"
  using wf_ep_st_of [of c addr] unfolding markSuccess_def
  by (intro wf_set_st) (auto simp: wf_ep_def wf_cluster_def split: option.splits)

text \<open>The effect of a probe on the record of the endpoint, where health checks are configured.\<close>

definition active_step :: "HealthCheckSpec \<Rightarrow> bool \<Rightarrow> epState \<Rightarrow> epState" where
  "active_step h r st =
     (if r then st\<lparr>consecSucc := wrap64 (consecSucc st + 1), consecFail := 0,
           activeUnhealthy := activeUnhealthy st \<and> \<not> hc_HealthyThreshold h \<le> wrap64 (consecSucc st + 1)\<rparr>
      else st\<lparr>consecFail := wrap64 (consecFail st + 1), consecSucc := 0,
           activeUnhealthy := activeUnhealthy st \<or> hc_UnhealthyThreshold h \<le> wrap64 (consecFail st + 1)\<rparr>)"

lemma updateActiveHealth_step:
  "hc c = Some h \<Longrightarrow> updateActiveHealth addr r c = Ret (set_st addr (active_step h r (st_of c addr)) c)"
  by (auto simp: updateActiveHealth_def active_step_def Let_def intro!: arg_cong [where f = "\<lambda>st. set_st addr st c"])

lemma wf_ep_active_step:
  assumes "wf_ep c st" "hc c = Some h" "wf_hc (hc c)"
  shows "wf_ep c (active_step h r st)"
proof -
  have "activeUnhealthy st \<Longrightarrow> wrap64 (consecSucc st + 1) = consecSucc st + 1"
    "\<not> activeUnhealthy st \<Longrightarrow> wrap64 (consecFail st + 1) = consecFail st + 1"
    using assms by (auto simp: wf_ep_def wf_hc_def in_i64_def intro!: wrap64_id)
  with assms show ?thesis
    by (cases "activeUnhealthy st") (auto simp: wf_ep_def active_step_def wf_hc_def)
qed

lemma updateActiveHealth_wf:
  assumes "wf_cluster c" "hc c = Some h"
  shows "\<exists>c'. updateActiveHealth addr r c = Ret c' \<and> wf_cluster c' \<and> hc c' = hc c"
  using assms wf_ep_active_step [OF wf_ep_st_of [OF assms(1)] assms(2)]
  by (auto simp: updateActiveHealth_step wf_cluster_def [of c] intro!: wf_set_st)

lemma markFailure_name [simp]: "c_Name (fst (markFailure addr now (c, m))) = c_Name c"
  by (simp add: markFailure_def Let_def)

lemma wf_ReportFailure: "wf_manager cm \<Longrightarrow> wf_manager (fst (ReportFailure n addr now (cm, m)))"
  by (cases "fmlookup cm n")
    (auto simp: ReportFailure_def case_prod_beta wf_manager_def wf_markFailure intro!: wf_manager_upd)

lemma wf_ReportSuccess: "wf_manager cm \<Longrightarrow> wf_manager (ReportSuccess n addr cm)"
  by (cases "fmlookup cm n")
    (auto simp: ReportSuccess_def wf_manager_def wf_markSuccess, simp add: markSuccess_def)

text \<open>In-flight counters stay non-negative, below the range of 64-bit integers.\<close>

lemma wf_set_inFlight:
  assumes "wf_manager cm" "fmlookup cm n = Some c" "fmlookup (state c) addr = Some st" "0 \<le> v"
  shows "wf_manager (fmupd n (set_st addr (st\<lparr>inFlight := v\<rparr>) c) cm)"
proof -
  have wf: "wf_cluster c" "c_Name c = n" using assms(1,2) by (auto simp: wf_manager_def)
  have "wf_ep c st" using wf(1) assms(3) by (auto simp: wf_cluster_def)
  then have "wf_ep c (st\<lparr>inFlight := v\<rparr>)" using assms(4) by (auto simp: wf_ep_def split: option.splits)
  with wf assms(1) show ?thesis by (simp add: wf_manager_upd wf_set_st)
qed

lemma wf_IncEndpointInFlight:
  assumes "wf_manager cm"
    and "\<And>c st. fmlookup cm n = Some c \<Longrightarrow> fmlookup (state c) addr = Some st \<Longrightarrow> inFlight st < 2 ^ 63 - 1"
  shows "wf_manager (fst (IncEndpointInFlight n addr (cm, m)))"
proof -
  have "0 \<le> wrap64 (inFlight st + 1)"
    if "fmlookup cm n = Some c" "fmlookup (state c) addr = Some st" for c st
  proof -
    have "0 \<le> inFlight st"
      using wf_managerD [OF assms(1) that(1)] that(2) by (auto simp: wf_cluster_def wf_ep_def)
    then have "wrap64 (inFlight st + 1) = inFlight st + 1"
      using assms(2) [OF that] by (intro wrap64_id) (simp add: in_i64_def)
    with \<open>0 \<le> inFlight st\<close> show ?thesis by simp
  qed
  with assms(1) show ?thesis
    by (auto simp: IncEndpointInFlight_def Let_def intro!: wf_set_inFlight split: option.splits)
qed

lemma wf_DecEndpointInFlight: "wf_manager cm \<Longrightarrow> wf_manager (fst (DecEndpointInFlight n addr (cm, m)))"
  by (auto simp: DecEndpointInFlight_def Let_def intro!: wf_set_inFlight split: option.splits)

section \<open>Outlier detection follows the history of reports\<close>

lemma fail_streak_simps [simp]:
  "fail_streak [] = 0" "fail_streak (RFail t # hist) = Suc (fail_streak hist)"
  "fail_streak (RSucc # hist) = 0"
  by (simp_all add: fail_streak_def)

lemma report_run_snoc: "report_run addr s (es @ [e]) = report_step addr (report_run addr s es) e"
  by (simp add: report_run_def)

lemma mod_Suc_step:
  assumes "0 < n"
  shows "(int k mod int n + 1 = int n) \<longleftrightarrow> n dvd Suc k"
    and "\<not> n dvd Suc k \<Longrightarrow> int k mod int n + 1 = int (Suc k) mod int n"
    and "n dvd Suc k \<Longrightarrow> int (Suc k) mod int n = 0"
proof -
  have int_mod: "int k mod int n + 1 = int (Suc (k mod n))" "int (Suc k) mod int n = int (Suc k mod n)"
    by (simp_all add: of_nat_mod)
  have dvd: "n dvd Suc k \<longleftrightarrow> Suc (k mod n) = n"
    by (simp add: dvd_eq_mod_eq_0 mod_Suc)
  show "(int k mod int n + 1 = int n) \<longleftrightarrow> n dvd Suc k"
    unfolding int_mod dvd by linarith
  show "\<not> n dvd Suc k \<Longrightarrow> int k mod int n + 1 = int (Suc k) mod int n"
    unfolding int_mod dvd by (simp add: mod_Suc)
  show "n dvd Suc k \<Longrightarrow> int (Suc k) mod int n = 0"
    unfolding int_mod by simp
qed

lemma report_run_refines:
  assumes wf: "wf_cluster c" and n: "consecutive (outlier c) = int n"
    and fresh: "failures (st_of c addr) = 0"
  shows "wf_cluster (fst (report_run addr (c, m) es)) \<and> outlier (fst (report_run addr (c, m) es)) = outlier c \<and>
    failures (st_of (fst (report_run addr (c, m) es)) addr) = int (fail_streak (rev es)) mod int n \<and>
    unhealthyUntil (st_of (fst (report_run addr (c, m) es)) addr) =
      (case last_ejection n (rev es) of
         None \<Rightarrow> unhealthyUntil (st_of c addr)
       | Some t \<Rightarrow> t + ejectFor (outlier c))"
proof (induction es rule: rev_induct)
  case Nil
  then show ?case using wf fresh by (simp add: report_run_def)
next
  case (snoc e es)
  obtain c1 m1 where run: "report_run addr (c, m) es = (c1, m1)" by force
  have n0: "0 < n" using wf n by (simp add: wf_cluster_def)
  have IH: "wf_cluster c1" "outlier c1 = outlier c"
    "failures (st_of c1 addr) = int (fail_streak (rev es)) mod int n"
    "unhealthyUntil (st_of c1 addr) = (case last_ejection n (rev es) of
         None \<Rightarrow> unhealthyUntil (st_of c addr) | Some t \<Rightarrow> t + ejectFor (outlier c))"
    using snoc run by auto
  show ?case
  proof (cases e)
    case (RFail t)
    then show ?thesis
      using IH n wf_markFailure [OF IH(1), of addr t m1] mod_Suc_step [OF n0, of "fail_streak (rev es)"]
      by (auto simp: report_run_snoc run markFailure_cases)
  next
    case RSucc
    then show ?thesis
      using IH wf_markSuccess [OF IH(1), of addr]
      by (simp add: report_run_snoc run) (simp add: markSuccess_def)
  qed
qed

section \<open>Active health follows the hysteresis\<close>

lemma probe_run_snoc:
  "probe_run addr c (rs @ [r]) = go_bind (probe_run addr c rs) (\<lambda>c. updateActiveHealth addr r c)"
proof (induction rs arbitrary: c)
  case (Cons x xs)
  then show ?case by (cases "updateActiveHealth addr x c") auto
next
  case Nil
  then show ?case by (cases "updateActiveHealth addr r c") auto
qed

lemma probe_run_refines:
  assumes h: "hc c = Some h" "hc_HealthyThreshold h = int hth" "hc_UnhealthyThreshold h = int uth"
    and pos: "0 < hth" "0 < uth"
    and fresh: "fmlookup (state c) addr = None \<or> fmlookup (state c) addr = Some new_epState"
    and len: "length rs < 2 ^ 63"
  shows "\<exists>c'. probe_run addr c rs = Ret c' \<and> hc c' = hc c \<and>
    activeUnhealthy (st_of c' addr) = hysteresis hth uth (rev rs) \<and>
    consecSucc (st_of c' addr) = int (length (takeWhile (\<lambda>r. r) (rev rs))) \<and>
    consecFail (st_of c' addr) = int (length (takeWhile Not (rev rs))) \<and>
    unhealthyUntil (st_of c' addr) = zeroTime"
  using len
proof (induction rs rule: rev_induct)
  case Nil
  then show ?case using fresh by (auto simp: st_of_def new_epState_def)
next
  case (snoc r rs)
  then obtain c' where c': "probe_run addr c rs = Ret c'" "hc c' = hc c"
    "activeUnhealthy (st_of c' addr) = hysteresis hth uth (rev rs)"
    "consecSucc (st_of c' addr) = int (length (takeWhile (\<lambda>r. r) (rev rs)))"
    "consecFail (st_of c' addr) = int (length (takeWhile Not (rev rs)))"
    "unhealthyUntil (st_of c' addr) = zeroTime"
    by auto
  have "length (takeWhile (\<lambda>r. r) (rev rs)) \<le> length rs" "length (takeWhile Not (rev rs)) \<le> length rs"
    using length_takeWhile_le [of "\<lambda>r. r" "rev rs"] length_takeWhile_le [of Not "rev rs"] by simp_all
  then have "wrap64 (1 + int (length (takeWhile (\<lambda>r. r) (rev rs)))) = 1 + int (length (takeWhile (\<lambda>r. r) (rev rs)))"
    "wrap64 (1 + int (length (takeWhile Not (rev rs)))) = 1 + int (length (takeWhile Not (rev rs)))"
    using snoc.prems by (auto simp: in_i64_def intro!: wrap64_id)
  with c' h pos show ?case
    by (cases r) (auto simp: probe_run_snoc updateActiveHealth_step active_step_def add.commute)
qed

end
