(* ===== verification/GP_Balance.thy ===== *)
theory GP_Balance
  imports GP_Health
begin

text \<open>
  Load balancing: \<^verbatim>\<open>Manager.Pick\<close> of \<^verbatim>\<open>manager.go\<close> with its three policies. The
  locale \<open>selector\<close> is the contract the upstream proxy relies on, whatever the policy: a usable
  endpoint (available and below its cap) is chosen whenever there is one, the capacity error is
  returned exactly when all available endpoints are at their cap, and when none is available some
  endpoint is still tried. It is interpreted on each of the three policies.

  The round-robin index is a 64-bit unsigned counter that the code converts to a signed int, so the
  policy panics once the counter has passed \<open>2^63\<close>; \<open>rr_small\<close> is the range where it does not.
\<close>

section \<open>Pick\<close>

datatype pick_error = UnknownCluster string | NoEndpointCapacity

text \<open>\<open>rnd n\<close> is the value that \<^verbatim>\<open>m.rnd.Intn(n)\<close> returns.\<close>

definition pick_random :: "(nat \<Rightarrow> nat) \<Rightarrow> Cluster \<Rightarrow> Time \<Rightarrow> (pick_error + Endpoint) go" where
  "pick_random rnd c now =
     (let eps = snapshotEndpoints c;
          healthy = filter (\<lambda>ep. isAvailable c ep now) eps;
          healthyUnderCap = filter (underEndpointCap c) healthy
      in if 0 < length healthyUnderCap
         then go_bind (index_go healthyUnderCap (int (rnd (length healthyUnderCap)))) (\<lambda>ep. Ret (Inr ep))
         else if length healthy = 0
         then go_bind (index_go eps (int (rnd (length eps)))) (\<lambda>ep. Ret (Inr ep))
         else Ret (Inl NoEndpointCapacity))"

definition ep_load :: "Cluster \<Rightarrow> Endpoint \<Rightarrow> int" where
  "ep_load c ep = (case fmlookup (state c) ep of None \<Rightarrow> 0 | Some st \<Rightarrow> inFlight st)"

fun least_loop :: "Cluster \<Rightarrow> Time \<Rightarrow> Endpoint list \<Rightarrow> Endpoint \<Rightarrow> int \<Rightarrow> Endpoint \<times> int" where
  "least_loop c now [] sel mn = (sel, mn)"
| "least_loop c now (ep # eps) sel mn =
     (if \<not> isAvailable c ep now then least_loop c now eps sel mn
      else let cur = ep_load c ep in
        if \<not> underEndpointCap c ep then least_loop c now eps sel mn
        else if mn = -1 \<or> cur < mn then least_loop c now eps ep cur
        else least_loop c now eps sel mn)"

text \<open>The ring walk: \<open>k\<close> iterations are left, \<open>i\<close> is the loop variable.\<close>

fun rr_loop :: "Cluster \<Rightarrow> Time \<Rightarrow> Endpoint list \<Rightarrow> int \<Rightarrow> nat \<Rightarrow> int \<Rightarrow> bool
    \<Rightarrow> (bool \<times> Endpoint option) go" where
  "rr_loop c now eps start 0 i anyHealthy = Ret (anyHealthy, None)"
| "rr_loop c now eps start (Suc k) i anyHealthy =
     go_bind (index_go eps ((start + i) smod int (length eps))) (\<lambda>ep.
       if isAvailable c ep now then
         (if underEndpointCap c ep then Ret (True, Some ep)
          else rr_loop c now eps start k (i + 1) True)
       else rr_loop c now eps start k (i + 1) anyHealthy)"

definition pick_round_robin :: "Cluster \<Rightarrow> Time \<Rightarrow> (pick_error + Endpoint) go" where
  "pick_round_robin c now =
     (let eps = snapshotEndpoints c;
          start = sint ((rr c + 1) - 1) smod int (length eps)
      in go_bind (rr_loop c now eps start (length eps) 0 False) (\<lambda>(anyHealthy, found).
           case found of
             Some ep \<Rightarrow> Ret (Inr ep)
           | None \<Rightarrow>
               if anyHealthy then Ret (Inl NoEndpointCapacity)
               else go_bind (index_go eps start) (\<lambda>ep. Ret (Inr ep))))"

definition advance_rr :: "Cluster \<Rightarrow> Cluster" where
  "advance_rr c = c\<lparr>rr := rr c + 1\<rparr>"

definition Pick :: "(nat \<Rightarrow> nat) \<Rightarrow> Time \<Rightarrow> string \<Rightarrow> Manager \<Rightarrow> ((pick_error + Endpoint) \<times> Manager) go" where
  "Pick rnd now clusterName cm =
     (case fmlookup cm clusterName of
        None \<Rightarrow> Ret (Inl (UnknownCluster clusterName), cm)
      | Some c \<Rightarrow>
          if length (snapshotEndpoints c) = 0 then Ret (Inl (UnknownCluster clusterName), cm)
          else if lbPolicy c = ''random'' then go_bind (pick_random rnd c now) (\<lambda>r. Ret (r, cm))
          else
            (let (sel, mn) = (if lbPolicy c = ''least_requests''
                              then least_loop c now (snapshotEndpoints c) [] (-1) else ([], -1))
             in if lbPolicy c = ''least_requests'' \<and> mn \<noteq> -1 then Ret (Inr sel, cm)
                else go_bind (pick_round_robin c now)
                       (\<lambda>r. Ret (r, fmupd clusterName (advance_rr c) cm))))"

text \<open>Successive picks, each from the state the one before left.\<close>

fun picks :: "(nat \<Rightarrow> nat) \<Rightarrow> Time \<Rightarrow> string \<Rightarrow> nat \<Rightarrow> Manager \<Rightarrow> (pick_error + Endpoint) list go" where
  "picks rnd now n 0 cm = Ret []"
| "picks rnd now n (Suc k) cm =
     go_bind (Pick rnd now n cm) (\<lambda>(r, cm). go_bind (picks rnd now n k cm) (\<lambda>rs. Ret (r # rs)))"

text \<open>The choice of each policy for one cluster.\<close>

definition pick_least :: "(nat \<Rightarrow> nat) \<Rightarrow> Cluster \<Rightarrow> Time \<Rightarrow> (pick_error + Endpoint) go" where
  "pick_least rnd c now =
     (let (sel, mn) = least_loop c now (snapshotEndpoints c) [] (-1)
      in if mn \<noteq> -1 then Ret (Inr sel) else pick_round_robin c now)"

definition pick_policy :: "(nat \<Rightarrow> nat) \<Rightarrow> Cluster \<Rightarrow> Time \<Rightarrow> (pick_error + Endpoint) go" where
  "pick_policy rnd c now =
     (if lbPolicy c = ''random'' then pick_random rnd c now
      else if lbPolicy c = ''least_requests'' then pick_least rnd c now
      else pick_round_robin c now)"

section \<open>The contract of a policy\<close>

definition usable :: "Cluster \<Rightarrow> Time \<Rightarrow> Endpoint \<Rightarrow> bool" where
  "usable c now ep \<longleftrightarrow> isAvailable c ep now \<and> underEndpointCap c ep"

locale selector =
  fixes sel :: "(nat \<Rightarrow> nat) \<Rightarrow> Cluster \<Rightarrow> Time \<Rightarrow> (pick_error + Endpoint) go"
    and pre :: "(nat \<Rightarrow> nat) \<Rightarrow> Cluster \<Rightarrow> bool"
  assumes sel_usable: "pre rnd c \<Longrightarrow> ep \<in> set (Endpoints c) \<Longrightarrow> usable c now ep \<Longrightarrow>
      \<exists>ep'. sel rnd c now = Ret (Inr ep') \<and> ep' \<in> set (Endpoints c) \<and> usable c now ep'"
    and sel_capped: "pre rnd c \<Longrightarrow> ep \<in> set (Endpoints c) \<Longrightarrow> isAvailable c ep now \<Longrightarrow>
      (\<And>ep. ep \<in> set (Endpoints c) \<Longrightarrow> \<not> usable c now ep) \<Longrightarrow> sel rnd c now = Ret (Inl NoEndpointCapacity)"
    and sel_fallback: "pre rnd c \<Longrightarrow> Endpoints c \<noteq> [] \<Longrightarrow>
      (\<And>ep. ep \<in> set (Endpoints c) \<Longrightarrow> \<not> isAvailable c ep now) \<Longrightarrow>
      \<exists>ep'. sel rnd c now = Ret (Inr ep') \<and> ep' \<in> set (Endpoints c)"
begin

lemma sel_total:
  assumes "pre rnd c" "Endpoints c \<noteq> []"
  shows "sel rnd c now = Ret (Inl NoEndpointCapacity) \<or>
    (\<exists>ep \<in> set (Endpoints c). sel rnd c now = Ret (Inr ep))"
proof (cases "\<exists>ep \<in> set (Endpoints c). usable c now ep")
  case True
  then show ?thesis using sel_usable [OF assms(1)] by blast
next
  case False
  then show ?thesis
    using sel_capped [OF assms(1)] sel_fallback [OF assms] by blast
qed

lemma sel_error_iff:
  assumes "pre rnd c" "Endpoints c \<noteq> []"
  shows "sel rnd c now = Ret (Inl NoEndpointCapacity) \<longleftrightarrow>
    (\<exists>ep \<in> set (Endpoints c). isAvailable c ep now) \<and> \<not> (\<exists>ep \<in> set (Endpoints c). usable c now ep)"
  using sel_usable [OF assms(1)] sel_capped [OF assms(1)] sel_fallback [OF assms]
  by (metis (no_types, lifting) go.inject sum.distinct(1))

lemma sel_unusable_only_if_none:
  assumes "pre rnd c" "Endpoints c \<noteq> []" "sel rnd c now = Ret (Inr ep)"
  shows "usable c now ep \<or> (\<forall>ep' \<in> set (Endpoints c). \<not> isAvailable c ep' now)"
  using assms sel_usable [OF assms(1)] sel_capped [OF assms(1)]
  by (metis (no_types, lifting) go.inject sum.inject(2) sum.distinct(1))

end

definition rnd_ok :: "(nat \<Rightarrow> nat) \<Rightarrow> bool" where
  "rnd_ok rnd \<longleftrightarrow> (\<forall>n. 0 < n \<longrightarrow> rnd n < n)"

definition rr_small :: "Cluster \<Rightarrow> bool" where
  "rr_small c \<longleftrightarrow> uint (rr c) < 2 ^ 63"

definition loads_ok :: "Cluster \<Rightarrow> bool" where
  "loads_ok c \<longleftrightarrow> (\<forall>a st. fmlookup (state c) a = Some st \<longrightarrow> 0 \<le> inFlight st)"

section \<open>Random\<close>

interpretation random_sel: selector pick_random "\<lambda>rnd c. rnd_ok rnd"
proof unfold_locales
  fix rnd c ep now assume "rnd_ok rnd" "ep \<in> set (Endpoints c)" "usable c now ep"
  let ?us = "filter (underEndpointCap c) (filter (\<lambda>ep. isAvailable c ep now) (Endpoints c))"
  have us: "0 < length ?us" using \<open>ep \<in> _\<close> \<open>usable c now ep\<close> by (auto simp: usable_def filter_empty_conv)
  then have "rnd (length ?us) < length ?us" using \<open>rnd_ok rnd\<close> unfolding rnd_ok_def by blast
  then have "?us ! rnd (length ?us) \<in> set ?us" by (rule nth_mem)
  with us \<open>rnd (length ?us) < length ?us\<close>
  show "\<exists>ep'. pick_random rnd c now = Ret (Inr ep') \<and> ep' \<in> set (Endpoints c) \<and> usable c now ep'"
    unfolding pick_random_def Let_def snapshotEndpoints_def
    by (subst if_P [OF us]) (auto simp: usable_def)
next
  fix rnd c ep now assume "ep \<in> set (Endpoints c)" "isAvailable c ep now"
    and "\<And>ep. ep \<in> set (Endpoints c) \<Longrightarrow> \<not> usable c now ep"
  then show "pick_random rnd c now = Ret (Inl NoEndpointCapacity)"
    by (auto simp: pick_random_def Let_def snapshotEndpoints_def usable_def filter_empty_conv)
next
  fix rnd c now assume "rnd_ok rnd" "Endpoints c \<noteq> []"
    and none: "\<And>ep. ep \<in> set (Endpoints c) \<Longrightarrow> \<not> isAvailable c ep now"
  then have "rnd (length (Endpoints c)) < length (Endpoints c)" by (simp add: rnd_ok_def)
  with none show "\<exists>ep'. pick_random rnd c now = Ret (Inr ep') \<and> ep' \<in> set (Endpoints c)"
    by (auto simp: pick_random_def Let_def snapshotEndpoints_def filter_empty_conv)
qed

section \<open>Round robin\<close>

lemma ring_index:
  assumes "0 \<le> s" "i < length eps"
  shows "index_go eps ((s + int i) smod int (length eps)) = Ret (rotate (nat s) eps ! i)"
proof -
  have "(s + int i) smod int (length eps) = (s + int i) mod int (length eps)"
    using assms by (intro smod_mod_positive) auto
  moreover have "nat ((s + int i) mod int (length eps)) = (nat s + i) mod length eps"
  proof -
    have "s + int i = int (nat s + i)" using assms(1) by simp
    then have "(s + int i) mod int (length eps) = int ((nat s + i) mod length eps)"
      by (simp only: of_nat_mod)
    then show ?thesis by simp
  qed
  moreover have "0 < length eps" using assms(2) by (cases eps) auto
  ultimately show ?thesis
    using assms by (simp add: nth_rotate index_go_def)
qed

text \<open>The walk returns the first usable endpoint of the ring rotated to its start.\<close>

lemma rr_loop_ring:
  assumes "0 \<le> s" "i + k = length eps"
  shows "rr_loop c now eps s k (int i) any =
    (case find (usable c now) (drop i (rotate (nat s) eps)) of
       Some ep \<Rightarrow> Ret (True, Some ep)
     | None \<Rightarrow> Ret (any \<or> (\<exists>ep \<in> set (drop i (rotate (nat s) eps)). isAvailable c ep now), None))"
  using assms(2)
proof (induction k arbitrary: i any)
  case 0
  then show ?case by simp
next
  case (Suc k)
  then have i: "i < length (rotate (nat s) eps)" by simp
  have d: "drop i (rotate (nat s) eps) = rotate (nat s) eps ! i # drop (Suc i) (rotate (nat s) eps)"
    using Cons_nth_drop_Suc [OF i] by simp
  show ?case
    using Suc.IH [of "Suc i"] Suc.prems ring_index [OF assms(1), of i eps] i
    by (auto simp: d usable_def add.commute split: option.splits)
qed

lemma rr_start:
  assumes "rr_small c"
  shows "sint (rr c) smod int n = int (unat (rr c) mod n)"
proof -
  have "- (2 ^ 63) \<le> uint (rr c)" by (rule order_trans [OF _ uint_ge_0]) simp
  then have "signed_take_bit 63 (uint (rr c)) = uint (rr c)"
    using assms unfolding rr_small_def by (rule signed_take_bit_int_eq_self)
  then have "sint (rr c) = int (unat (rr c))" by (simp add: sint_uint)
  then show ?thesis by (simp add: smod_mod_positive of_nat_mod)
qed

lemma pick_round_robin_ring:
  assumes "rr_small c" "Endpoints c \<noteq> []"
  shows "pick_round_robin c now =
    (let ring = rotate (unat (rr c) mod length (Endpoints c)) (Endpoints c) in
     case find (usable c now) ring of
       Some ep \<Rightarrow> Ret (Inr ep)
     | None \<Rightarrow> if \<exists>ep \<in> set ring. isAvailable c ep now then Ret (Inl NoEndpointCapacity)
              else Ret (Inr (Endpoints c ! (unat (rr c) mod length (Endpoints c)))))"
proof -
  let ?n = "length (Endpoints c)"
  have n: "0 < ?n" using assms(2) by simp
  show ?thesis
    using rr_loop_ring [of "int (unat (rr c) mod ?n)" 0 ?n "Endpoints c" c now False] n
    by (simp add: pick_round_robin_def snapshotEndpoints_def Let_def rr_start [OF assms(1)]
        index_go_def split: option.splits)
qed

lemma find_SomeD: "find P xs = Some x \<Longrightarrow> x \<in> set xs \<and> P x"
  by (induction xs) (auto split: if_splits)

interpretation rr_sel: selector "\<lambda>rnd. pick_round_robin" "\<lambda>rnd. rr_small"
proof unfold_locales
  fix c ep now assume *: "rr_small c" "ep \<in> set (Endpoints c)" "usable c now ep"
  then have "find (usable c now) (rotate (unat (rr c) mod length (Endpoints c)) (Endpoints c)) \<noteq> None"
    by (auto simp: find_None simp del: not_None_eq)
  then obtain y where y: "find (usable c now) (rotate (unat (rr c) mod length (Endpoints c)) (Endpoints c)) = Some y"
    by blast
  with * find_SomeD [OF y]
  show "\<exists>ep'. pick_round_robin c now = Ret (Inr ep') \<and> ep' \<in> set (Endpoints c) \<and> usable c now ep'"
    by (subst pick_round_robin_ring) auto
next
  fix c ep now assume *: "rr_small c" "ep \<in> set (Endpoints c)" "isAvailable c ep now"
    and no: "\<And>ep. ep \<in> set (Endpoints c) \<Longrightarrow> \<not> usable c now ep"
  have "find (usable c now) (rotate (unat (rr c) mod length (Endpoints c)) (Endpoints c)) = None"
    using no by (simp add: find_None)
  with * show "pick_round_robin c now = Ret (Inl NoEndpointCapacity)"
    by (subst pick_round_robin_ring) auto
next
  fix c now assume *: "rr_small c" "Endpoints c \<noteq> []"
    and no: "\<And>ep. ep \<in> set (Endpoints c) \<Longrightarrow> \<not> isAvailable c ep now"
  have "find (usable c now) (rotate (unat (rr c) mod length (Endpoints c)) (Endpoints c)) = None"
    using no by (simp add: find_None usable_def)
  with * no show "\<exists>ep'. pick_round_robin c now = Ret (Inr ep') \<and> ep' \<in> set (Endpoints c)"
    by (subst pick_round_robin_ring) auto
qed

section \<open>Least requests\<close>

lemma ep_load_nonneg: "loads_ok c \<Longrightarrow> 0 \<le> ep_load c ep"
  by (auto simp: ep_load_def loads_ok_def split: option.splits)

text \<open>The loop computes the first endpoint of least load among the usable ones.\<close>

lemma least_loop_min:
  assumes "loads_ok c" "mn = -1 \<or> 0 \<le> mn"
  shows "least_loop c now eps sel mn =
    (let us = filter (usable c now) eps; best = arg_min_list (ep_load c) us in
     if us = [] \<or> (0 \<le> mn \<and> mn \<le> ep_load c best) then (sel, mn) else (best, ep_load c best))"
  using assms(2)
proof (induction eps arbitrary: sel mn)
  case Nil
  then show ?case by simp
next
  case (Cons ep eps)
  let ?us = "filter (usable c now) eps"
  have nn: "0 \<le> ep_load c e" for e using assms(1) by (rule ep_load_nonneg)
  show ?case
  proof (cases "usable c now ep")
    case False
    with Cons show ?thesis by (auto simp: usable_def)
  next
    case True
    then have u: "isAvailable c ep now" "underEndpointCap c ep" by (auto simp: usable_def)
    have step: "least_loop c now (ep # eps) sel mn =
        (if mn = -1 \<or> ep_load c ep < mn then least_loop c now eps ep (ep_load c ep)
         else least_loop c now eps sel mn)"
      using u by (simp add: Let_def)
    have best: "arg_min_list (ep_load c) (ep # ?us) =
        (if ?us = [] \<or> ep_load c ep \<le> ep_load c (arg_min_list (ep_load c) ?us) then ep
         else arg_min_list (ep_load c) ?us)"
      by (cases ?us) (auto simp: Let_def)
    show ?thesis
      unfolding step using True Cons.IH [of "ep_load c ep" ep] Cons.IH [of mn sel] Cons.prems nn [of ep]
      by (auto simp: Let_def best split: if_splits)
  qed
qed

lemma pick_least_min:
  assumes "loads_ok c" "filter (usable c now) (Endpoints c) \<noteq> []"
  shows "pick_least rnd c now =
    Ret (Inr (arg_min_list (ep_load c) (filter (usable c now) (Endpoints c))))"
  using assms ep_load_nonneg [OF assms(1), of "arg_min_list (ep_load c) (filter (usable c now) (Endpoints c))"]
  by (simp add: pick_least_def snapshotEndpoints_def least_loop_min Let_def)

lemma pick_least_rr:
  assumes "loads_ok c" "filter (usable c now) (Endpoints c) = []"
  shows "pick_least rnd c now = pick_round_robin c now"
  using assms by (simp add: pick_least_def snapshotEndpoints_def least_loop_min)

interpretation least_sel: selector pick_least "\<lambda>rnd c. rr_small c \<and> loads_ok c"
proof unfold_locales
  fix rnd c ep now assume *: "rr_small c \<and> loads_ok c" "ep \<in> set (Endpoints c)" "usable c now ep"
  let ?us = "filter (usable c now) (Endpoints c)"
  have us: "?us \<noteq> []" using * by (auto simp: filter_empty_conv)
  then have "arg_min_list (ep_load c) ?us \<in> set ?us" by (rule arg_min_list_in)
  with us * show "\<exists>ep'. pick_least rnd c now = Ret (Inr ep') \<and> ep' \<in> set (Endpoints c) \<and> usable c now ep'"
    by (auto simp: pick_least_min)
next
  fix rnd c ep now assume *: "rr_small c \<and> loads_ok c" "ep \<in> set (Endpoints c)" "isAvailable c ep now"
    and no: "\<And>ep. ep \<in> set (Endpoints c) \<Longrightarrow> \<not> usable c now ep"
  then have "filter (usable c now) (Endpoints c) = []" by (auto simp: filter_empty_conv)
  with * no show "pick_least rnd c now = Ret (Inl NoEndpointCapacity)"
    using rr_sel.sel_capped by (auto simp: pick_least_rr)
next
  fix rnd c now assume *: "rr_small c \<and> loads_ok c" "Endpoints c \<noteq> []"
    and no: "\<And>ep. ep \<in> set (Endpoints c) \<Longrightarrow> \<not> isAvailable c ep now"
  then have "filter (usable c now) (Endpoints c) = []" by (auto simp: filter_empty_conv usable_def)
  with * no show "\<exists>ep'. pick_least rnd c now = Ret (Inr ep') \<and> ep' \<in> set (Endpoints c)"
    using rr_sel.sel_fallback by (auto simp: pick_least_rr)
qed


section \<open>Pick as a whole\<close>

interpretation policy_sel: selector pick_policy "\<lambda>rnd c. rnd_ok rnd \<and> rr_small c \<and> loads_ok c"
proof unfold_locales
  fix rnd c ep now assume "rnd_ok rnd \<and> rr_small c \<and> loads_ok c" "ep \<in> set (Endpoints c)" "usable c now ep"
  then show "\<exists>ep'. pick_policy rnd c now = Ret (Inr ep') \<and> ep' \<in> set (Endpoints c) \<and> usable c now ep'"
    using random_sel.sel_usable rr_sel.sel_usable least_sel.sel_usable by (simp add: pick_policy_def)
next
  fix rnd c ep now assume "rnd_ok rnd \<and> rr_small c \<and> loads_ok c" "ep \<in> set (Endpoints c)" "isAvailable c ep now"
    and "\<And>ep. ep \<in> set (Endpoints c) \<Longrightarrow> \<not> usable c now ep"
  then show "pick_policy rnd c now = Ret (Inl NoEndpointCapacity)"
    using random_sel.sel_capped rr_sel.sel_capped least_sel.sel_capped by (simp add: pick_policy_def)
next
  fix rnd c now assume "rnd_ok rnd \<and> rr_small c \<and> loads_ok c" "Endpoints c \<noteq> []"
    and "\<And>ep. ep \<in> set (Endpoints c) \<Longrightarrow> \<not> isAvailable c ep now"
  then show "\<exists>ep'. pick_policy rnd c now = Ret (Inr ep') \<and> ep' \<in> set (Endpoints c)"
    using random_sel.sel_fallback rr_sel.sel_fallback least_sel.sel_fallback by (simp add: pick_policy_def)
qed

text \<open>\<open>Pick\<close> returns the choice of the policy and changes at most the round-robin index.\<close>

lemma Pick_policy:
  assumes "fmlookup cm n = Some c" "Endpoints c \<noteq> []"
  shows "\<exists>c'. (c' = c \<or> c' = advance_rr c) \<and>
    Pick rnd now n cm = go_bind (pick_policy rnd c now) (\<lambda>r. Ret (r, fmupd n c' cm))"
proof -
  have same: "fmupd n c cm = cm" using assms(1) by (intro fmap_ext) auto
  have look: "Pick rnd now n cm =
      (if lbPolicy c = ''random'' then go_bind (pick_random rnd c now) (\<lambda>r. Ret (r, cm))
       else if lbPolicy c = ''least_requests'' \<and> snd (least_loop c now (Endpoints c) [] (-1)) \<noteq> -1
       then Ret (Inr (fst (least_loop c now (Endpoints c) [] (-1))), cm)
       else go_bind (pick_round_robin c now) (\<lambda>r. Ret (r, fmupd n (advance_rr c) cm)))"
    using assms by (simp add: Pick_def snapshotEndpoints_def case_prod_beta)
  consider "lbPolicy c = ''random''" | "lbPolicy c = ''least_requests''" | "lbPolicy c \<notin> {''random'', ''least_requests''}"
    by blast
  then show ?thesis
  proof cases
    case 1
    then show ?thesis using same by (intro exI [of _ c]) (simp add: look pick_policy_def)
  next
    case 2
    then show ?thesis
    proof (cases "snd (least_loop c now (Endpoints c) [] (-1)) = -1")
      case True
      with 2 show ?thesis
        by (intro exI [of _ "advance_rr c"])
          (simp add: look pick_policy_def pick_least_def snapshotEndpoints_def case_prod_beta)
    next
      case False
      with 2 show ?thesis
        using same by (intro exI [of _ c])
          (simp add: look pick_policy_def pick_least_def snapshotEndpoints_def case_prod_beta)
    qed
  next
    case 3
    then show ?thesis by (intro exI [of _ "advance_rr c"]) (simp add: look pick_policy_def)
  qed
qed

lemma advance_rr_fields [simp]:
  "Endpoints (advance_rr c) = Endpoints c" "state (advance_rr c) = state c" "hc (advance_rr c) = hc c"
  "outlier (advance_rr c) = outlier c" "lbPolicy (advance_rr c) = lbPolicy c"
  "inflight (advance_rr c) = inflight c" "hcRunning (advance_rr c) = hcRunning c"
  "hcCancel (advance_rr c) = hcCancel c" "c_Name (advance_rr c) = c_Name c"
  "epMaxReqs (advance_rr c) = epMaxReqs c" "cbMaxReqs (advance_rr c) = cbMaxReqs c"
  "rr (advance_rr c) = rr c + 1"
  by (simp_all add: advance_rr_def)

lemma advance_rr_avail [simp]:
  "isAvailable (advance_rr c) = isAvailable c" "underEndpointCap (advance_rr c) = underEndpointCap c"
  "usable (advance_rr c) = usable c"
  by (simp_all add: fun_eq_iff isAvailable_def underEndpointCap_def usable_def split: option.splits)

lemma wf_advance_rr [simp]: "wf_cluster (advance_rr c) = wf_cluster c"
proof -
  have "wf_ep (advance_rr c) = wf_ep c" by (simp add: fun_eq_iff wf_ep_def)
  then show ?thesis by (simp add: wf_cluster_def)
qed

lemma wf_Pick: "wf_manager cm \<Longrightarrow> Pick rnd now n cm = Ret (r, cm') \<Longrightarrow> wf_manager cm'"
  by (auto simp: Pick_def wf_manager_def go_bind_eq_Ret Let_def split: option.splits if_splits prod.splits)

section \<open>Fairness of round robin\<close>

lemma pick_rr_all_usable:
  assumes "rr_small c" "Endpoints c \<noteq> []" "\<forall>ep \<in> set (Endpoints c). usable c now ep"
  shows "pick_round_robin c now = Ret (Inr (Endpoints c ! (unat (rr c) mod length (Endpoints c))))"
proof -
  let ?k = "unat (rr c) mod length (Endpoints c)"
  have k: "?k < length (Endpoints c)" using assms(2) by simp
  obtain x xs where ring: "rotate ?k (Endpoints c) = x # xs"
    using assms(2) by (metis list.exhaust rotate_is_Nil_conv)
  have "x = Endpoints c ! ?k"
    using nth_rotate [of 0 "Endpoints c" ?k] assms(2) ring k by simp
  moreover have "usable c now x"
    using assms(3) ring by (metis list.set_intros(1) set_rotate)
  ultimately show ?thesis
    using ring by (simp add: pick_round_robin_ring [OF assms(1,2)])
qed

lemma picks_round_robin:
  assumes "fmlookup cm n = Some c" "lbPolicy c = ''round_robin''" "Endpoints c \<noteq> []"
    and "\<forall>ep \<in> set (Endpoints c). usable c now ep" and "unat (rr c) + k \<le> 2 ^ 63"
  shows "picks rnd now n k cm =
    Ret (map (\<lambda>j. Inr (Endpoints c ! ((unat (rr c) + j) mod length (Endpoints c)))) [0..<k])"
  using assms
proof (induction k arbitrary: cm c)
  case 0
  then show ?case by simp
next
  case (Suc k)
  have "int (unat (rr c)) < int (2 ^ 63)"
    using Suc.prems(5) by (simp only: of_nat_less_iff)
  then have small: "rr_small c" by (simp add: rr_small_def)
  have "unat (rr c) + 1 < 2 ^ 64" using Suc.prems(5) by simp
  then have next_rr: "unat (rr c + 1) = unat (rr c) + 1"
    by (simp add: unat_word_ariths)
  have pick: "Pick rnd now n cm =
      Ret (Inr (Endpoints c ! (unat (rr c) mod length (Endpoints c))), fmupd n (advance_rr c) cm)"
    using Suc.prems small
    by (simp add: Pick_def snapshotEndpoints_def pick_rr_all_usable)
  have "picks rnd now n k (fmupd n (advance_rr c) cm) =
      Ret (map (\<lambda>j. Inr (Endpoints c ! ((unat (rr c) + 1 + j) mod length (Endpoints c)))) [0..<k])"
    using Suc.IH [of "fmupd n (advance_rr c) cm" "advance_rr c"] Suc.prems
    by (simp add: next_rr add.assoc)
  then show ?case
    by (simp add: pick map_upt_Suc add.assoc del: upt_Suc)
qed

text \<open>A full round visits every endpoint exactly once.\<close>

lemma ring_round:
  assumes "xs \<noteq> []"
  shows "mset (map (\<lambda>j. xs ! ((r + j) mod length xs)) [0..<length xs]) = mset xs"
proof -
  have "map (\<lambda>j. xs ! ((r + j) mod length xs)) [0..<length xs] = rotate r xs"
    by (rule nth_equalityI) (simp_all add: nth_rotate)
  moreover have "mset (rotate r xs) = mset xs"
    by (metis append_take_drop_id mset_append rotate_drop_take union_commute)
  ultimately show ?thesis by simp
qed

end
