(* ===== verification/GP_Breaker.thy ===== *)
theory GP_Breaker
  imports GP_Health
begin

text \<open>
  The circuit breaker: \<^verbatim>\<open>Manager.TryAcquire\<close> and \<^verbatim>\<open>Manager.Release\<close> of
  \<^verbatim>\<open>manager.go\<close>, which bound the requests in flight to a cluster by an atomic addition
  that is rolled back when it passes the limit. Two views of the same code:
  \<^item> as operations of the manager, each taken as one step. The locale \<open>slot_pool\<close> is the contract
    the upstream proxy relies on (an acquisition is granted exactly below the limit, what is held
    is what was granted and not released), interpreted on \<open>TryAcquire\<close> and \<open>Release\<close>;
  \<^item> as a transition system \<open>breaker_step\<close> over any number of goroutines, one rule per atomic
    operation, to show that the limit holds under every interleaving.
\<close>

section \<open>The operations\<close>

definition cl_gauge :: "Cluster \<Rightarrow> string" where
  "cl_gauge c = ''cluster.'' @ c_Name c @ ''.inflight_requests''"

definition set_inflight :: "string \<Rightarrow> int \<Rightarrow> Cluster \<Rightarrow> Manager \<Rightarrow> Manager" where
  "set_inflight n v c cm = fmupd n (c\<lparr>inflight := v\<rparr>) cm"

definition TryAcquire :: "string \<Rightarrow> Manager \<times> registry \<Rightarrow> bool \<times> (Manager \<times> registry)" where
  "TryAcquire clusterName = (\<lambda>(cm, m).
     case fmlookup cm clusterName of
       None \<Rightarrow> (True, (cm, m))
     | Some c \<Rightarrow>
         (let v = wrap64 (inflight c + 1) in
          if cbMaxReqs c \<le> 0
          then (True, (set_inflight clusterName v c cm, SetGauge (cl_gauge c) v m))
          else if cbMaxReqs c < v
          then (False, (set_inflight clusterName (wrap64 (v - 1)) c cm, m))
          else (True, (set_inflight clusterName v c cm, SetGauge (cl_gauge c) v m))))"

definition Release :: "string \<Rightarrow> Manager \<times> registry \<Rightarrow> Manager \<times> registry" where
  "Release clusterName = (\<lambda>(cm, m).
     case fmlookup cm clusterName of
       None \<Rightarrow> (cm, m)
     | Some c \<Rightarrow>
         (let v = wrap64 (inflight c - 1);
              v = (if v < 0 then 0 else v)
          in (set_inflight clusterName v c cm, SetGauge (cl_gauge c) v m)))"

section \<open>Interleaved goroutines\<close>

text \<open>
  Where a goroutine is inside \<^verbatim>\<open>TryAcquire\<close> and \<^verbatim>\<open>Release\<close>: outside both and
  without a slot, after the addition that returned \<open>v\<close>, with a slot, or after the subtraction of
  \<^verbatim>\<open>Release\<close> that returned \<open>v\<close>.
\<close>

datatype pc = Idle | Added int | Holding | Dropped int

record breaker_sys =
  slots :: int
  cap :: int
  threads :: nat
  pcs :: "nat \<Rightarrow> pc"

inductive breaker_step :: "breaker_sys \<Rightarrow> breaker_sys \<Rightarrow> bool" where
  take_slot: "t < threads s \<Longrightarrow> pcs s t = Idle \<Longrightarrow> v = wrap64 (slots s + 1) \<Longrightarrow>
    breaker_step s (s\<lparr>slots := v, pcs := (pcs s)(t := Added v)\<rparr>)"
| grant: "t < threads s \<Longrightarrow> pcs s t = Added v \<Longrightarrow> \<not> cap s < v \<Longrightarrow>
    breaker_step s (s\<lparr>pcs := (pcs s)(t := Holding)\<rparr>)"
| deny: "t < threads s \<Longrightarrow> pcs s t = Added v \<Longrightarrow> cap s < v \<Longrightarrow>
    breaker_step s (s\<lparr>slots := wrap64 (slots s - 1), pcs := (pcs s)(t := Idle)\<rparr>)"
| drop_slot: "t < threads s \<Longrightarrow> pcs s t = Holding \<Longrightarrow> v = wrap64 (slots s - 1) \<Longrightarrow>
    breaker_step s (s\<lparr>slots := v, pcs := (pcs s)(t := Dropped v)\<rparr>)"
| finish: "t < threads s \<Longrightarrow> pcs s t = Dropped v \<Longrightarrow> \<not> v < 0 \<Longrightarrow>
    breaker_step s (s\<lparr>pcs := (pcs s)(t := Idle)\<rparr>)"
| clamp: "t < threads s \<Longrightarrow> pcs s t = Dropped v \<Longrightarrow> v < 0 \<Longrightarrow>
    breaker_step s (s\<lparr>slots := 0, pcs := (pcs s)(t := Idle)\<rparr>)"

definition breaker_init :: "breaker_sys \<Rightarrow> bool" where
  "breaker_init s \<longleftrightarrow> slots s = 0 \<and> 0 < cap s \<and> int (threads s) < 2 ^ 63 - 1 \<and> (\<forall>t. pcs s t = Idle)"

fun counted :: "pc \<Rightarrow> bool" where
  "counted (Added v) = True"
| "counted Holding = True"
| "counted _ = False"

fun entitled :: "int \<Rightarrow> pc \<Rightarrow> bool" where
  "entitled k (Added v) = (v \<le> k)"
| "entitled k Holding = True"
| "entitled k _ = False"

fun dropped_neg :: "pc \<Rightarrow> bool" where
  "dropped_neg (Dropped v) = (v < 0)"
| "dropped_neg _ = False"

definition breaker_inv :: "breaker_sys \<Rightarrow> bool" where
  "breaker_inv s \<longleftrightarrow>
     0 < cap s \<and> int (threads s) < 2 ^ 63 - 1 \<and>
     slots s = cnt (threads s) counted (pcs s) \<and>
     cnt (threads s) (entitled (cap s)) (pcs s) \<le> cap s \<and>
     cnt (threads s) dropped_neg (pcs s) = 0"

section \<open>The contract of the pool of slots\<close>

locale slot_pool =
  fixes acquire :: "'s \<Rightarrow> bool \<times> 's" and release :: "'s \<Rightarrow> 's"
    and held :: "'s \<Rightarrow> int" and limit :: "'s \<Rightarrow> int" and invar :: "'s \<Rightarrow> bool"
  assumes acquire_granted: "invar s \<Longrightarrow> fst (acquire s) \<longleftrightarrow> held s < limit s"
    and held_acquire: "invar s \<Longrightarrow> held (snd (acquire s)) = held s + of_bool (held s < limit s)"
    and limit_acquire: "limit (snd (acquire s)) = limit s"
    and invar_acquire: "invar s \<Longrightarrow> invar (snd (acquire s))"
    and held_release: "invar s \<Longrightarrow> held (release s) = max 0 (held s - 1)"
    and limit_release: "limit (release s) = limit s"
    and invar_release: "invar s \<Longrightarrow> invar (release s)"
    and held_bounds: "invar s \<Longrightarrow> 0 \<le> held s \<and> held s \<le> limit s"
begin

text \<open>A release gives the slot of a granted acquisition back.\<close>

lemma acquire_release: "invar s \<Longrightarrow> fst (acquire s) \<Longrightarrow> held (release (snd (acquire s))) = held s"
  using held_bounds [of s] by (simp add: acquire_granted held_acquire held_release invar_acquire)

lemma denied_unchanged: "invar s \<Longrightarrow> \<not> fst (acquire s) \<Longrightarrow> held (snd (acquire s)) = held s"
  by (simp add: acquire_granted held_acquire)

text \<open>After a denial, one release is enough for the next acquisition to be granted.\<close>

lemma release_unblocks:
  assumes "invar s" "0 < limit s"
  shows "fst (acquire (release s))"
proof -
  have "held (release s) < limit (release s)"
    using assms held_bounds [OF assms(1)] by (simp add: held_release limit_release)
  then show ?thesis using assms by (simp add: acquire_granted invar_release)
qed

text \<open>\<open>k\<close> further acquisitions succeed exactly while there is room for them.\<close>

primrec acquire_n :: "nat \<Rightarrow> 's \<Rightarrow> bool list \<times> 's" where
  "acquire_n 0 s = ([], s)"
| "acquire_n (Suc k) s =
     (case acquire s of (b, s') \<Rightarrow> case acquire_n k s' of (bs, s'') \<Rightarrow> (b # bs, s''))"

lemma acquire_n_grants:
  "invar s \<Longrightarrow> fst (acquire_n k s) = map (\<lambda>i. held s + int i < limit s) [0..<k] \<and>
     held (snd (acquire_n k s)) = min (limit s) (held s + int k)"
proof (induction k arbitrary: s)
  case 0
  then show ?case using held_bounds by simp
next
  case (Suc k)
  obtain b s' where a: "acquire s = (b, s')" by force
  have facts: "b \<longleftrightarrow> held s < limit s" "held s' = held s + of_bool (held s < limit s)"
    "limit s' = limit s" "invar s'"
    using acquire_granted [OF Suc.prems] held_acquire [OF Suc.prems] limit_acquire [of s]
      invar_acquire [OF Suc.prems] a by auto
  show ?case
    using Suc.IH [OF facts(4)] facts held_bounds [OF Suc.prems]
    by (auto simp: a case_prod_beta map_upt_Suc simp del: upt_Suc)
qed

end

definition cluster_inflight :: "string \<Rightarrow> Manager \<times> registry \<Rightarrow> int" where
  "cluster_inflight n s = (case fmlookup (fst s) n of None \<Rightarrow> 0 | Some c \<Rightarrow> inflight c)"

definition cluster_limit :: "string \<Rightarrow> Manager \<times> registry \<Rightarrow> int" where
  "cluster_limit n s = (case fmlookup (fst s) n of None \<Rightarrow> 0 | Some c \<Rightarrow> cbMaxReqs c)"

text \<open>A cluster with a limit that is below the largest int, and no more in flight than that.\<close>

definition limited :: "string \<Rightarrow> Manager \<times> registry \<Rightarrow> bool" where
  "limited n s \<longleftrightarrow> (\<exists>c. fmlookup (fst s) n = Some c \<and> 0 < cbMaxReqs c \<and> cbMaxReqs c < 2 ^ 63 - 1 \<and>
     0 \<le> inflight c \<and> inflight c \<le> cbMaxReqs c)"

lemmas pool_defs = cluster_inflight_def cluster_limit_def limited_def TryAcquire_def Release_def
  set_inflight_def

lemma inflight_inc:
  "0 \<le> inflight c \<Longrightarrow> inflight c \<le> cbMaxReqs c \<Longrightarrow> cbMaxReqs c < 2 ^ 63 - 1 \<Longrightarrow>
     wrap64 (inflight c + 1) = inflight c + 1 \<and> wrap64 (inflight c) = inflight c"
  by (auto simp: in_i64_def intro!: wrap64_id)

lemma inflight_dec:
  "0 \<le> inflight c \<Longrightarrow> inflight c \<le> cbMaxReqs c \<Longrightarrow> cbMaxReqs c < 2 ^ 63 - 1 \<Longrightarrow>
     wrap64 (inflight c - 1) = inflight c - 1"
  by (auto simp: in_i64_def intro!: wrap64_id)

interpretation cluster_pool: slot_pool "TryAcquire n" "Release n" "cluster_inflight n" "cluster_limit n" "limited n"
  for n
proof unfold_locales
  fix s :: "Manager \<times> registry"
  show "cluster_limit n (snd (TryAcquire n s)) = cluster_limit n s"
    and "cluster_limit n (Release n s) = cluster_limit n s"
    by (auto simp: pool_defs Let_def split: option.splits prod.splits)
  assume "limited n s"
  then obtain c where c: "fmlookup (fst s) n = Some c" "0 < cbMaxReqs c" "cbMaxReqs c < 2 ^ 63 - 1"
    "0 \<le> inflight c" "inflight c \<le> cbMaxReqs c"
    by (auto simp: limited_def)
  note w = inflight_inc [OF c(4,5,3)] inflight_dec [OF c(4,5,3)]
  show "fst (TryAcquire n s) \<longleftrightarrow> cluster_inflight n s < cluster_limit n s"
    "cluster_inflight n (snd (TryAcquire n s)) =
       cluster_inflight n s + of_bool (cluster_inflight n s < cluster_limit n s)"
    "limited n (snd (TryAcquire n s))"
    "cluster_inflight n (Release n s) = max 0 (cluster_inflight n s - 1)"
    "limited n (Release n s)"
    "0 \<le> cluster_inflight n s \<and> cluster_inflight n s \<le> cluster_limit n s"
    using c w by (auto simp: pool_defs Let_def split: prod.splits if_splits)
qed

lemma wf_set_inflight:
  "wf_manager cm \<Longrightarrow> fmlookup cm n = Some c \<Longrightarrow> 0 \<le> v \<Longrightarrow> wf_manager (set_inflight n v c cm)"
proof -
  assume *: "wf_manager cm" "fmlookup cm n = Some c" "0 \<le> v"
  have "wf_ep (c\<lparr>inflight := v\<rparr>) = wf_ep c" by (simp add: fun_eq_iff wf_ep_def)
  with * have "wf_cluster (c\<lparr>inflight := v\<rparr>)" by (auto simp: wf_manager_def wf_cluster_def)
  with * show ?thesis by (auto simp: wf_manager_def set_inflight_def)
qed

lemma wf_Release: "wf_manager cm \<Longrightarrow> wf_manager (fst (Release n (cm, m)))"
  by (auto simp: Release_def Let_def intro!: wf_set_inflight split: option.splits)

section \<open>The limit under every interleaving\<close>

lemma entitled_counted: "entitled k p \<Longrightarrow> counted p"
  by (cases p) auto

lemma breaker_inv_init: "breaker_init s \<Longrightarrow> breaker_inv s"
  by (simp add: breaker_init_def breaker_inv_def cnt_0)

lemma slots_range:
  assumes "breaker_inv s"
  shows "wrap64 (slots s + 1) = slots s + 1" and "0 < slots s \<Longrightarrow> wrap64 (slots s - 1) = slots s - 1"
proof -
  have "0 \<le> slots s" "slots s \<le> int (threads s)" "int (threads s) < 2 ^ 63 - 1"
    using assms cnt_le [of "threads s" counted "pcs s"] by (auto simp: breaker_inv_def)
  then show "wrap64 (slots s + 1) = slots s + 1" "0 < slots s \<Longrightarrow> wrap64 (slots s - 1) = slots s - 1"
    by (auto simp: in_i64_def intro!: wrap64_id)
qed

lemma breaker_inv_step: "breaker_step s s' \<Longrightarrow> breaker_inv s \<Longrightarrow> breaker_inv s'"
proof (induction rule: breaker_step.induct)
  case (take_slot t s v)
  then have v: "v = slots s + 1" by (simp add: slots_range)
  have "cnt (threads s) (entitled (cap s)) (pcs s) \<le> slots s"
    using take_slot cnt_mono [OF entitled_counted] by (auto simp: breaker_inv_def)
  with take_slot v show ?case by (simp add: breaker_inv_def cnt_upd)
next
  case (deny t s v)
  then have "0 < slots s"
    using cnt_pos [of t "threads s" counted "pcs s"] by (simp add: breaker_inv_def)
  with deny slots_range(2) [of s] show ?case by (simp add: breaker_inv_def cnt_upd)
next
  case (drop_slot t s v)
  then have "0 < slots s"
    using cnt_pos [of t "threads s" counted "pcs s"] by (simp add: breaker_inv_def)
  with drop_slot slots_range(2) [of s] show ?case by (simp add: breaker_inv_def cnt_upd)
next
  case (clamp t s v)
  then show ?case
    using cnt_pos [of t "threads s" dropped_neg "pcs s"] by (simp add: breaker_inv_def)
qed (simp_all add: breaker_inv_def cnt_upd)

interpretation breaker: inductive_invariant breaker_init breaker_step breaker_inv
  by unfold_locales (auto intro: breaker_inv_init breaker_inv_step)

lemma counted_split:
  "cnt n counted f = cnt n (\<lambda>p. p = Holding) f + cnt n (\<lambda>p. \<exists>v. p = Added v) f"
proof -
  have "{i. i < n \<and> counted (f i)} = {i. i < n \<and> f i = Holding} \<union> {i. i < n \<and> (\<exists>v. f i = Added v)}"
    by (auto elim: counted.elims)
  moreover have "card ({i. i < n \<and> f i = Holding} \<union> {i. i < n \<and> (\<exists>v. f i = Added v)}) =
      card {i. i < n \<and> f i = Holding} + card {i. i < n \<and> (\<exists>v. f i = Added v)}"
    by (rule card_Un_disjoint) auto
  ultimately show ?thesis by (simp add: cnt_def)
qed

lemma breaker_safe:
  assumes "reach breaker_init breaker_step s"
  shows "cnt (threads s) (\<lambda>p. p = Holding) (pcs s) \<le> cap s"
    and "slots s = cnt (threads s) (\<lambda>p. p = Holding) (pcs s) + cnt (threads s) (\<lambda>p. \<exists>v. p = Added v) (pcs s)"
proof -
  have inv: "breaker_inv s" using assms by (rule breaker.reach_inv)
  have "cnt (threads s) (\<lambda>p. p = Holding) (pcs s) \<le> cnt (threads s) (entitled (cap s)) (pcs s)"
    by (rule cnt_mono) auto
  with inv show "cnt (threads s) (\<lambda>p. p = Holding) (pcs s) \<le> cap s" by (simp add: breaker_inv_def)
  show "slots s = cnt (threads s) (\<lambda>p. p = Holding) (pcs s) + cnt (threads s) (\<lambda>p. \<exists>v. p = Added v) (pcs s)"
    using inv by (simp add: breaker_inv_def counted_split)
qed

end
