(* ===== verification/GP_Discovery.thy ===== *)
theory GP_Discovery
  imports GP_Health
begin

text \<open>
  Background work of a cluster (\<^verbatim>\<open>manager.go\<close>): starting and stopping health checks, the
  start of the manager, and strict-DNS discovery. A goroutine is represented by what it does at each
  of its ticks: \<open>runHealthCheck\<close> and \<open>resolveLoop\<close> take the list of probes and of DNS answers they
  see until their context is cancelled. The answer of a lookup is an argument (\<open>None\<close> for an
  error).

  \<open>resolveOnce\<close> takes the lock twice: it stores the answer and computes the effective set
  (\<open>resolve_commit\<close>), releases the lock, and then applies that set (\<open>applyEndpointSet\<close>).
\<close>

section \<open>Health-check goroutines\<close>

definition startHealthCheck :: "string \<Rightarrow> Cluster \<Rightarrow> Cluster" where
  "startHealthCheck addr c =
     (if hc c = None then c
      else if addr \<in> hcCancel c then c
      else c\<lparr>hcCancel := insert addr (hcCancel c), hcRunning := hcRunning c @ [addr]\<rparr>)"

definition stopHealthCheck :: "string \<Rightarrow> Cluster \<Rightarrow> Cluster" where
  "stopHealthCheck addr c =
     (if addr \<in> hcCancel c
      then c\<lparr>hcCancel := hcCancel c - {addr}, hcRunning := remove1 addr (hcRunning c)\<rparr>
      else c)"

text \<open>One probe per tick; \<^verbatim>\<open>time.NewTicker\<close> panics on an interval that is not positive.\<close>

definition runHealthCheck :: "string \<Rightarrow> (bool \<Rightarrow> probe) list \<Rightarrow> Cluster \<Rightarrow> Cluster go" where
  "runHealthCheck addr probes c =
     (case hc c of
        None \<Rightarrow> Panic ''nil pointer dereference''
      | Some h \<Rightarrow>
          if dur_of (hc_IntervalMillis h) Millisecond \<le> 0
          then Panic ''non-positive interval for NewTicker''
          else probe_run addr c (map (probe_healthy h) probes))"

section \<open>Applying a set of endpoints\<close>

definition add_started :: "Cluster \<times> registry \<Rightarrow> string \<Rightarrow> Cluster \<times> registry" where
  "add_started = (\<lambda>(c, m) addr.
     (if hc c \<noteq> None \<and> baseCtx c \<noteq> None then startHealthCheck addr c else c,
      Inc ''endpoints_added_total'' m))"

definition remove_stopped :: "Cluster \<times> registry \<Rightarrow> string \<Rightarrow> Cluster \<times> registry" where
  "remove_stopped = (\<lambda>(c, m) addr.
     (stopHealthCheck addr c,
      Inc ''endpoints_removed_total'' (SetGauge (ep_gauge c addr) 0 m)))"

definition applyEndpointSet :: "key_order \<Rightarrow> string set \<Rightarrow> Cluster \<times> registry \<Rightarrow> Cluster \<times> registry" where
  "applyEndpointSet rng newSet = (\<lambda>(c, m).
     let curSet = set (Endpoints c);
         toAdd = filter (\<lambda>a. a \<notin> curSet) (rng 0 newSet);
         toRemove = filter (\<lambda>a. a \<notin> newSet) (rng 1 curSet)
     in if toAdd = [] \<and> toRemove = [] then (c, m)
        else
          (let c = c\<lparr>Endpoints := rng 2 newSet\<rparr>;
               c = foldl (\<lambda>c a. ensure_state a c) c toAdd;
               s = foldl add_started (c, m) toAdd;
               (c, m) = foldl remove_stopped s toRemove
           in (c, SetGauge (''cluster.'' @ c_Name c @ ''.endpoints'') (int (card newSet)) m)))"

section \<open>Strict-DNS discovery\<close>

definition resolved_addrs :: "string \<Rightarrow> IP list \<Rightarrow> string set" where
  "resolved_addrs port ips = set (map (\<lambda>ip. JoinHostPort (IP_String ip) port) ips)"

definition effective :: "Cluster \<Rightarrow> string set" where
  "effective c = staticSeeds c \<union> \<Union> (fmran' (resolvedBySeed c))"

definition resolve_commit :: "string \<Rightarrow> string set \<Rightarrow> Cluster \<Rightarrow> Cluster \<times> string set" where
  "resolve_commit seed resolved c =
     (let c = c\<lparr>resolvedBySeed := fmupd seed resolved (resolvedBySeed c)\<rparr> in (c, effective c))"

definition resolveOnce :: "key_order \<Rightarrow> IP list option \<Rightarrow> string \<Rightarrow> string \<Rightarrow> Cluster \<times> registry
    \<Rightarrow> Cluster \<times> registry" where
  "resolveOnce rng answer seed port = (\<lambda>(c, m).
     let m = Inc ''dns_resolve_total'' m in
     case answer of
       None \<Rightarrow> (c, Inc ''dns_resolve_errors_total'' m)
     | Some ips \<Rightarrow>
         (case resolve_commit seed (resolved_addrs port ips) c of
            (c, eff) \<Rightarrow> applyEndpointSet rng eff (c, m)))"

definition refresh_interval :: "Cluster \<Rightarrow> Duration" where
  "refresh_interval c = (if dnsRefresh c \<le> 0 then dur_of 5 Second else dnsRefresh c)"

text \<open>The answers of the immediate lookup and of one lookup per tick.\<close>

definition resolveLoop :: "key_order \<Rightarrow> IP list option list \<Rightarrow> string \<Rightarrow> string \<Rightarrow> Cluster \<times> registry
    \<Rightarrow> Cluster \<times> registry" where
  "resolveLoop rng answers seed port s =
     foldl (\<lambda>s answer. resolveOnce rng answer seed port s) s answers"

text \<open>The resolver goroutines: one (seed, host, port) for each seed whose host is not an IP.\<close>

definition startDiscovery :: "Cluster \<Rightarrow> (string \<times> string \<times> string) list" where
  "startDiscovery c =
     concat (map (\<lambda>seed.
       case SplitHostPort seed of
         Inl _ \<Rightarrow> []
       | Inr (host, port) \<Rightarrow> (case ParseIP host of Some _ \<Rightarrow> [] | None \<Rightarrow> [(seed, host, port)])) (seeds c))"

section \<open>Starting the manager\<close>

definition start_cluster :: "nat \<Rightarrow> Cluster \<Rightarrow> Cluster \<times> (string \<times> string \<times> string) list" where
  "start_cluster ctx c =
     (let c = c\<lparr>baseCtx := Some ctx\<rparr>;
          c = (if hc c \<noteq> None
               then foldl (\<lambda>c ep. startHealthCheck ep c) c (snapshotEndpoints c) else c)
      in (c, if discovery c = ''strict_dns'' then startDiscovery c else []))"

definition start_one :: "nat \<Rightarrow> Manager \<times> (string \<times> (string \<times> string \<times> string)) list \<Rightarrow> string
    \<Rightarrow> Manager \<times> (string \<times> (string \<times> string \<times> string)) list" where
  "start_one ctx = (\<lambda>(cm, spawned) n.
     case fmlookup cm n of
       None \<Rightarrow> (cm, spawned)
     | Some c \<Rightarrow>
         (case start_cluster ctx c of (c', rs) \<Rightarrow> (fmupd n c' cm, spawned @ map (Pair n) rs)))"

definition Start :: "key_order \<Rightarrow> nat \<Rightarrow> Manager \<Rightarrow> Manager \<times> (string \<times> (string \<times> string \<times> string)) list" where
  "Start rng ctx cm = foldl (start_one ctx) (cm, []) (rng 0 (fmdom' cm))"

section \<open>What the steps keep\<close>

lemma start_one_dom: "fmdom' (fst (start_one ctx (cm, spawned) n)) = fmdom' cm"
  by (auto simp: start_one_def fmlookup_dom'_iff insert_absorb split: option.splits prod.splits)

lemma Start_dom: "fmdom' (fst (Start rng ctx cm)) = fmdom' cm"
proof -
  have "fmdom' (fst (foldl (start_one ctx) x ns)) = fmdom' (fst x)" for x ns
    by (induction ns arbitrary: x) (auto simp: start_one_dom)
  then show ?thesis by (simp add: Start_def)
qed

lemma ensure_state_lookup [simp]:
  "fmlookup (state (ensure_state a c)) b =
     (if b = a \<and> fmlookup (state c) a = None then Some new_epState else fmlookup (state c) b)"
  by (auto simp: ensure_state_def split: option.splits)

lemma ensure_state_frame [simp]:
  "Endpoints (ensure_state a c) = Endpoints c" "outlier (ensure_state a c) = outlier c"
  "hc (ensure_state a c) = hc c" "lbPolicy (ensure_state a c) = lbPolicy c"
  "inflight (ensure_state a c) = inflight c" "hcRunning (ensure_state a c) = hcRunning c"
  "hcCancel (ensure_state a c) = hcCancel c" "c_Name (ensure_state a c) = c_Name c"
  "baseCtx (ensure_state a c) = baseCtx c" "staticSeeds (ensure_state a c) = staticSeeds c"
  "resolvedBySeed (ensure_state a c) = resolvedBySeed c"
  by (simp_all add: ensure_state_def split: option.splits)

text \<open>Two clusters that differ in their endpoints, records and health checks only.\<close>

definition same_config :: "Cluster \<Rightarrow> Cluster \<Rightarrow> bool" where
  "same_config c c' \<longleftrightarrow>
     outlier c' = outlier c \<and> hc c' = hc c \<and> lbPolicy c' = lbPolicy c \<and> inflight c' = inflight c \<and>
     c_Name c' = c_Name c \<and> baseCtx c' = baseCtx c \<and> staticSeeds c' = staticSeeds c \<and>
     resolvedBySeed c' = resolvedBySeed c"

lemma start_frame [simp]:
  "same_config c (startHealthCheck a c)" "state (startHealthCheck a c) = state c"
  "Endpoints (startHealthCheck a c) = Endpoints c"
  by (simp_all add: startHealthCheck_def same_config_def)

lemma stop_frame [simp]:
  "same_config c (stopHealthCheck a c)" "state (stopHealthCheck a c) = state c"
  "Endpoints (stopHealthCheck a c) = Endpoints c"
  by (simp_all add: stopHealthCheck_def same_config_def)

lemma same_config_trans: "same_config c c' \<Longrightarrow> same_config c' c'' \<Longrightarrow> same_config c c''"
  by (simp add: same_config_def)

text \<open>The goroutines that run are those that can be cancelled, at most one for each address.\<close>

definition hc_ok :: "Cluster \<Rightarrow> bool" where
  "hc_ok c \<longleftrightarrow> set (hcRunning c) = hcCancel c \<and> distinct (hcRunning c)"

lemma hc_ok_start: "hc_ok c \<Longrightarrow> hc_ok (startHealthCheck a c)"
  by (auto simp: hc_ok_def startHealthCheck_def)

lemma hc_ok_stop: "hc_ok c \<Longrightarrow> hc_ok (stopHealthCheck a c)"
  by (auto simp: hc_ok_def stopHealthCheck_def set_remove1_eq)

lemma hcCancel_start: "hc c \<noteq> None \<Longrightarrow> hcCancel (startHealthCheck a c) = insert a (hcCancel c)"
  by (auto simp: startHealthCheck_def)

lemma hcCancel_stop: "hcCancel (stopHealthCheck a c) = hcCancel c - {a}"
  by (auto simp: stopHealthCheck_def)

lemma ensure_all:
  "same_config c (foldl (\<lambda>c a. ensure_state a c) c as) \<and>
   Endpoints (foldl (\<lambda>c a. ensure_state a c) c as) = Endpoints c \<and>
   hcRunning (foldl (\<lambda>c a. ensure_state a c) c as) = hcRunning c \<and>
   hcCancel (foldl (\<lambda>c a. ensure_state a c) c as) = hcCancel c \<and>
   (\<forall>b. fmlookup (state (foldl (\<lambda>c a. ensure_state a c) c as)) b =
     (if b \<in> set as \<and> fmlookup (state c) b = None then Some new_epState else fmlookup (state c) b))"
  by (induction as arbitrary: c) (auto simp: same_config_def)

lemma add_started_all:
  "same_config (fst s) (fst (foldl add_started s as)) \<and>
   Endpoints (fst (foldl add_started s as)) = Endpoints (fst s) \<and>
   state (fst (foldl add_started s as)) = state (fst s) \<and>
   (hc_ok (fst s) \<longrightarrow> hc_ok (fst (foldl add_started s as))) \<and>
   hcCancel (fst (foldl add_started s as)) =
     (if hc (fst s) \<noteq> None \<and> baseCtx (fst s) \<noteq> None then hcCancel (fst s) \<union> set as else hcCancel (fst s))"
proof (induction as arbitrary: s)
  case Nil
  then show ?case by (simp add: same_config_def)
next
  case (Cons a as)
  have "same_config (fst s) (fst (add_started s a)) \<and> Endpoints (fst (add_started s a)) = Endpoints (fst s) \<and>
      state (fst (add_started s a)) = state (fst s) \<and> (hc_ok (fst s) \<longrightarrow> hc_ok (fst (add_started s a))) \<and>
      hcCancel (fst (add_started s a)) =
        (if hc (fst s) \<noteq> None \<and> baseCtx (fst s) \<noteq> None then insert a (hcCancel (fst s)) else hcCancel (fst s))"
    by (cases s) (simp add: add_started_def hc_ok_start hcCancel_start same_config_def [of "fst s" "fst s"],
        simp add: same_config_def)
  with Cons.IH [of "add_started s a"] show ?case
    by (auto simp: same_config_def)
qed

lemma remove_stopped_all:
  "same_config (fst s) (fst (foldl remove_stopped s as)) \<and>
   Endpoints (fst (foldl remove_stopped s as)) = Endpoints (fst s) \<and>
   state (fst (foldl remove_stopped s as)) = state (fst s) \<and>
   (hc_ok (fst s) \<longrightarrow> hc_ok (fst (foldl remove_stopped s as))) \<and>
   hcCancel (fst (foldl remove_stopped s as)) = hcCancel (fst s) - set as"
proof (induction as arbitrary: s)
  case Nil
  then show ?case by (simp add: same_config_def)
next
  case (Cons a as)
  have "same_config (fst s) (fst (remove_stopped s a)) \<and> Endpoints (fst (remove_stopped s a)) = Endpoints (fst s) \<and>
      state (fst (remove_stopped s a)) = state (fst s) \<and> (hc_ok (fst s) \<longrightarrow> hc_ok (fst (remove_stopped s a))) \<and>
      hcCancel (fst (remove_stopped s a)) = hcCancel (fst s) - {a}"
    by (cases s) (simp add: remove_stopped_def hc_ok_stop hcCancel_stop)
  with Cons.IH [of "remove_stopped s a"] show ?case
    by (auto simp: same_config_def)
qed

section \<open>Effect of applying a set\<close>

lemma apply_effect:
  assumes rng: "map_range rng" and fin: "finite newSet"
    and run: "applyEndpointSet rng newSet (c, m) = (c', m')"
  shows "set (Endpoints c') = newSet \<and> same_config c c' \<and>
    (\<forall>a. fmlookup (state c') a =
      (if a \<in> newSet - set (Endpoints c) \<and> fmlookup (state c) a = None then Some new_epState
       else fmlookup (state c) a)) \<and>
    (hc_ok c \<longrightarrow> hc_ok c') \<and>
    hcCancel c' =
      (if hc c \<noteq> None \<and> baseCtx c \<noteq> None then hcCancel c \<union> (newSet - set (Endpoints c)) else hcCancel c)
      - (set (Endpoints c) - newSet)"
proof -
  define toAdd where "toAdd = filter (\<lambda>a. a \<notin> set (Endpoints c)) (rng 0 newSet)"
  define toRemove where "toRemove = filter (\<lambda>a. a \<notin> newSet) (rng 1 (set (Endpoints c)))"
  have sets: "set toAdd = newSet - set (Endpoints c)" "set toRemove = set (Endpoints c) - newSet"
    "set (rng 2 newSet) = newSet"
    using map_range.rng_set [OF rng] fin by (auto simp: toAdd_def toRemove_def)
  show ?thesis
  proof (cases "toAdd = [] \<and> toRemove = []")
    case True
    then have "c' = c" using run by (simp add: applyEndpointSet_def Let_def toAdd_def toRemove_def)
    moreover have "newSet = set (Endpoints c)" using True sets by auto
    ultimately show ?thesis by (simp add: same_config_def)
  next
    case False
    define c1 where "c1 = foldl (\<lambda>c a. ensure_state a c) (c\<lparr>Endpoints := rng 2 newSet\<rparr>) toAdd"
    define s2 where "s2 = foldl add_started (c1, m) toAdd"
    have c': "c' = fst (foldl remove_stopped s2 toRemove)"
      using run False unfolding applyEndpointSet_def Let_def s2_def c1_def toAdd_def toRemove_def
      by (auto simp: case_prod_beta)
    have "same_config (c\<lparr>Endpoints := rng 2 newSet\<rparr>) c1" "same_config c1 (fst s2)" "same_config (fst s2) c'"
      using ensure_all [of "c\<lparr>Endpoints := rng 2 newSet\<rparr>" toAdd] add_started_all [of "(c1, m)" toAdd]
        remove_stopped_all [of s2 toRemove] by (simp_all add: c1_def s2_def c')
    then have "same_config c c'" by (simp add: same_config_def)
    then show ?thesis
      using ensure_all [of "c\<lparr>Endpoints := rng 2 newSet\<rparr>" toAdd] add_started_all [of "(c1, m)" toAdd]
        remove_stopped_all [of s2 toRemove] sets
      unfolding c' by (auto simp: c1_def [symmetric] s2_def [symmetric] same_config_def hc_ok_def)
  qed
qed

lemmas apply_effect_parts =
  apply_effect [THEN conjunct1] apply_effect [THEN conjunct2, THEN conjunct1]
  apply_effect [THEN conjunct2, THEN conjunct2, THEN conjunct1]
  apply_effect [THEN conjunct2, THEN conjunct2, THEN conjunct2, THEN conjunct1, rule_format]
  apply_effect [THEN conjunct2, THEN conjunct2, THEN conjunct2, THEN conjunct2]

lemma wf_ep_same_config: "same_config c c' \<Longrightarrow> wf_ep c' st = wf_ep c st"
  by (simp add: wf_ep_def same_config_def)

lemma wf_applyEndpointSet:
  assumes rng: "map_range rng" and fin: "finite newSet" and wf: "wf_cluster c"
    and run: "applyEndpointSet rng newSet (c, m) = (c', m')"
  shows "wf_cluster c'"
proof -
  note eff = apply_effect [OF rng fin run]
  have ep: "wf_ep c' st" if "fmlookup (state c') a = Some st" for a st
    using that eff wf wf_ep_new [of c]
    by (auto simp: wf_ep_same_config [of c c'] wf_cluster_def split: if_splits)
  have "fmlookup (state c') a \<noteq> None" if "a \<in> newSet" for a
    using that eff wf by (auto simp: wf_cluster_def)
  with ep eff wf show ?thesis
    by (auto simp: wf_cluster_def same_config_def hc_ok_def)
qed

section \<open>Health checks track the endpoints\<close>

text \<open>Once the manager is started, the addresses under check are exactly the endpoints.\<close>

definition checks_match :: "Cluster \<Rightarrow> bool" where
  "checks_match c \<longleftrightarrow> (hc c \<noteq> None \<and> baseCtx c \<noteq> None \<longrightarrow> hcCancel c = set (Endpoints c))"

lemma start_all:
  "same_config c (foldl (\<lambda>c ep. startHealthCheck ep c) c eps) \<and>
   state (foldl (\<lambda>c ep. startHealthCheck ep c) c eps) = state c \<and>
   Endpoints (foldl (\<lambda>c ep. startHealthCheck ep c) c eps) = Endpoints c \<and>
   (hc_ok c \<longrightarrow> hc_ok (foldl (\<lambda>c ep. startHealthCheck ep c) c eps)) \<and>
   (hc c \<noteq> None \<longrightarrow> hcCancel (foldl (\<lambda>c ep. startHealthCheck ep c) c eps) = hcCancel c \<union> set eps)"
proof (induction eps arbitrary: c)
  case Nil
  then show ?case by (simp add: same_config_def)
next
  case (Cons a as)
  have "same_config c (startHealthCheck a c)" "state (startHealthCheck a c) = state c"
    "Endpoints (startHealthCheck a c) = Endpoints c" by simp_all
  with Cons.IH [of "startHealthCheck a c"] show ?case
    by (auto simp: hc_ok_start hcCancel_start same_config_def)
qed

lemma start_cluster_matches:
  assumes "hcCancel c = {}"
  shows "checks_match (fst (start_cluster ctx c))"
proof -
  have "checks_match (foldl (\<lambda>c ep. startHealthCheck ep c) (c\<lparr>baseCtx := Some ctx\<rparr>) (Endpoints c))"
    if "hc c \<noteq> None"
    using start_all [of "c\<lparr>baseCtx := Some ctx\<rparr>" "Endpoints c"] that assms by (simp add: checks_match_def)
  then show ?thesis
    by (simp add: start_cluster_def Let_def snapshotEndpoints_def checks_match_def [of "c\<lparr>baseCtx := _\<rparr>"])
qed

lemma apply_keeps_match:
  assumes rng: "map_range rng" and fin: "finite newSet" and match: "checks_match c"
    and run: "applyEndpointSet rng newSet (c, m) = (c', m')"
  shows "checks_match c'"
  using apply_effect [OF rng fin run] match by (auto simp: checks_match_def same_config_def)

section \<open>Discovery\<close>

definition finite_seeds :: "Cluster \<Rightarrow> bool" where
  "finite_seeds c \<longleftrightarrow> finite (staticSeeds c) \<and> (\<forall>S \<in> fmran' (resolvedBySeed c). finite S)"

lemma finite_effective: "finite_seeds c \<Longrightarrow> finite (effective c)"
  unfolding finite_seeds_def effective_def by (auto simp: fmran'_alt_def)

lemma fmran'_fmupd_subset: "S \<in> fmran' (fmupd k v m) \<Longrightarrow> S = v \<or> S \<in> fmran' m"
  by (auto elim!: fmran'E split: if_splits intro: fmran'I)

lemma commit_finite: "finite_seeds c \<Longrightarrow> finite R \<Longrightarrow> finite_seeds (fst (resolve_commit seed R c))"
  by (auto simp: finite_seeds_def resolve_commit_def Let_def dest: fmran'_fmupd_subset)

lemma finite_resolved [simp]: "finite (resolved_addrs port ips)"
  by (simp add: resolved_addrs_def)

lemma resolveOnce_error:
  "resolveOnce rng None seed port (c, m) =
     (c, Inc ''dns_resolve_errors_total'' (Inc ''dns_resolve_total'' m))"
  by (simp add: resolveOnce_def)

lemma resolveOnce_success:
  assumes rng: "map_range rng" and fin: "finite_seeds c"
    and run: "resolveOnce rng (Some ips) seed port (c, m) = (c', m')"
  shows "set (Endpoints c') = effective c' \<and> staticSeeds c' = staticSeeds c \<and>
    fmlookup (resolvedBySeed c') seed = Some (resolved_addrs port ips) \<and>
    (\<forall>s. s \<noteq> seed \<longrightarrow> fmlookup (resolvedBySeed c') s = fmlookup (resolvedBySeed c) s) \<and>
    (\<forall>a st. fmlookup (state c) a = Some st \<longrightarrow> fmlookup (state c') a = Some st) \<and> finite_seeds c'"
proof -
  let ?R = "resolved_addrs port ips"
  let ?c = "fst (resolve_commit seed ?R c)"
  have c: "?c = c\<lparr>resolvedBySeed := fmupd seed ?R (resolvedBySeed c)\<rparr>" "snd (resolve_commit seed ?R c) = effective ?c"
    by (simp_all add: resolve_commit_def Let_def)
  have fin': "finite_seeds ?c" using fin by (simp add: commit_finite)
  have app: "applyEndpointSet rng (effective ?c) (?c, Inc ''dns_resolve_total'' m) = (c', m')"
    using run by (simp add: resolveOnce_def Let_def case_prod_beta c(2))
  note eff = apply_effect [OF rng finite_effective [OF fin'] app]
  have same: "staticSeeds c' = staticSeeds ?c" "resolvedBySeed c' = resolvedBySeed ?c"
    using eff by (auto simp: same_config_def)
  then have "effective c' = effective ?c" "finite_seeds c' = finite_seeds ?c"
    by (simp_all add: effective_def finite_seeds_def)
  with eff same fin' show ?thesis by (auto simp: c(1))
qed

text \<open>Every round of a resolver leaves the endpoints equal to the effective set, once a lookup succeeded.\<close>

lemma resolveLoop_tracks:
  assumes rng: "map_range rng" and fin: "finite_seeds c" and ok: "set (Endpoints c) = effective c"
  shows "set (Endpoints (fst (resolveLoop rng answers seed port (c, m)))) =
      effective (fst (resolveLoop rng answers seed port (c, m))) \<and>
    finite_seeds (fst (resolveLoop rng answers seed port (c, m)))"
  using fin ok
proof (induction answers arbitrary: c m)
  case Nil
  then show ?case by (simp add: resolveLoop_def)
next
  case (Cons ans answers)
  obtain c' m' where step: "resolveOnce rng ans seed port (c, m) = (c', m')" by force
  have "finite_seeds c' \<and> set (Endpoints c') = effective c'"
  proof (cases ans)
    case None
    with step Cons.prems show ?thesis by (auto simp: resolveOnce_error)
  next
    case (Some ips)
    with step resolveOnce_success [OF rng Cons.prems(1)] show ?thesis by blast
  qed
  with Cons.IH [of c' m'] step show ?case by (simp add: resolveLoop_def)
qed

end
