(* ===== verification/GP_Manager.thy ===== *)
theory GP_Manager
  imports GP_Balance GP_Breaker GP_Discovery
begin

text \<open>
  The cluster manager as a whole: the transition system \<open>manager_step\<close> whose steps are the
  operations of \<^verbatim>\<open>manager.go\<close> that requests, health-check goroutines and resolvers run
  in any order. A resolver takes two steps, because \<^verbatim>\<open>resolveOnce\<close> releases the lock
  between computing the effective set and applying it; a set that is computed and not yet applied is
  in \<open>pending\<close>. The metrics are shared with the other components, which may change them at any
  moment (\<open>metric\<close>). Every reachable state is well formed, whatever the interleaving.
\<close>

section \<open>The transition system\<close>

record msys =
  mgr :: Manager
  reg :: registry
  pending :: "(string \<times> string set) list"

text \<open>Fewer requests in flight than the largest int.\<close>

definition room :: "Manager \<Rightarrow> string \<Rightarrow> string \<Rightarrow> bool" where
  "room cm n addr =
     (case fmlookup cm n of
        None \<Rightarrow> True
      | Some c \<Rightarrow> inflight c < 2 ^ 63 - 1 \<and>
          (case fmlookup (state c) addr of None \<Rightarrow> True | Some st \<Rightarrow> inFlight st < 2 ^ 63 - 1))"

inductive manager_step :: "msys \<Rightarrow> msys \<Rightarrow> bool" where
  pick: "Pick rnd now n (mgr s) = Ret (r, cm) \<Longrightarrow> manager_step s (s\<lparr>mgr := cm\<rparr>)"
| failure: "ReportFailure n addr now (mgr s, reg s) = (cm, m) \<Longrightarrow>
    manager_step s (s\<lparr>mgr := cm, reg := m\<rparr>)"
| success: "manager_step s (s\<lparr>mgr := ReportSuccess n addr (mgr s)\<rparr>)"
| inc: "room (mgr s) n addr \<Longrightarrow> IncEndpointInFlight n addr (mgr s, reg s) = (cm, m) \<Longrightarrow>
    manager_step s (s\<lparr>mgr := cm, reg := m\<rparr>)"
| dec: "DecEndpointInFlight n addr (mgr s, reg s) = (cm, m) \<Longrightarrow>
    manager_step s (s\<lparr>mgr := cm, reg := m\<rparr>)"
| acquire: "room (mgr s) n addr \<Longrightarrow> TryAcquire n (mgr s, reg s) = (ok, (cm, m)) \<Longrightarrow>
    manager_step s (s\<lparr>mgr := cm, reg := m\<rparr>)"
| release: "Release n (mgr s, reg s) = (cm, m) \<Longrightarrow> manager_step s (s\<lparr>mgr := cm, reg := m\<rparr>)"
| health: "fmlookup (mgr s) n = Some c \<Longrightarrow> addr \<in> set (hcRunning c) \<Longrightarrow>
    updateActiveHealth addr healthy c = Ret c' \<Longrightarrow> manager_step s (s\<lparr>mgr := fmupd n c' (mgr s)\<rparr>)"
| dns_error: "fmlookup (mgr s) n = Some c \<Longrightarrow> resolveOnce rng None seed port (c, reg s) = (c', m) \<Longrightarrow>
    manager_step s (s\<lparr>mgr := fmupd n c' (mgr s), reg := m\<rparr>)"
| commit: "fmlookup (mgr s) n = Some c \<Longrightarrow> (seed, host, port) \<in> set (startDiscovery c) \<Longrightarrow>
    resolve_commit seed (resolved_addrs port ips) c = (c', eff) \<Longrightarrow>
    manager_step s (s\<lparr>mgr := fmupd n c' (mgr s), reg := Inc ''dns_resolve_total'' (reg s),
      pending := pending s @ [(n, eff)]\<rparr>)"
| apply_set: "pending s = before @ (n, eff) # after \<Longrightarrow> fmlookup (mgr s) n = Some c \<Longrightarrow> map_range rng \<Longrightarrow>
    applyEndpointSet rng eff (c, reg s) = (c', m) \<Longrightarrow>
    manager_step s (s\<lparr>mgr := fmupd n c' (mgr s), reg := m, pending := before @ after\<rparr>)"
| metric: "manager_step s (s\<lparr>reg := m\<rparr>)"

definition manager_init :: "msys \<Rightarrow> bool" where
  "manager_init s \<longleftrightarrow>
     pending s = [] \<and>
     (\<exists>specs cm rng ctx spawned. (\<forall>sp \<in> set specs. i64_spec sp) \<and> NewManager specs = Inr cm \<and>
        Start rng ctx cm = (mgr s, spawned))"

definition manager_inv :: "msys \<Rightarrow> bool" where
  "manager_inv s \<longleftrightarrow>
     wf_manager (mgr s) \<and> (\<forall>n c. fmlookup (mgr s) n = Some c \<longrightarrow> finite_seeds c) \<and>
     (\<forall>(n, eff) \<in> set (pending s). finite eff)"

section \<open>The invariant holds initially\<close>

lemma seed_endpoint_finite: "finite_seeds c \<Longrightarrow> finite_seeds (seed_endpoint c e)"
  by (auto simp: seed_endpoint_def add_endpoint_def ensure_state_def finite_seeds_def Let_def
      split: sum.splits option.splits)

lemma finite_seeds_new: "finite_seeds (new_cluster s)"
proof -
  have "finite_seeds (foldl seed_endpoint c es)" if "finite_seeds c" for c es
    using that by (induction es arbitrary: c) (auto simp: seed_endpoint_finite)
  moreover have "finite_seeds (blank_cluster s)"
    by (auto simp: finite_seeds_def blank_cluster_def fmran'_alt_def)
  ultimately have "finite_seeds (foldl seed_endpoint (blank_cluster s) (cs_Endpoints s))" by blast
  moreover have "finite_seeds (breaker_limits b c) = finite_seeds c" for b c
    by (cases b) (simp_all add: breaker_limits_def finite_seeds_def)
  moreover have "finite_seeds (c\<lparr>hc := h\<rparr>) = finite_seeds c" "finite_seeds (c\<lparr>lbPolicy := p\<rparr>) = finite_seeds c" for c h p
    by (simp_all add: finite_seeds_def)
  ultimately show ?thesis by (simp add: new_cluster_def Let_def)
qed

lemma finite_seeds_new_manager:
  "new_manager m ss = Inr m' \<Longrightarrow> \<forall>n c. fmlookup m n = Some c \<longrightarrow> finite_seeds c \<Longrightarrow>
     \<forall>n c. fmlookup m' n = Some c \<longrightarrow> finite_seeds c"
proof (induction m ss rule: new_manager.induct)
  case (2 m s ss)
  have "\<forall>n c. fmlookup (fmupd (cs_Name s) (new_cluster s) m) n = Some c \<longrightarrow> finite_seeds c"
    using 2(3) finite_seeds_new by simp
  with 2 show ?case by (simp split: if_splits)
qed simp

lemma wf_cluster_same:
  assumes "same_config c c'" "Endpoints c' = Endpoints c" "state c' = state c" "hc_ok c'" "wf_cluster c"
  shows "wf_cluster c'"
  using assms wf_ep_same_config [OF assms(1)]
  by (auto simp: wf_cluster_def same_config_def hc_ok_def)

lemma start_cluster_wf:
  assumes "wf_cluster c" "finite_seeds c"
  shows "wf_cluster (fst (start_cluster ctx c)) \<and> finite_seeds (fst (start_cluster ctx c)) \<and>
    c_Name (fst (start_cluster ctx c)) = c_Name c"
proof -
  let ?c = "c\<lparr>baseCtx := Some ctx\<rparr>"
  have "wf_ep ?c = wf_ep c" by (simp add: fun_eq_iff wf_ep_def)
  then have wf: "wf_cluster ?c" "hc_ok ?c" using assms(1) by (auto simp: wf_cluster_def hc_ok_def)
  note all = start_all [of ?c "Endpoints c"]
  have wf': "wf_cluster (foldl (\<lambda>c ep. startHealthCheck ep c) ?c (Endpoints c))"
    by (rule wf_cluster_same [of ?c]) (use all wf in \<open>simp_all\<close>)
  have "finite_seeds (foldl (\<lambda>c ep. startHealthCheck ep c) ?c (Endpoints c))"
    "c_Name (foldl (\<lambda>c ep. startHealthCheck ep c) ?c (Endpoints c)) = c_Name c"
    using all assms(2) by (auto simp: same_config_def finite_seeds_def)
  with wf' wf(1) assms(2) show ?thesis
    by (simp add: start_cluster_def Let_def snapshotEndpoints_def) (simp add: finite_seeds_def)
qed

lemma start_one_wf:
  assumes "wf_manager (fst a)" "\<forall>n c. fmlookup (fst a) n = Some c \<longrightarrow> finite_seeds c"
  shows "wf_manager (fst (start_one ctx a n))"
    "\<forall>k c. fmlookup (fst (start_one ctx a n)) k = Some c \<longrightarrow> finite_seeds c"
proof -
  obtain cm sp where a: "a = (cm, sp)" by force
  have "wf_manager (fst (start_one ctx a n)) \<and> (\<forall>k c. fmlookup (fst (start_one ctx a n)) k = Some c \<longrightarrow> finite_seeds c)"
  proof (cases "fmlookup cm n")
    case None
    with assms a show ?thesis by (simp add: start_one_def)
  next
    case (Some c)
    have "wf_cluster c" "finite_seeds c" "c_Name c = n" using assms Some a by (auto simp: wf_manager_def)
    then have "wf_cluster (fst (start_cluster ctx c))" "finite_seeds (fst (start_cluster ctx c))"
      "c_Name (fst (start_cluster ctx c)) = n"
      using start_cluster_wf by auto
    with assms a Some show ?thesis by (auto simp: start_one_def case_prod_beta wf_manager_upd)
  qed
  then show "wf_manager (fst (start_one ctx a n))"
    "\<forall>k c. fmlookup (fst (start_one ctx a n)) k = Some c \<longrightarrow> finite_seeds c" by auto
qed

lemma start_all_wf:
  assumes "wf_manager (fst a)" "\<forall>n c. fmlookup (fst a) n = Some c \<longrightarrow> finite_seeds c"
  shows "wf_manager (fst (foldl (start_one ctx) a ns)) \<and>
    (\<forall>n c. fmlookup (fst (foldl (start_one ctx) a ns)) n = Some c \<longrightarrow> finite_seeds c)"
  using assms
proof (induction ns arbitrary: a)
  case (Cons n ns)
  then show ?case using Cons.IH [OF start_one_wf [OF Cons.prems]] by simp
qed simp

lemma manager_inv_init:
  assumes "manager_init s"
  shows "manager_inv s"
proof -
  obtain specs cm rng ctx spawned where specs: "\<forall>sp \<in> set specs. i64_spec sp" "NewManager specs = Inr cm"
    "Start rng ctx cm = (mgr s, spawned)" "pending s = []"
    using assms by (auto simp: manager_init_def)
  have "wf_manager cm" "\<forall>n c. fmlookup cm n = Some c \<longrightarrow> finite_seeds c"
    using specs(1,2) new_manager_wf [of fmempty specs cm] finite_seeds_new_manager [of fmempty specs cm]
    by (auto simp: NewManager_def wf_manager_def)
  then show ?thesis
    using start_all_wf [of "(cm, [])" ctx "rng 0 (fmdom' cm)"] specs(3,4)
    by (simp add: manager_inv_def Start_def)
qed

section \<open>Every step keeps the invariant\<close>

lemma wf_TryAcquire:
  assumes "wf_manager cm" "room cm n addr"
  shows "wf_manager (fst (snd (TryAcquire n (cm, m))))"
proof (cases "fmlookup cm n")
  case None
  with assms show ?thesis by (simp add: TryAcquire_def)
next
  case (Some c)
  have "0 \<le> inflight c" "inflight c < 2 ^ 63 - 1"
    using assms Some by (auto simp: wf_manager_def wf_cluster_def room_def)
  then have "0 \<le> wrap64 (inflight c + 1)" "0 \<le> wrap64 (wrap64 (inflight c + 1) - 1)"
    by (simp_all add: in_i64_def)
  with assms(1) Some show ?thesis
    by (auto simp: TryAcquire_def Let_def intro!: wf_set_inflight)
qed

text \<open>Operations of the request path leave the seeds of every cluster alone.\<close>

definition seeds_kept :: "Manager \<Rightarrow> Manager \<Rightarrow> bool" where
  "seeds_kept cm cm' \<longleftrightarrow> (\<forall>n c'. fmlookup cm' n = Some c' \<longrightarrow>
     (\<exists>c. fmlookup cm n = Some c \<and> staticSeeds c' = staticSeeds c \<and> resolvedBySeed c' = resolvedBySeed c))"

lemma seeds_kept_upd:
  "fmlookup cm n = Some c \<Longrightarrow> staticSeeds c' = staticSeeds c \<Longrightarrow> resolvedBySeed c' = resolvedBySeed c \<Longrightarrow>
     seeds_kept cm (fmupd n c' cm)"
  by (simp add: seeds_kept_def)

lemma seeds_kept_refl: "seeds_kept cm cm"
  by (simp add: seeds_kept_def)

lemma seeds_kept_finite:
  "seeds_kept cm cm' \<Longrightarrow> \<forall>n c. fmlookup cm n = Some c \<longrightarrow> finite_seeds c \<Longrightarrow>
     \<forall>n c. fmlookup cm' n = Some c \<longrightarrow> finite_seeds c"
  unfolding seeds_kept_def finite_seeds_def by metis

lemma seeds_set_st [simp]:
  "staticSeeds (set_st a st c) = staticSeeds c" "resolvedBySeed (set_st a st c) = resolvedBySeed c"
  by (simp_all add: set_st_def)

lemma seeds_kept_Pick:
  assumes "Pick rnd now n cm = Ret (r, cm')"
  shows "seeds_kept cm cm'"
proof -
  have "cm' = cm \<or> (\<exists>c. fmlookup cm n = Some c \<and> cm' = fmupd n (advance_rr c) cm)"
    using assms by (auto simp: Pick_def go_bind_eq_Ret Let_def split: option.splits if_splits prod.splits)
  then show ?thesis by (auto intro!: seeds_kept_refl seeds_kept_upd simp: advance_rr_def)
qed

lemma seeds_kept_report:
  "seeds_kept cm (fst (ReportFailure n addr now (cm, m)))"
  "seeds_kept cm (ReportSuccess n addr cm)"
  by (auto simp: ReportFailure_def markFailure_def ReportSuccess_def markSuccess_def Let_def
      intro!: seeds_kept_refl seeds_kept_upd split: option.splits)

lemma seeds_kept_inflight:
  "seeds_kept cm (fst (IncEndpointInFlight n addr (cm, m)))"
  "seeds_kept cm (fst (DecEndpointInFlight n addr (cm, m)))"
  by (auto simp: IncEndpointInFlight_def DecEndpointInFlight_def Let_def
      intro!: seeds_kept_refl seeds_kept_upd split: option.splits)

lemma seeds_kept_slots:
  "seeds_kept cm (fst (snd (TryAcquire n (cm, m))))"
  "seeds_kept cm (fst (Release n (cm, m)))"
  by (auto simp: TryAcquire_def Release_def set_inflight_def Let_def
      intro!: seeds_kept_refl seeds_kept_upd split: option.splits)

lemmas seeds_kept_ops = seeds_kept_report seeds_kept_inflight seeds_kept_slots

lemma inv_request_op:
  assumes "manager_inv s" "wf_manager cm" "seeds_kept (mgr s) cm"
  shows "manager_inv (s\<lparr>mgr := cm\<rparr>)" "manager_inv (s\<lparr>mgr := cm, reg := m\<rparr>)"
  using assms seeds_kept_finite [OF assms(3)] by (auto simp: manager_inv_def)

lemma inv_cluster_op:
  assumes "manager_inv s" "fmlookup (mgr s) n = Some c" "wf_cluster c'" "c_Name c' = c_Name c" "finite_seeds c'"
    "\<forall>(k, S) \<in> set pend. finite S"
  shows "manager_inv (s\<lparr>mgr := fmupd n c' (mgr s), reg := m, pending := pend\<rparr>)"
  using assms by (auto simp: manager_inv_def wf_manager_def)

lemma wf_commit: "wf_cluster c \<Longrightarrow> resolve_commit seed R c = (c', eff) \<Longrightarrow> wf_cluster c'"
proof -
  have "wf_ep (c\<lparr>resolvedBySeed := v\<rparr>) = wf_ep c" for v by (simp add: fun_eq_iff wf_ep_def)
  then show "wf_cluster c \<Longrightarrow> resolve_commit seed R c = (c', eff) \<Longrightarrow> wf_cluster c'"
    by (auto simp: resolve_commit_def Let_def wf_cluster_def)
qed

lemma request_step:
  assumes "manager_inv s" "manager_inv s \<Longrightarrow> wf_manager (fst r)" "seeds_kept (mgr s) (fst r)" "r = (cm, m)"
  shows "manager_inv (s\<lparr>mgr := cm, reg := m\<rparr>)"
  using assms by (intro inv_request_op) auto

lemma inv_wf: "manager_inv s \<Longrightarrow> wf_manager (mgr s)"
  by (simp add: manager_inv_def)

lemma health_step:
  assumes "wf_cluster c" "updateActiveHealth addr healthy c = Ret c'"
  shows "wf_cluster c' \<and> c_Name c' = c_Name c \<and> staticSeeds c' = staticSeeds c \<and>
    resolvedBySeed c' = resolvedBySeed c"
proof (cases "hc c")
  case None
  then have "\<not> activeUnhealthy (st_of c addr)" using wf_ep_st_of [OF assms(1), of addr] by (simp add: wf_ep_def)
  then have *: "c' = set_st addr ((st_of c addr)\<lparr>consecSucc := wrap64 (consecSucc (st_of c addr) + 1), consecFail := 0\<rparr>) c"
    using assms(2) None by (auto simp: updateActiveHealth_def Let_def split: if_splits)
  have "wf_cluster c'"
    unfolding * using assms(1) wf_ep_st_of [OF assms(1), of addr] None
    by (intro wf_set_st) (auto simp: wf_ep_def)
  then show ?thesis by (simp add: *)
next
  case (Some h)
  then have *: "c' = set_st addr (active_step h healthy (st_of c addr)) c"
    using assms(2) by (simp add: updateActiveHealth_step)
  then show ?thesis using updateActiveHealth_wf [OF assms(1) Some, of addr healthy] assms(2) by auto
qed

lemma manager_inv_step: "manager_step s s' \<Longrightarrow> manager_inv s \<Longrightarrow> manager_inv s'"
proof (induction rule: manager_step.induct)
  case (pick rnd now n s r cm)
  then show ?case
    using wf_Pick [OF inv_wf pick(1)] seeds_kept_Pick [OF pick(1)] by (intro inv_request_op(1)) auto
next
  case (failure n addr now s cm m)
  show ?case
    by (rule request_step [OF failure(2) wf_ReportFailure [OF inv_wf] seeds_kept_ops(1) failure(1)])
next
  case (success s n addr)
  then show ?case
    by (intro inv_request_op(1) seeds_kept_ops) (auto intro: wf_ReportSuccess inv_wf)
next
  case (inc s n addr cm m)
  have "wf_manager (fst (IncEndpointInFlight n addr (mgr s, reg s)))"
    using inc(1) by (intro wf_IncEndpointInFlight inv_wf inc(3)) (auto simp: room_def)
  then show ?case by (rule request_step [OF inc(3) _ seeds_kept_ops(3) inc(2)])
next
  case (dec n addr s cm m)
  show ?case
    by (rule request_step [OF dec(2) wf_DecEndpointInFlight [OF inv_wf] seeds_kept_ops(4) dec(1)])
next
  case (acquire s n addr ok cm m)
  then show ?case
    using wf_TryAcquire [OF inv_wf acquire(1), of "reg s"] seeds_kept_slots(1) [of "mgr s" n "reg s"]
    by (intro inv_request_op(2)) auto
next
  case (release n s cm m)
  show ?case
    by (rule request_step [OF release(2) wf_Release [OF inv_wf] seeds_kept_ops(6) release(1)])
next
  case (health s n c addr healthy c')
  have c: "wf_cluster c" "finite_seeds c" using health by (auto simp: manager_inv_def wf_manager_def)
  note h = health_step [OF c(1) health(3)]
  have "finite_seeds c'" using h c(2) by (simp add: finite_seeds_def)
  with h health(4) show ?case
    using inv_cluster_op [OF health(4,1), of c' "pending s" "reg s"] by (auto simp: manager_inv_def)
next
  case (dns_error s n c rng seed port c' m)
  then have "c' = c" by (auto simp: resolveOnce_error)
  moreover have "wf_cluster c" "finite_seeds c" "\<forall>(k, S) \<in> set (pending s). finite S"
    using dns_error by (auto simp: manager_inv_def wf_manager_def)
  ultimately show ?case using inv_cluster_op [OF dns_error(3,1), of c "pending s" m] by simp
next
  case (commit s n c seed host port ips c' eff)
  then have c: "wf_cluster c" "finite_seeds c" by (auto simp: manager_inv_def wf_manager_def)
  have c': "wf_cluster c'" "finite_seeds c'" "c_Name c' = c_Name c" "eff = effective c'"
    using wf_commit [OF c(1) commit(3)] commit_finite [OF c(2), of "resolved_addrs port ips" seed] commit(3)
    by (auto simp: resolve_commit_def Let_def)
  with commit(4) finite_effective [OF c'(2)] show ?case
    by (intro inv_cluster_op [OF commit(4,1)]) (auto simp: manager_inv_def)
next
  case (apply_set s before n eff after c rng c' m)
  then have c: "wf_cluster c" "finite_seeds c" "finite eff" by (auto simp: manager_inv_def wf_manager_def)
  note eff = apply_effect [OF apply_set(3) c(3) apply_set(4)]
  have "wf_cluster c'" using wf_applyEndpointSet [OF apply_set(3) c(3,1) apply_set(4)] .
  moreover have "finite_seeds c'" "c_Name c' = c_Name c"
    using eff c(2) by (auto simp: same_config_def finite_seeds_def)
  moreover have "\<forall>(k, S) \<in> set (before @ after). finite S"
    using apply_set(1,5) by (auto simp: manager_inv_def)
  ultimately show ?case by (intro inv_cluster_op [OF apply_set(5,2)])
next
  case (metric s m)
  then show ?case by (simp add: manager_inv_def)
qed

interpretation cluster_manager: inductive_invariant manager_init manager_step manager_inv
  by unfold_locales (auto intro: manager_inv_init manager_inv_step)

end
