(* ===== verification/GP_ClusterProps.thy ===== *)
theory GP_ClusterProps
  imports GP_Manager
begin

text \<open>
  What the cluster manager guarantees: the invariant of every reachable state, the choice of an
  endpoint, outlier detection and active health, the circuit breaker, and discovery. Each theorem
  rests on the facts of the component theories and of their locales; the example cluster serves
  the concrete instances.
\<close>

section \<open>An example cluster\<close>

definition ex_spec :: ClusterSpec where
  "ex_spec = \<lparr>cs_Name = ''web'', cs_Endpoints = [''10.0.0.1:80'', ''10.0.0.2:80''], cs_Discovery = [],
     cs_DnsRefreshSeconds = 0, cs_Outlier = None, cs_HealthCheck = None, cs_CircuitBreaker = None,
     cs_LBPolicy = [], cs_UpstreamTLS = None, cs_RetryPolicy = None\<rparr>"

definition ex_check :: HealthCheckSpec where
  "ex_check = \<lparr>hc_Type = ''tcp'', hc_IntervalMillis = 2000, hc_TimeoutMillis = 1000, hc_HTTPPath = ''/'',
     hc_HealthyThreshold = 2, hc_UnhealthyThreshold = 3\<rparr>"

definition ex_cluster :: Cluster where
  "ex_cluster =
     \<lparr>c_Name = ''web'', Endpoints = [''a'', ''b''], rr = 0,
      outlier = \<lparr>consecutive = 3, ejectFor = 30000000000\<rparr>,
      state = fmupd ''a'' new_epState (fmupd ''b'' (new_epState\<lparr>inFlight := 4\<rparr>) fmempty),
      hc = Some ex_check, hcCancel = {}, hcRunning = [], cbMaxReqs = 2, inflight = 0,
      lbPolicy = ''round_robin'', discovery = ''strict_dns'', dnsRefresh = 5000000000,
      seeds = [''a.test:80'', ''b.test:80''], staticSeeds = {''a'', ''b''}, resolvedBySeed = fmempty,
      baseCtx = None, epMaxReqs = 5\<rparr>"

definition ex_manager :: Manager where
  "ex_manager = fmupd ''web'' ex_cluster fmempty"

lemmas ex_defs = ex_spec_def ex_check_def ex_cluster_def ex_manager_def new_epState_def

lemma ex_wf: "wf_cluster ex_cluster"
  by (auto simp: wf_cluster_def wf_ep_def wf_hc_def lb_names_def ex_defs in_i64_def split: if_splits)

lemma ex_pick_pre: "rr_small ex_cluster" "loads_ok ex_cluster" "rnd_ok (\<lambda>n. 0)"
  by (auto simp: rr_small_def loads_ok_def rnd_ok_def ex_defs split: if_splits)

lemma ex_finite: "finite_seeds ex_cluster"
  by (auto simp: finite_seeds_def ex_defs fmran'_alt_def)

section \<open>The manager\<close>



section \<open>Load balancing\<close>

text \<open>
  C1. For a known cluster that has endpoints, \<^verbatim>\<open>Pick\<close> returns (it neither panics nor fails
  to find an endpoint). An endpoint it chooses belongs to the cluster and is usable, that is
  available and below its cap, unless no endpoint at all is available; the capacity error is returned
  only when some endpoint is available and every available one is at its cap.
\<close>
theorem Pick_contract:
  assumes "fmlookup cm n = Some c" "Endpoints c \<noteq> []" "rnd_ok rnd" "rr_small c" "loads_ok c"
  shows "\<exists>r cm'. Pick rnd now n cm = Ret (r, cm') \<and>
    (case r of
       Inr ep \<Rightarrow> ep \<in> set (Endpoints c) \<and>
         (usable c now ep \<or> (\<forall>ep' \<in> set (Endpoints c). \<not> isAvailable c ep' now))
     | Inl e \<Rightarrow> e = NoEndpointCapacity \<and> (\<exists>ep \<in> set (Endpoints c). isAvailable c ep now) \<and>
         (\<forall>ep \<in> set (Endpoints c). \<not> usable c now ep))"
proof -
  have pre: "rnd_ok rnd \<and> rr_small c \<and> loads_ok c" using assms by simp
  obtain c' where pick: "Pick rnd now n cm = go_bind (pick_policy rnd c now) (\<lambda>r. Ret (r, fmupd n c' cm))"
    using Pick_policy [OF assms(1,2)] by blast
  from policy_sel.sel_total [OF pre assms(2), of now] show ?thesis
  proof
    assume e: "pick_policy rnd c now = Ret (Inl NoEndpointCapacity)"
    with policy_sel.sel_error_iff [OF pre assms(2), of now] pick show ?thesis by auto
  next
    assume "\<exists>ep \<in> set (Endpoints c). pick_policy rnd c now = Ret (Inr ep)"
    then obtain ep where "ep \<in> set (Endpoints c)" "pick_policy rnd c now = Ret (Inr ep)" by blast
    with policy_sel.sel_unusable_only_if_none [OF pre assms(2), of now ep] pick show ?thesis by auto
  qed
qed

theorem Pick_contract_witness:
  "\<exists>r cm'. Pick (\<lambda>n. 0) 7 ''web'' ex_manager = Ret (r, cm') \<and>
    (case r of
       Inr ep \<Rightarrow> ep \<in> set (Endpoints ex_cluster) \<and>
         (usable ex_cluster 7 ep \<or> (\<forall>ep' \<in> set (Endpoints ex_cluster). \<not> isAvailable ex_cluster ep' 7))
     | Inl e \<Rightarrow> e = NoEndpointCapacity \<and> (\<exists>ep \<in> set (Endpoints ex_cluster). isAvailable ex_cluster ep 7) \<and>
         (\<forall>ep \<in> set (Endpoints ex_cluster). \<not> usable ex_cluster 7 ep))"
  by (rule Pick_contract) (simp_all add: ex_pick_pre, simp_all add: ex_manager_def ex_cluster_def)

text \<open>
  With the policy \<^verbatim>\<open>least_requests\<close>, the endpoint chosen is a usable one with the
  fewest requests in flight, and the manager is left unchanged.
\<close>
theorem Pick_least_requests:
  assumes "fmlookup cm n = Some c" "lbPolicy c = ''least_requests''" "loads_ok c"
    and "good \<in> set (Endpoints c)" "usable c now good"
  shows "\<exists>ep \<in> set (Endpoints c). Pick rnd now n cm = Ret (Inr ep, cm) \<and> usable c now ep \<and>
    (\<forall>ep' \<in> set (Endpoints c). usable c now ep' \<longrightarrow> ep_load c ep \<le> ep_load c ep')"
proof -
  let ?us = "filter (usable c now) (Endpoints c)"
  have us: "?us \<noteq> []" using assms(4,5) by (auto simp: filter_empty_conv)
  have "Pick rnd now n cm = Ret (Inr (arg_min_list (ep_load c) ?us), cm)"
    using assms us ep_load_nonneg [OF assms(3), of "arg_min_list (ep_load c) ?us"]
    by (auto simp: Pick_def snapshotEndpoints_def least_loop_min [OF assms(3)] Let_def)
  moreover have "arg_min_list (ep_load c) ?us \<in> set ?us" using us by (rule arg_min_list_in)
  moreover have "ep_load c (arg_min_list (ep_load c) ?us) \<le> ep_load c ep'" if "ep' \<in> set ?us" for ep'
    using f_arg_min_list_f [OF us, of "ep_load c"] that by (metis Min_le List.finite_set finite_imageI image_eqI)
  ultimately show ?thesis by auto
qed

theorem Pick_least_requests_witness:
  "\<exists>ep \<in> set (Endpoints (ex_cluster\<lparr>lbPolicy := ''least_requests''\<rparr>)).
    Pick (\<lambda>n. 0) 7 ''web'' (fmupd ''web'' (ex_cluster\<lparr>lbPolicy := ''least_requests''\<rparr>) fmempty) =
      Ret (Inr ep, fmupd ''web'' (ex_cluster\<lparr>lbPolicy := ''least_requests''\<rparr>) fmempty) \<and>
    usable (ex_cluster\<lparr>lbPolicy := ''least_requests''\<rparr>) 7 ep \<and>
    (\<forall>ep' \<in> set (Endpoints (ex_cluster\<lparr>lbPolicy := ''least_requests''\<rparr>)).
      usable (ex_cluster\<lparr>lbPolicy := ''least_requests''\<rparr>) 7 ep' \<longrightarrow>
      ep_load (ex_cluster\<lparr>lbPolicy := ''least_requests''\<rparr>) ep \<le>
      ep_load (ex_cluster\<lparr>lbPolicy := ''least_requests''\<rparr>) ep')"
  by (rule Pick_least_requests [where good = "''a''"])
    (auto simp: loads_ok_def usable_def isAvailable_def underEndpointCap_def ex_defs go_defs split: if_splits)

text \<open>
  C23. Round robin is fair: as long as all endpoints stay usable, as many successive picks as there
  are endpoints return every endpoint exactly as often as it is listed, wherever the index stands.
\<close>
theorem round_robin_fair:
  assumes "fmlookup cm n = Some c" "lbPolicy c = ''round_robin''" "Endpoints c \<noteq> []"
    and "\<forall>ep \<in> set (Endpoints c). usable c now ep" and "unat (rr c) + length (Endpoints c) \<le> 2 ^ 63"
  shows "\<exists>rs. picks rnd now n (length (Endpoints c)) cm = Ret (map Inr rs) \<and> mset rs = mset (Endpoints c)"
  using picks_round_robin [OF assms] ring_round [OF assms(3), of "unat (rr c)"]
  by (intro exI [of _ "map (\<lambda>j. Endpoints c ! ((unat (rr c) + j) mod length (Endpoints c))) [0..<length (Endpoints c)]"])
    (simp add: comp_def)

theorem round_robin_fair_witness:
  "\<exists>rs. picks (\<lambda>n. 0) 7 ''web'' (length (Endpoints ex_cluster)) ex_manager = Ret (map Inr rs) \<and>
     mset rs = mset (Endpoints ex_cluster)"
  by (rule round_robin_fair)
    (auto simp: usable_def isAvailable_def underEndpointCap_def ex_defs go_defs)

text \<open>
  The round-robin index is unsigned, but the code converts it to a signed int before the
  remainder: once it has passed \<open>2^63\<close>, a pick panics with an index out of range whenever the
  number of endpoints does not divide the (now negative) index.
\<close>
theorem round_robin_overflow_panics:
  assumes "fmlookup cm n = Some c" "lbPolicy c = ''round_robin''" "Endpoints c \<noteq> []"
    and "sint (rr c) < 0" "\<not> int (length (Endpoints c)) dvd sint (rr c)"
  shows "Pick rnd now n cm = Panic ''index out of range''"
proof -
  let ?l = "int (length (Endpoints c))"
  have l: "0 < ?l" using assms(3) by simp
  have start: "sint (rr c) smod ?l < 0" and again: "(sint (rr c) smod ?l) smod ?l = sint (rr c) smod ?l"
    using smod_neg [OF assms(4) l assms(5)] smod_int_compares(3) [of "sint (rr c)" ?l] assms(4) l
    by (simp_all add: smod_small_neg)
  obtain k where k: "length (Endpoints c) = Suc k" using assms(3) by (cases "Endpoints c") auto
  have "pick_round_robin c now = Panic ''index out of range''"
    using start again by (simp add: pick_round_robin_def snapshotEndpoints_def Let_def k index_go_def)
  with assms show ?thesis by (simp add: Pick_def snapshotEndpoints_def)
qed

theorem round_robin_overflow_panics_witness:
  "Pick (\<lambda>n. 0) 7 ''web'' (fmupd ''web'' (ex_cluster\<lparr>rr := 9223372036854775809\<rparr>) fmempty) =
     Panic ''index out of range''"
proof (rule round_robin_overflow_panics)
  have "sint (9223372036854775809 :: 64 word) = - 9223372036854775807" by simp
  then show "sint (rr (ex_cluster\<lparr>rr := 9223372036854775809\<rparr>)) < 0"
    "\<not> int (length (Endpoints (ex_cluster\<lparr>rr := 9223372036854775809\<rparr>)))
       dvd sint (rr (ex_cluster\<lparr>rr := 9223372036854775809\<rparr>))"
    by (simp_all add: ex_cluster_def)
qed (simp_all add: ex_cluster_def)

section \<open>Health\<close>

text \<open>
  C14. Outlier detection follows the history of reports on an endpoint. Reading the history newest
  report first, the endpoint is ejected at a time \<open>now\<close> exactly when \<open>now\<close> lies within the ejection
  period of the last failure that completed a multiple of the configured number of consecutive
  failures (or of an ejection from before the history, when there is none). In particular a success
  does not lift a running ejection.
\<close>
theorem outlier_ejection_history:
  assumes "wf_cluster c" "consecutive (outlier c) = int n" "failures (st_of c addr) = 0"
  shows "isEjected (fst (report_run addr (c, m) es)) addr now \<longleftrightarrow>
    now < (case last_ejection n (rev es) of
             None \<Rightarrow> unhealthyUntil (st_of c addr)
           | Some t \<Rightarrow> t + ejectFor (outlier c)) \<and>
    fmlookup (state (fst (report_run addr (c, m) es))) addr \<noteq> None"
  using report_run_refines [OF assms, of m es]
  by (auto simp: isEjected_def Before_def st_of_def [of "fst (report_run addr (c, m) es)"] split: option.splits)

theorem outlier_ejection_history_witness:
  "isEjected (fst (report_run ''a'' (ex_cluster, empty_registry)
      [RFail 1, RFail 2, RFail 3, RSucc])) ''a'' 30000000002"
proof -
  have c: "consecutive (outlier ex_cluster) = int 3" "failures (st_of ex_cluster ''a'') = 0"
    by (simp_all add: ex_defs st_of_def)
  have "fmlookup (state (fst (report_run ''a'' (ex_cluster, empty_registry) [RFail 1, RFail 2, RFail 3, RSucc]))) ''a'' \<noteq> None"
    by (simp add: report_run_def markFailure_def markSuccess_def Let_def case_prod_beta)
  moreover have "last_ejection 3 (rev [RFail 1, RFail 2, RFail 3, RSucc]) = Some 3"
    by (simp add: fail_streak_def eval_nat_numeral)
  ultimately show ?thesis
    using outlier_ejection_history [OF ex_wf c, of empty_registry "[RFail 1, RFail 2, RFail 3, RSucc]" 30000000002]
    by (simp add: ex_cluster_def)
qed



section \<open>The circuit breaker\<close>

text \<open>
  C8. Under every interleaving of the atomic operations of \<^verbatim>\<open>TryAcquire\<close> and
  \<^verbatim>\<open>Release\<close> by any number of goroutines, at most \<^verbatim>\<open>max_requests\<close> of them
  hold a slot, and the shared counter is exactly the number of goroutines that hold one or are
  about to be granted or denied one.
\<close>
theorem breaker_limit:
  assumes "reach breaker_init breaker_step s"
  shows "cnt (threads s) (\<lambda>p. p = Holding) (pcs s) \<le> cap s \<and>
    slots s = cnt (threads s) (\<lambda>p. p = Holding) (pcs s) + cnt (threads s) (\<lambda>p. \<exists>v. p = Added v) (pcs s)"
  using breaker_safe [OF assms] by blast

theorem breaker_limit_witness:
  "cnt 3 (\<lambda>p. p = Holding) ((\<lambda>_. Idle)(0 := Holding)) \<le> 1"
proof -
  let ?s0 = "\<lparr>slots = 0, cap = 1, threads = 3, pcs = \<lambda>_. Idle\<rparr>"
  let ?s1 = "\<lparr>slots = 1, cap = 1, threads = 3, pcs = (\<lambda>_. Idle)(0 := Added 1)\<rparr>"
  let ?s2 = "\<lparr>slots = 1, cap = 1, threads = 3, pcs = (\<lambda>_. Idle)(0 := Holding)\<rparr>"
  have "breaker_step ?s0 ?s1" using take_slot [of 0 ?s0 1] by simp
  moreover have "breaker_step ?s1 ?s2" using grant [of 0 ?s1 1] by simp
  moreover have "breaker_init ?s0" by (simp add: breaker_init_def)
  ultimately have "reach breaker_init breaker_step ?s2" by (metis reach_init reach_step)
  from breaker_limit [OF this] show ?thesis by simp
qed

text \<open>
  Taken as single operations on a cluster with a limit: an acquisition is granted exactly when
  fewer requests than the limit are in flight, a denied one changes nothing, a release gives back
  what an acquisition took, and after a release the next acquisition is granted.
\<close>
theorem acquire_release_contract:
  assumes "limited n s"
  shows "(fst (TryAcquire n s) \<longleftrightarrow> cluster_inflight n s < cluster_limit n s) \<and>
    cluster_inflight n (snd (TryAcquire n s)) = cluster_inflight n s + of_bool (fst (TryAcquire n s)) \<and>
    (fst (TryAcquire n s) \<longrightarrow> cluster_inflight n (Release n (snd (TryAcquire n s))) = cluster_inflight n s) \<and>
    fst (TryAcquire n (Release n s))"
proof -
  have "0 < cluster_limit n s" using assms by (auto simp: limited_def cluster_limit_def)
  then show ?thesis
    using cluster_pool.acquire_granted [OF assms] cluster_pool.held_acquire [OF assms]
      cluster_pool.acquire_release [OF assms] cluster_pool.release_unblocks [OF assms] by simp
qed

theorem acquire_release_contract_witness:
  "fst (TryAcquire ''web'' (Release ''web'' (ex_manager, empty_registry)))"
proof -
  have "limited ''web'' (ex_manager, empty_registry)" by (simp add: limited_def ex_defs)
  from acquire_release_contract [OF this] show ?thesis by blast
qed

section \<open>Discovery\<close>

text \<open>
  C24. A successful DNS lookup of one resolver, run without another in between, makes the endpoints
  exactly the static seeds together with the last answer of every seed; the answers of the other
  seeds and the record of every endpoint that had one (counters, ejection, health) are kept, so an
  endpoint that disappears and returns keeps its history.
\<close>
theorem resolveOnce_applies:
  assumes "map_range rng" "finite_seeds c" "resolveOnce rng (Some ips) seed port (c, m) = (c', m')"
  shows "set (Endpoints c') = staticSeeds c \<union> \<Union> (fmran' (resolvedBySeed c')) \<and>
    fmlookup (resolvedBySeed c') seed = Some (set (map (\<lambda>ip. JoinHostPort (IP_String ip) port) ips)) \<and>
    (\<forall>s. s \<noteq> seed \<longrightarrow> fmlookup (resolvedBySeed c') s = fmlookup (resolvedBySeed c) s) \<and>
    (\<forall>a st. fmlookup (state c) a = Some st \<longrightarrow> fmlookup (state c') a = Some st)"
  using resolveOnce_success [OF assms] by (simp add: effective_def resolved_addrs_def)

theorem resolveOnce_applies_witness:
  "\<exists>c' m'. resolveOnce sorted_range (Some [[0, 0, 0, 0, 0, 65535, 2560, 1]]) ''a.test:80'' ''80''
      (ex_cluster, empty_registry) = (c', m') \<and>
    fmlookup (state c') ''a'' = fmlookup (state ex_cluster) ''a''"
proof -
  obtain c' m' where run: "resolveOnce sorted_range (Some [[0, 0, 0, 0, 0, 65535, 2560, 1]]) ''a.test:80'' ''80''
      (ex_cluster, empty_registry) = (c', m')" by force
  from resolveOnce_applies [OF sorted_range.map_range_axioms ex_finite run]
  have "fmlookup (state c') ''a'' = Some new_epState" by (simp add: ex_cluster_def)
  with run show ?thesis by (simp add: ex_cluster_def)
qed

text \<open>
  Once the manager is started, the addresses with a running health check are exactly the
  endpoints of the cluster, and applying a new set of endpoints starts and stops checks so that it
  stays so (at most one goroutine for each address).
\<close>
theorem health_checks_follow_endpoints:
  assumes "map_range rng" "finite newSet" "hcCancel c = {}" "hcRunning c = []" "hc c \<noteq> None"
    and "applyEndpointSet rng newSet (fst (start_cluster ctx c), m) = (c', m')"
  shows "set (Endpoints c') = newSet \<and> set (hcRunning c') = newSet \<and> distinct (hcRunning c')"
proof -
  let ?c = "c\<lparr>baseCtx := Some ctx\<rparr>"
  have c1: "fst (start_cluster ctx c) = foldl (\<lambda>c ep. startHealthCheck ep c) ?c (Endpoints c)"
    using assms(5) by (simp add: start_cluster_def snapshotEndpoints_def Let_def)
  have "hc_ok (fst (start_cluster ctx c))" "same_config ?c (fst (start_cluster ctx c))"
    using start_all [of ?c "Endpoints c"] assms(3,4) by (simp_all add: hc_ok_def c1)
  with apply_effect [OF assms(1,2,6)]
    apply_keeps_match [OF assms(1,2) start_cluster_matches [OF assms(3), of ctx] assms(6)] assms(5)
  show ?thesis by (auto simp: checks_match_def hc_ok_def same_config_def)
qed

theorem health_checks_follow_endpoints_witness:
  "\<exists>c' m'. applyEndpointSet sorted_range {''b'', ''c''} (fst (start_cluster 0 ex_cluster), empty_registry) = (c', m') \<and>
     set (hcRunning c') = {''b'', ''c''}"
proof -
  obtain c' m' where run: "applyEndpointSet sorted_range {''b'', ''c''} (fst (start_cluster 0 ex_cluster), empty_registry) = (c', m')"
    by force
  have r: "set (Endpoints c') = {''b'', ''c''} \<and> set (hcRunning c') = {''b'', ''c''} \<and> distinct (hcRunning c')"
    by (rule health_checks_follow_endpoints [OF sorted_range.map_range_axioms _ _ _ _ run])
      (simp_all add: ex_cluster_def)
  show ?thesis by (intro exI conjI) (rule run, rule r [THEN conjunct2, THEN conjunct1])
qed

text \<open>
  The lock is released between computing an effective set and applying it. When a second
  resolver commits and applies in that window, the first one then applies its older set: the
  cluster is left with the endpoints of the older set, although the stored answers say otherwise,
  and stays so until a later lookup succeeds.
\<close>
theorem stale_set_applied_last:
  assumes "map_range rng" "finite_seeds c" "finite A" "finite B"
    and "resolve_commit seedA A c = (c1, eff1)" "resolve_commit seedB B c1 = (c2, eff2)"
    and "applyEndpointSet rng eff2 (c2, m) = (c3, m3)" "applyEndpointSet rng eff1 (c3, m3) = (c4, m4)"
    and "addr \<in> B" "addr \<notin> effective c1"
  shows "addr \<notin> set (Endpoints c4) \<and> addr \<in> effective c4"
proof -
  have e: "eff1 = effective c1" "eff2 = effective c2" "finite_seeds c1" "finite_seeds c2" "addr \<in> effective c2"
    using assms(2-6,9) commit_finite [OF assms(2,3), of seedA] commit_finite [of c1 B seedB]
    by (auto simp: resolve_commit_def Let_def effective_def intro!: fmran'I)
  have "same_config c2 c3" "same_config c3 c4" "set (Endpoints c4) = eff1"
    using apply_effect [OF assms(1) finite_effective [OF e(4)]] apply_effect [OF assms(1) finite_effective [OF e(3)]]
      assms(7,8) e by blast+
  then have "effective c4 = effective c2" by (simp add: same_config_def effective_def)
  with e assms(10) \<open>set (Endpoints c4) = eff1\<close> show ?thesis by simp
qed

theorem stale_set_applied_last_witness:
  "\<exists>c4 m4. (let (c1, eff1) = resolve_commit ''a.test:80'' {''x''} ex_cluster;
        (c2, eff2) = resolve_commit ''b.test:80'' {''y''} c1;
        s3 = applyEndpointSet sorted_range eff2 (c2, empty_registry)
      in applyEndpointSet sorted_range eff1 s3) = (c4, m4) \<and>
    ''y'' \<notin> set (Endpoints c4) \<and> ''y'' \<in> effective c4"
proof -
  obtain c1 eff1 where r1: "resolve_commit ''a.test:80'' {''x''} ex_cluster = (c1, eff1)" by force
  obtain c2 eff2 where r2: "resolve_commit ''b.test:80'' {''y''} c1 = (c2, eff2)" by force
  obtain c3 m3 where a3: "applyEndpointSet sorted_range eff2 (c2, empty_registry) = (c3, m3)" by force
  obtain c4 m4 where a4: "applyEndpointSet sorted_range eff1 (c3, m3) = (c4, m4)" by force
  have "''y'' \<notin> effective c1"
    using r1 by (auto simp: resolve_commit_def Let_def effective_def ex_cluster_def dest!: fmran'_fmupd_subset)
      (auto simp: fmran'_alt_def)
  then have "''y'' \<notin> set (Endpoints c4) \<and> ''y'' \<in> effective c4"
    by (intro stale_set_applied_last [OF sorted_range.map_range_axioms ex_finite _ _ r1 r2 a3 a4]) simp_all
  with r1 r2 a3 a4 show ?thesis by simp
qed

end
