(* ===== verification/GP_Prom.thy ===== *)
theory GP_Prom
  imports GP_Breaker GP_Net
begin

text \<open>
  Package \<^verbatim>\<open>internal/obs/metrics\<close> (\<^verbatim>\<open>prom.go\<close>): the rendering of the registry in
  the text format of Prometheus. The keys of the registry are taken apart by nine regular
  expressions; each is a list of literals and captured classes, matched as package
  \<^verbatim>\<open>regexp\<close> does (the longest choice for the first class that lets the rest match). The
  text is built as a list of lines, \<^const>\<open>concat\<close>enated as the string builder does.

  The lemmas say what a match is (a decomposition of the key, unique for the expressions used here),
  what text an integer gets, that every metric of the registry gives exactly one sample line in the
  order of the keys, and that no type line is repeated.
\<close>

section \<open>Regular expressions\<close>

text \<open>A literal, one character of a class, or one or more characters of a class; the classes are captured.\<close>

datatype re = Lit string | One "char \<Rightarrow> bool" | Cls "char \<Rightarrow> bool"

fun first_some :: "('a \<Rightarrow> 'b option) \<Rightarrow> 'a list \<Rightarrow> 'b option" where
  "first_some f [] = None"
| "first_some f (x # xs) = (case f x of Some y \<Rightarrow> Some y | None \<Rightarrow> first_some f xs)"

fun re_match :: "re list \<Rightarrow> string \<Rightarrow> string list option" where
  "re_match [] s = (if s = [] then Some [] else None)"
| "re_match (Lit l # ps) s = (if HasPrefix s l then re_match ps (drop (length l) s) else None)"
| "re_match (One P # ps) s =
     (case s of [] \<Rightarrow> None | c # s' \<Rightarrow> if P c then map_option (\<lambda>ms. [c] # ms) (re_match ps s') else None)"
| "re_match (Cls P # ps) s =
     first_some (\<lambda>n. map_option (\<lambda>ms. take n s # ms) (re_match ps (drop n s)))
       (rev [1..<Suc (length (takeWhile P s))])"

definition no_dot :: "char \<Rightarrow> bool" where "no_dot c \<longleftrightarrow> c \<noteq> CHR ''.''"
definition no_newline :: "char \<Rightarrow> bool" where "no_newline c \<longleftrightarrow> c \<noteq> CHR 0x0A"
definition one_to_five :: "char \<Rightarrow> bool" where "one_to_five c \<longleftrightarrow> c \<in> set ''12345''"

definition alnum :: "char \<Rightarrow> bool" where
  "alnum c \<longleftrightarrow> (let n = (of_char c :: nat) in (65 \<le> n \<and> n \<le> 90) \<or> (97 \<le> n \<and> n \<le> 122) \<or> (48 \<le> n \<and> n \<le> 57))"

definition reClusterInflight :: "re list" where
  "reClusterInflight = [Lit ''cluster.'', Cls no_dot, Lit ''.inflight_requests'']"
definition reEndpointInflight :: "re list" where
  "reEndpointInflight = [Lit ''endpoint.'', Cls no_dot, Lit ''.'', Cls no_newline, Lit ''.inflight_requests'']"
definition reRespClass :: "re list" where
  "reRespClass = [Lit ''http_responses_'', One one_to_five, Lit ''xx_total'']"
definition reHistBucket :: "re list" where
  "reHistBucket = [Lit ''hist.'', Cls no_dot, Lit ''.'', Cls no_dot, Lit ''.bucket.'', Cls alnum]"
definition reHistSum :: "re list" where
  "reHistSum = [Lit ''hist.'', Cls no_dot, Lit ''.'', Cls no_dot, Lit ''.sum'']"
definition reHistCount :: "re list" where
  "reHistCount = [Lit ''hist.'', Cls no_dot, Lit ''.'', Cls no_dot, Lit ''.count'']"
definition reDownReq :: "re list" where
  "reDownReq = [Lit ''downstream_http_requests_total.method.'', Cls no_dot, Lit ''.cluster.'', Cls no_dot]"
definition reUpOutcome :: "re list" where
  "reUpOutcome = [Lit ''upstream_requests_total.cluster.'', Cls no_dot, Lit ''.outcome.'', Cls no_dot]"

lemmas re_defs = reClusterInflight_def reEndpointInflight_def reRespClass_def reHistBucket_def
  reHistSum_def reHistCount_def reDownReq_def reUpOutcome_def

section \<open>Text helpers\<close>

definition ReplaceByte :: "char \<Rightarrow> string \<Rightarrow> string \<Rightarrow> string" where
  "ReplaceByte old new s = concat (map (\<lambda>c. if c = old then new else [c]) s)"

definition esc :: "string \<Rightarrow> string" where
  "esc v = ReplaceByte (CHR 0x22) [CHR 0x5C, CHR 0x22] (ReplaceByte (CHR 0x5C) [CHR 0x5C, CHR 0x5C] v)"

definition sanitizeName :: "string \<Rightarrow> string" where
  "sanitizeName k = ReplaceByte (CHR ''/'') ''_'' (ReplaceByte (CHR ''-'') ''_'' (ReplaceByte (CHR ''.'') ''_'' k))"

text \<open>
  The digits are written backwards into an array of 20 bytes: \<open>b\<close> is the part that is filled, and a
  write in front of a full array would panic. The argument is an int64, and \<^verbatim>\<open>-v\<close> wraps.
\<close>

function itoa_loop :: "int \<Rightarrow> string \<Rightarrow> string go" where
  "itoa_loop v b =
     (if 0 < v
      then (if length b < 20 then itoa_loop (v div 10) (char_of (48 + nat (v mod 10)) # b)
            else Panic ''index out of range'')
      else Ret b)"
  by pat_completeness auto
termination
  by (relation "measure (\<lambda>(v, b). nat v)") auto

declare itoa_loop.simps [simp del]

definition itoa :: "int \<Rightarrow> string go" where
  "itoa v =
     (if v = 0 then Ret ''0''
      else (let neg = v < 0; v = (if neg then wrap64 (- v) else v)
            in go_bind (itoa_loop v []) (\<lambda>b.
                 if neg then (if length b < 20 then Ret (CHR ''-'' # b) else Panic ''index out of range'') else Ret b)))"

text \<open>Replacing the empty string by itself, as the code does in the middle, changes nothing.\<close>

definition intToString :: "int \<Rightarrow> string go" where
  "intToString v =
     go_bind (itoa v) (\<lambda>s. Ret (dropWhile (\<lambda>c. c = CHR '' '') (TrimSpace (ReplaceByte (CHR '' '') [] s))))"

section \<open>Rendering\<close>

definition typeHints :: "(string, string) fmap" where
  "typeHints = fmap_of_list [
     (''downstream_http_requests_total'', ''counter''),
     (''downstream_connections_accepted_total'', ''counter''),
     (''http_responses_total'', ''counter''),
     (''rate_limit_dropped_total'', ''counter''),
     (''upstream_attempts_total'', ''counter''),
     (''upstream_failures_total'', ''counter''),
     (''endpoints_ejected_total'', ''counter''),
     (''cluster_inflight_requests'', ''gauge''),
     (''endpoint_inflight_requests'', ''gauge'')]"

definition hint :: "string \<Rightarrow> string" where
  "hint name = (case fmlookup typeHints name of None \<Rightarrow> [] | Some t \<Rightarrow> t)"

text \<open>The name of the metric a key belongs to, its type if it gets a type line, and its labels.\<close>

type_synonym family = "string \<times> string option \<times> (string \<times> string) list"

definition fallback :: "string \<Rightarrow> family" where
  "fallback k = (let name = sanitizeName k in (name, fmlookup typeHints name, []))"

definition hist_family :: "string \<Rightarrow> family" where
  "hist_family k =
     (case re_match reHistBucket k of
        Some [base, cluster, le] \<Rightarrow>
          (base @ ''_bucket'', Some ''histogram'',
           [(''cluster'', esc cluster), (''le'', if le = ''Inf'' then ''+Inf'' else esc le)])
      | _ \<Rightarrow> (case re_match reHistSum k of
        Some [base, cluster] \<Rightarrow> (base @ ''_sum'', Some ''histogram'', [(''cluster'', esc cluster)])
      | _ \<Rightarrow> (case re_match reHistCount k of
        Some [base, cluster] \<Rightarrow> (base @ ''_count'', Some ''histogram'', [(''cluster'', esc cluster)])
      | _ \<Rightarrow> fallback k)))"

definition family :: "string \<Rightarrow> family" where
  "family k =
     (case re_match reClusterInflight k of
        Some [c] \<Rightarrow> (''cluster_inflight_requests'', Some (hint ''cluster_inflight_requests''), [(''cluster'', esc c)])
      | _ \<Rightarrow> (case re_match reEndpointInflight k of
        Some [c, ep] \<Rightarrow>
          (''endpoint_inflight_requests'', Some (hint ''endpoint_inflight_requests''),
           [(''cluster'', esc c), (''endpoint'', esc ep)])
      | _ \<Rightarrow> (case re_match reRespClass k of
        Some [d] \<Rightarrow> (''http_responses_total'', Some (hint ''http_responses_total''), [(''code_class'', d @ ''xx'')])
      | _ \<Rightarrow> (case re_match reDownReq k of
        Some [m, c] \<Rightarrow>
          (''downstream_http_requests_total'', Some ''counter'', [(''method'', esc m), (''cluster'', esc c)])
      | _ \<Rightarrow> (case re_match reUpOutcome k of
        Some [c, o'] \<Rightarrow>
          (''upstream_requests_total'', Some ''counter'', [(''cluster'', esc c), (''outcome'', esc o')])
      | _ \<Rightarrow> hist_family k)))))"

datatype item = TypeLine string string | Sample string "(string \<times> string) list" string

fun item_text :: "item \<Rightarrow> string" where
  "item_text (TypeLine name t) = ''# TYPE '' @ name @ '' '' @ t @ [CHR 0x0A]"
| "item_text (Sample name labels v) =
     name @ (if labels = [] then []
             else ''{'' @ join_with '','' (map (\<lambda>(l, x). l @ ''='' @ [CHR 0x22] @ x @ [CHR 0x22]) labels) @ ''}'')
       @ '' '' @ v @ [CHR 0x0A]"

definition type_lines :: "string \<Rightarrow> string option \<Rightarrow> string set \<Rightarrow> item list" where
  "type_lines name t emitted =
     (case t of None \<Rightarrow> [] | Some t \<Rightarrow> if name \<in> emitted then [] else [TypeLine name t])"

fun render_loop :: "(string \<Rightarrow> int) \<Rightarrow> string set \<Rightarrow> string list \<Rightarrow> item list go" where
  "render_loop val emitted [] = Ret []"
| "render_loop val emitted (k # ks) =
     (case family k of (name, t, labels) \<Rightarrow>
        go_bind (intToString (val k)) (\<lambda>v.
          go_bind (render_loop val (if t = None then emitted else insert name emitted) ks) (\<lambda>items.
            Ret (type_lines name t emitted @ Sample name labels v # items))))"

definition RenderProm :: "key_order \<Rightarrow> registry \<Rightarrow> string go" where
  "RenderProm rng m =
     (let snap = Snapshot m; keys = sort (rng 0 (fmdom' snap))
      in go_bind (render_loop (fmget snap) {} keys) (\<lambda>items. Ret (concat (map item_text items))))"

section \<open>What a match is\<close>

text \<open>The decompositions of a string along an expression.\<close>

fun fills :: "re list \<Rightarrow> string list \<Rightarrow> string \<Rightarrow> bool" where
  "fills [] ms s \<longleftrightarrow> ms = [] \<and> s = []"
| "fills (Lit l # ps) ms s \<longleftrightarrow> (\<exists>t. s = l @ t \<and> fills ps ms t)"
| "fills (One P # ps) ms s \<longleftrightarrow> (\<exists>c t ms'. s = c # t \<and> ms = [c] # ms' \<and> P c \<and> fills ps ms' t)"
| "fills (Cls P # ps) ms s \<longleftrightarrow>
     (\<exists>m t ms'. s = m @ t \<and> ms = m # ms' \<and> m \<noteq> [] \<and> list_all P m \<and> fills ps ms' t)"

lemma first_some_Some: "first_some f xs = Some y \<Longrightarrow> \<exists>x \<in> set xs. f x = Some y"
  by (induction xs) (auto split: option.splits)

lemma first_some_None: "first_some f xs = None \<longleftrightarrow> (\<forall>x \<in> set xs. f x = None)"
  by (induction xs) (auto split: option.splits)

lemma list_all_take_takeWhile: "n \<le> length (takeWhile P s) \<Longrightarrow> list_all P (take n s)"
  by (metis list_all_iff set_takeWhileD set_take_subset subset_eq takeWhile_eq_take take_take min.absorb1)

lemma takeWhile_ge: "list_all P m \<Longrightarrow> length m \<le> length (takeWhile P (m @ t))"
  by (induction m) auto

lemma re_match_sound: "re_match ps s = Some ms \<Longrightarrow> fills ps ms s"
proof (induction ps s arbitrary: ms rule: re_match.induct)
  case (4 P ps s)
  then obtain n ms' where n: "1 \<le> n" "n \<le> length (takeWhile P s)" "re_match ps (drop n s) = Some ms'" "ms = take n s # ms'"
    by (auto dest!: first_some_Some)
  then have "fills ps ms' (drop n s)" using 4(1) by simp
  moreover have "n \<le> length s" using n(2) length_takeWhile_le [of P s] by linarith
  ultimately show ?case
    using n list_all_take_takeWhile [OF n(2)]
    by (auto intro!: exI [of _ "take n s"] exI [of _ "drop n s"] simp: append_take_drop_id)
qed (auto simp: HasPrefix_iff split: if_splits list.splits)

lemma re_match_complete: "re_match ps s = None \<Longrightarrow> \<not> fills ps ms s"
proof (induction ps s arbitrary: ms rule: re_match.induct)
  case (4 P ps s)
  show ?case
  proof
    assume "fills (Cls P # ps) ms s"
    then obtain m t ms' where m: "s = m @ t" "m \<noteq> []" "list_all P m" "fills ps ms' t" by auto
    then have "length m \<in> set (rev [1..<Suc (length (takeWhile P s))])"
      using takeWhile_ge [OF m(3), of t] by (auto simp: Suc_le_eq)
    moreover have "\<forall>n \<in> set (rev [1..<Suc (length (takeWhile P s))]). re_match ps (drop n s) = None"
      using 4(2) by (simp only: re_match.simps first_some_None map_option_is_None) 
    ultimately have "re_match ps t = None" using m(1) by fastforce
    then show False using 4(1) [of "length m"] m by simp
  qed
qed (auto simp: HasPrefix_iff split: if_splits list.splits)

text \<open>When the decomposition is unique, the match finds it.\<close>

lemma re_match_unique:
  assumes "fills ps ms s" "\<And>ms'. fills ps ms' s \<Longrightarrow> ms' = ms"
  shows "re_match ps s = Some ms"
  using assms re_match_sound re_match_complete by (cases "re_match ps s") blast+

lemma re_match_none: "(\<And>ms. \<not> fills ps ms s) \<Longrightarrow> re_match ps s = None"
  using re_match_sound by (cases "re_match ps s") auto

text \<open>A segment without a dot ends at the first dot, or at the end.\<close>

lemma dot_unique:
  "list_all no_dot u \<Longrightarrow> list_all no_dot u' \<Longrightarrow> u @ CHR ''.'' # r = u' @ CHR ''.'' # r' \<longleftrightarrow> u = u' \<and> r = r'"
proof (induction u arbitrary: u')
  case (Cons a u)
  then show ?case by (cases u') (auto simp: no_dot_def)
next
  case Nil
  then show ?case by (cases u') (auto simp: no_dot_def)
qed

section \<open>Numbers and escapes\<close>

lemma nat_digits_length: "n < 10 ^ k \<Longrightarrow> 0 < k \<Longrightarrow> length (nat_digits 10 n) \<le> k"
proof (induction k arbitrary: n)
  case (Suc k)
  show ?case
  proof (cases "n < 10")
    case True
    then show ?thesis by (subst nat_digits.simps) simp
  next
    case False
    then have "0 < k" using Suc.prems by (cases k) auto
    moreover have "n div 10 < 10 ^ k" using Suc.prems by (simp add: div_less_iff_less_mult)
    ultimately show ?thesis using False Suc.IH by (subst nat_digits.simps) simp
  qed
qed simp

lemma itoa_loop_digits:
  "0 < v \<Longrightarrow> length (nat_digits 10 (nat v)) + length b \<le> 20 \<Longrightarrow> itoa_loop v b = Ret (nat_digits 10 (nat v) @ b)"
proof (induction v b rule: itoa_loop.induct)
  case (1 v b)
  have digit: "char_of (48 + nat (v mod 10)) = digit_char (nat v mod 10)"
    using 1(2) by (simp add: digit_char_def nat_mod_distrib)
  show ?case
  proof (cases "v < 10")
    case True
    then have "nat_digits 10 (nat v) = [digit_char (nat v mod 10)]" using 1(2) by (subst nat_digits.simps) simp
    moreover have "itoa_loop (v div 10) c = Ret c" for c using True 1(2) by (subst itoa_loop.simps) simp
    ultimately show ?thesis using 1(2,3) digit by (subst itoa_loop.simps) simp
  next
    case False
    then have ds: "nat_digits 10 (nat v) = nat_digits 10 (nat (v div 10)) @ [digit_char (nat v mod 10)]"
      by (subst nat_digits.simps) (simp add: nat_div_distrib)
    have "itoa_loop (v div 10) (char_of (48 + nat (v mod 10)) # b) =
        Ret (nat_digits 10 (nat (v div 10)) @ char_of (48 + nat (v mod 10)) # b)"
      using 1 False ds by (intro 1(1)) auto
    then show ?thesis using 1(2,3) ds digit by (subst itoa_loop.simps) simp
  qed
qed

text \<open>Nineteen digits and a sign fit; the smallest int64 has no positive counterpart and loses its digits.\<close>

definition decimal :: "int \<Rightarrow> string" where
  "decimal v = (if v = - (2 ^ 63) then ''-'' else FormatInt v)"

lemma itoa_decimal: "in_i64 v \<Longrightarrow> itoa v = Ret (decimal v)"
proof -
  assume v: "in_i64 v"
  have fit: "length (nat_digits 10 (nat w)) \<le> 19" if "w < 2 ^ 63" for w
    using that by (intro nat_digits_length) (auto simp: nat_less_iff)
  consider "v = 0" | "0 < v" | "v = - (2 ^ 63)" | "v < 0" "v \<noteq> - (2 ^ 63)" by linarith
  then show ?thesis
  proof cases
    case 1
    then show ?thesis by (simp add: itoa_def decimal_def FormatInt_def nat_digits.simps digit_char_def char_eval)
  next
    case 2
    then have "itoa_loop v [] = Ret (nat_digits 10 (nat v))"
      using itoa_loop_digits [of v "[]"] fit [of v] v by (simp add: in_i64_def)
    then show ?thesis using 2 by (simp add: itoa_def decimal_def FormatInt_def)
  next
    case 3
    then have "wrap64 (- v) = v" by (simp add: wrap64_def)
    moreover have "itoa_loop v [] = Ret []" using 3 by (subst itoa_loop.simps) simp
    ultimately show ?thesis using 3 by (simp add: itoa_def decimal_def)
  next
    case 4
    then have w: "wrap64 (- v) = - v" using v by (intro wrap64_id) (simp add: in_i64_def)
    have "itoa_loop (- v) [] = Ret (nat_digits 10 (nat (- v)))"
      using itoa_loop_digits [of "- v" "[]"] fit [of "- v"] 4 v by (simp add: in_i64_def)
    then show ?thesis using 4 w fit [of "- v"] v by (simp add: itoa_def decimal_def FormatInt_def in_i64_def)
  qed
qed

lemma ReplaceByte_absent: "c \<notin> set s \<Longrightarrow> ReplaceByte c t s = s"
  by (induction s) (auto simp: ReplaceByte_def)

lemma digits_no_space: "list_all is_digit s \<Longrightarrow> c \<in> set s \<Longrightarrow> \<not> is_space c"
  by (auto simp: list_all_iff is_digit_def is_space_def Let_def)

lemma decimal_no_space: "c \<in> set (decimal v) \<Longrightarrow> \<not> is_space c"
  using digits_no_space [OF nat_digits_all_digits]
  by (auto simp: decimal_def FormatInt_def is_space_def split: if_splits)

lemma TrimSpace_none: "(\<And>c. c \<in> set s \<Longrightarrow> \<not> is_space c) \<Longrightarrow> TrimSpace s = s"
proof -
  assume a: "\<And>c. c \<in> set s \<Longrightarrow> \<not> is_space c"
  then have "dropWhile is_space s = s" "dropWhile is_space (rev s) = rev s"
    by (metis dropWhile_eq_self_iff list.set_sel(1), metis dropWhile_eq_self_iff hd_in_set set_rev)
  then show ?thesis by (simp add: TrimSpace_def)
qed

lemma intToString_decimal: "in_i64 v \<Longrightarrow> intToString v = Ret (decimal v)"
proof -
  assume v: "in_i64 v"
  have sp: "CHR '' '' \<notin> set (decimal v)" using decimal_no_space [of "CHR '' ''" v] by (auto simp: is_space_def)
  then have "dropWhile (\<lambda>c. c = CHR '' '') (decimal v) = decimal v"
    by (metis dropWhile_eq_self_iff hd_in_set)
  then show ?thesis
    using v sp by (simp add: intToString_def itoa_decimal ReplaceByte_absent TrimSpace_none decimal_no_space)
qed

text \<open>Undoing the escapes of a label value.\<close>

fun unesc :: "string \<Rightarrow> string" where
  "unesc [] = []"
| "unesc [c] = [c]"
| "unesc (c # d # s) = (if c = CHR 0x5C then d # unesc s else c # unesc (d # s))"

lemma esc_Cons:
  "esc (c # s) = (if c = CHR 0x5C then [CHR 0x5C, CHR 0x5C] else if c = CHR 0x22 then [CHR 0x5C, CHR 0x22] else [c]) @ esc s"
  by (simp add: esc_def ReplaceByte_def)

lemma unesc_esc [simp]: "unesc (esc s) = s"
proof (induction s)
  case (Cons c s)
  then show ?case by (cases "esc s") (auto simp: esc_Cons)
qed (simp add: esc_def ReplaceByte_def)

section \<open>The lines\<close>

text \<open>
  No type line twice, and a type line before the first sample that needs one: a sample with
  labels, or with a name that has a hint.
\<close>

fun well_typed :: "string set \<Rightarrow> item list \<Rightarrow> bool" where
  "well_typed seen [] \<longleftrightarrow> True"
| "well_typed seen (TypeLine n t # its) \<longleftrightarrow> n \<notin> seen \<and> well_typed (insert n seen) its"
| "well_typed seen (Sample n ls v # its) \<longleftrightarrow> (ls \<noteq> [] \<or> n \<in> fmdom' typeHints \<longrightarrow> n \<in> seen) \<and> well_typed seen its"

fun is_sample :: "item \<Rightarrow> bool" where
  "is_sample (TypeLine n t) = False"
| "is_sample (Sample n ls v) = True"

definition sample_of :: "(string \<Rightarrow> int) \<Rightarrow> string \<Rightarrow> item" where
  "sample_of val k = (case family k of (n, t, ls) \<Rightarrow> Sample n ls (decimal (val k)))"

definition typed_family :: "family \<Rightarrow> bool" where
  "typed_family f = (case f of (n, t, ls) \<Rightarrow> ls \<noteq> [] \<or> n \<in> fmdom' typeHints \<longrightarrow> t \<noteq> None)"

lemma typed_case:
  "(\<And>a. P (f a)) \<Longrightarrow> P g \<Longrightarrow> P (case r of Some [a] \<Rightarrow> f a | _ \<Rightarrow> g)"
  "(\<And>a b. P (f' a b)) \<Longrightarrow> P g \<Longrightarrow> P (case r of Some [a, b] \<Rightarrow> f' a b | _ \<Rightarrow> g)"
  "(\<And>a b c. P (f'' a b c)) \<Longrightarrow> P g \<Longrightarrow> P (case r of Some [a, b, c] \<Rightarrow> f'' a b c | _ \<Rightarrow> g)"
  by (auto split: option.splits list.splits)

lemma typed_Some: "typed_family (n, Some t, ls)"
  by (simp add: typed_family_def)

lemma typed_fallback: "typed_family (fallback k)"
  by (auto simp: fallback_def Let_def fmlookup_dom'_iff typed_family_def)

lemma typed_hist: "typed_family (hist_family k)"
  unfolding hist_family_def
  by (rule typed_case(3), rule typed_Some, rule typed_case(2), rule typed_Some, rule typed_case(2), rule typed_Some, rule typed_fallback)

lemma family_typed: "family k = (n, t, ls) \<Longrightarrow> ls \<noteq> [] \<or> n \<in> fmdom' typeHints \<Longrightarrow> t \<noteq> None"
proof -
  have "typed_family (family k)"
    unfolding family_def
    by (rule typed_case(1), rule typed_Some, rule typed_case(2), rule typed_Some, rule typed_case(1), rule typed_Some,
        rule typed_case(2), rule typed_Some, rule typed_case(2), rule typed_Some, rule typed_hist)
  then show "family k = (n, t, ls) \<Longrightarrow> ls \<noteq> [] \<or> n \<in> fmdom' typeHints \<Longrightarrow> t \<noteq> None"
    by (simp add: typed_family_def)
qed

lemma render_loop_items:
  "\<forall>k \<in> set ks. in_i64 (val k) \<Longrightarrow>
     \<exists>its. render_loop val seen ks = Ret its \<and> well_typed seen its \<and> filter is_sample its = map (sample_of val) ks"
proof (induction ks arbitrary: seen)
  case (Cons k ks)
  obtain n t ls where f: "family k = (n, t, ls)" by (cases "family k") auto
  obtain its where its: "render_loop val (if t = None then seen else insert n seen) ks = Ret its"
    "well_typed (if t = None then seen else insert n seen) its" "filter is_sample its = map (sample_of val) ks"
    using Cons by fastforce
  let ?all = "type_lines n t seen @ Sample n ls (decimal (val k)) # its"
  have "render_loop val seen (k # ks) = Ret ?all" using Cons.prems its f by (simp add: intToString_decimal)
  moreover have "well_typed seen ?all"
    using its(2) family_typed [OF f] by (auto simp: type_lines_def insert_absorb split: option.splits)
  moreover have "filter is_sample ?all = map (sample_of val) (k # ks)"
    using its(3) f by (auto simp: type_lines_def sample_of_def split: option.splits)
  ultimately show ?case by blast
qed simp

lemma Snapshot_in_i64: "registry_ok m \<Longrightarrow> in_i64 (fmget (Snapshot m) k)"
  by (auto simp: registry_ok_def counter_val_def gauge_val_def Snapshot_def fmget_def fmlookup_dom_iff split: option.splits)

lemma RenderProm_items:
  assumes "map_range rng" "registry_ok m"
  shows "\<exists>its. RenderProm rng m = Ret (concat (map item_text its)) \<and> well_typed {} its \<and>
    filter is_sample its = map (sample_of (fmget (Snapshot m))) (sorted_list_of_set (fmdom' (Snapshot m)))"
proof -
  have keys: "sort (rng 0 (fmdom' (Snapshot m))) = sorted_list_of_set (fmdom' (Snapshot m))"
    by (rule map_range.rng_sort [OF assms(1)]) simp
  obtain its where "render_loop (fmget (Snapshot m)) {} (sorted_list_of_set (fmdom' (Snapshot m))) = Ret its" "well_typed {} its"
    "filter is_sample its = map (sample_of (fmget (Snapshot m))) (sorted_list_of_set (fmdom' (Snapshot m)))"
    using render_loop_items [of "sorted_list_of_set (fmdom' (Snapshot m))" "fmget (Snapshot m)" "{}"]
      Snapshot_in_i64 [OF assms(2)] by auto
  then show ?thesis using keys by (intro exI [of _ its]) (simp add: RenderProm_def Let_def)
qed

section \<open>Labels\<close>

text \<open>A name that fits into one segment of a key.\<close>

definition segment :: "string \<Rightarrow> bool" where
  "segment s \<longleftrightarrow> s \<noteq> [] \<and> list_all no_dot s"

lemma match_cluster: "segment c \<Longrightarrow> re_match reClusterInflight (''cluster.'' @ c @ ''.inflight_requests'') = Some [c]"
  by (rule re_match_unique) (auto simp: reClusterInflight_def segment_def)

lemma match_endpoint:
  assumes "segment c" "ep \<noteq> []" "list_all no_newline ep"
  shows "re_match reEndpointInflight (''endpoint.'' @ c @ ''.'' @ ep @ ''.inflight_requests'') = Some [c, ep]"
  using assms by (intro re_match_unique) (auto simp: reEndpointInflight_def segment_def dot_unique)

lemma match_outcome:
  assumes "segment c" "segment o'"
  shows "re_match reUpOutcome (outcome_key c o') = Some [c, o']"
  using assms by (intro re_match_unique) (auto simp: reUpOutcome_def outcome_key_def segment_def dot_unique)

lemma match_downstream:
  assumes "segment (ToUpper me)" "segment c"
  shows "re_match reDownReq (downstream_key me c) = Some [ToUpper me, c]"
  using assms by (intro re_match_unique) (auto simp: reDownReq_def downstream_key_def segment_def dot_unique)

lemma match_hist:
  assumes "segment b" "segment c"
  shows "le \<noteq> [] \<Longrightarrow> list_all alnum le \<Longrightarrow> re_match reHistBucket (''hist.'' @ b @ ''.'' @ c @ ''.bucket.'' @ le) = Some [b, c, le]"
    and "re_match reHistSum (''hist.'' @ b @ ''.'' @ c @ ''.sum'') = Some [b, c]"
    and "re_match reHistCount (''hist.'' @ b @ ''.'' @ c @ ''.count'') = Some [b, c]"
    and "re_match reHistBucket (''hist.'' @ b @ ''.'' @ c @ ''.sum'') = None"
    and "re_match reHistBucket (''hist.'' @ b @ ''.'' @ c @ ''.count'') = None"
    and "re_match reHistSum (''hist.'' @ b @ ''.'' @ c @ ''.count'') = None"
proof -
  show "re_match reHistBucket (''hist.'' @ b @ ''.'' @ c @ ''.bucket.'' @ le) = Some [b, c, le]"
    if "le \<noteq> []" "list_all alnum le"
    using assms that by (intro re_match_unique) (auto simp: reHistBucket_def segment_def dot_unique)
  show "re_match reHistSum (''hist.'' @ b @ ''.'' @ c @ ''.sum'') = Some [b, c]"
    using assms by (intro re_match_unique) (auto simp: reHistSum_def segment_def dot_unique)
  show "re_match reHistCount (''hist.'' @ b @ ''.'' @ c @ ''.count'') = Some [b, c]"
    using assms by (intro re_match_unique) (auto simp: reHistCount_def segment_def dot_unique)
  show "re_match reHistBucket (''hist.'' @ b @ ''.'' @ c @ ''.sum'') = None"
    by (rule re_match_none) (use assms in \<open>auto simp: reHistBucket_def segment_def dot_unique\<close>)
  show "re_match reHistBucket (''hist.'' @ b @ ''.'' @ c @ ''.count'') = None"
    by (rule re_match_none) (use assms in \<open>auto simp: reHistBucket_def segment_def dot_unique\<close>)
  show "re_match reHistSum (''hist.'' @ b @ ''.'' @ c @ ''.count'') = None"
    by (rule re_match_none) (use assms in \<open>auto simp: reHistSum_def segment_def dot_unique\<close>)
qed

lemma hist_key_parts:
  "hist_key c suffix = ''hist.'' @ ''upstream_request_duration_ms'' @ ''.'' @ c @ suffix"
  by (simp add: hist_key_def)

lemma hist_base: "segment ''upstream_request_duration_ms''"
  by (simp add: segment_def no_dot_def)

lemma hint_eval:
  "hint ''cluster_inflight_requests'' = ''gauge''" "hint ''endpoint_inflight_requests'' = ''gauge''"
  by (code_simp, code_simp)

lemma family_cluster:
  "segment (c_Name c) \<Longrightarrow>
     family (cl_gauge c) = (''cluster_inflight_requests'', Some ''gauge'', [(''cluster'', esc (c_Name c))])"
  unfolding family_def cl_gauge_def by (simp only: match_cluster hint_eval option.case list.case)

lemma family_endpoint:
  assumes "segment c" "ep \<noteq> []" "list_all no_newline ep"
  shows "family (''endpoint.'' @ c @ ''.'' @ ep @ ''.inflight_requests'') =
    (''endpoint_inflight_requests'', Some ''gauge'', [(''cluster'', esc c), (''endpoint'', esc ep)])"
proof -
  have "re_match reClusterInflight (''endpoint.'' @ s) = None" for s by (simp add: reClusterInflight_def HasPrefix_def)
  then show ?thesis
    unfolding family_def by (simp only: match_endpoint [OF assms] hint_eval option.case list.case)
qed

lemma family_skip:
  assumes "re_match reClusterInflight k = None" "re_match reEndpointInflight k = None" "re_match reRespClass k = None"
  shows "re_match reDownReq k = Some [a, b] \<Longrightarrow>
      family k = (''downstream_http_requests_total'', Some ''counter'', [(''method'', esc a), (''cluster'', esc b)])"
    and "re_match reDownReq k = None \<Longrightarrow> re_match reUpOutcome k = Some [a, b] \<Longrightarrow>
      family k = (''upstream_requests_total'', Some ''counter'', [(''cluster'', esc a), (''outcome'', esc b)])"
    and "re_match reDownReq k = None \<Longrightarrow> re_match reUpOutcome k = None \<Longrightarrow> family k = hist_family k"
  using assms by (simp_all add: family_def)

lemma family_downstream:
  assumes "segment (ToUpper me)" "segment c"
  shows "family (downstream_key me c) =
    (''downstream_http_requests_total'', Some ''counter'', [(''method'', esc (ToUpper me)), (''cluster'', esc c)])"
  by (rule family_skip(1) [OF _ _ _ match_downstream [OF assms]]) (simp_all add: downstream_key_def re_defs HasPrefix_def)

lemma family_outcome:
  assumes "segment c" "segment o'"
  shows "family (outcome_key c o') = (''upstream_requests_total'', Some ''counter'', [(''cluster'', esc c), (''outcome'', esc o')])"
  by (rule family_skip(2) [OF _ _ _ _ match_outcome [OF assms]]) (simp_all add: outcome_key_def re_defs HasPrefix_def)

lemma family_hist: "family (hist_key c s) = hist_family (hist_key c s)"
  by (rule family_skip(3)) (simp_all add: hist_key_def re_defs HasPrefix_def)

lemma hist_family_totals:
  assumes "segment c"
  shows "hist_family (hist_key c ''.sum'') = (''upstream_request_duration_ms_sum'', Some ''histogram'', [(''cluster'', esc c)])"
    and "hist_family (hist_key c ''.count'') = (''upstream_request_duration_ms_count'', Some ''histogram'', [(''cluster'', esc c)])"
  unfolding hist_family_def hist_key_parts match_hist [OF hist_base assms] by simp_all

lemma hist_family_bucket:
  assumes "segment c" "le \<noteq> []" "list_all alnum le"
  shows "hist_family (hist_key c (''.bucket.'' @ le)) = (''upstream_request_duration_ms_bucket'', Some ''histogram'',
    [(''cluster'', esc c), (''le'', if le = ''Inf'' then ''+Inf'' else esc le)])"
  unfolding hist_family_def hist_key_parts match_hist(1) [OF hist_base assms] by simp

end
