(* ===== verification/GP_Http.thy ===== *)
theory GP_Http
  imports GP_Net
begin

text \<open>
  HTTP messages as the filters see them, and the request context (\<^verbatim>\<open>httpcm/types.go\<close>).
  A header is a finite map from names to lists of values with the operations of package
  \<^verbatim>\<open>net/http\<close>: \<^verbatim>\<open>Get\<close>, \<^verbatim>\<open>Set\<close>, \<^verbatim>\<open>Add\<close> and
  \<^verbatim>\<open>Del\<close> canonicalise the name. The contract a client of headers relies on is the locale
  \<open>header_store\<close>, interpreted on these operations. The downstream writer is the list of what was
  written to it. The body of a request is a stream that is read once: what has not been read of it,
  or a stream that was closed.
\<close>

section \<open>Headers\<close>

type_synonym Header = "(string, string list) fmap"

definition valid_field_byte :: "char \<Rightarrow> bool" where
  "valid_field_byte c \<longleftrightarrow>
     (let n = (of_char c :: nat) in
      (48 \<le> n \<and> n \<le> 57) \<or> (65 \<le> n \<and> n \<le> 90) \<or> (97 \<le> n \<and> n \<le> 122)) \<or>
     c \<in> set ''!#$%&*+-.^_`|~'' \<or> c = CHR 0x27"

fun canon_loop :: "bool \<Rightarrow> string \<Rightarrow> string" where
  "canon_loop upper [] = []"
| "canon_loop upper (c # cs) =
     (let c' = (if upper then upper_char c else lower_char c) in c' # canon_loop (c' = CHR ''-'') cs)"

text \<open>\<^verbatim>\<open>textproto.CanonicalMIMEHeaderKey\<close>: a name with an invalid byte is left as it is.\<close>

definition canon :: "string \<Rightarrow> string" where
  "canon k = (if list_all valid_field_byte k then canon_loop True k else k)"

definition hdr_values :: "Header \<Rightarrow> string \<Rightarrow> string list" where
  "hdr_values h k = (case fmlookup h (canon k) of None \<Rightarrow> [] | Some vs \<Rightarrow> vs)"

definition hdr_get :: "Header \<Rightarrow> string \<Rightarrow> string" where
  "hdr_get h k = (case hdr_values h k of [] \<Rightarrow> [] | v # _ \<Rightarrow> v)"

definition hdr_set :: "string \<Rightarrow> string \<Rightarrow> Header \<Rightarrow> Header" where
  "hdr_set k v h = fmupd (canon k) [v] h"

definition hdr_add :: "string \<Rightarrow> string \<Rightarrow> Header \<Rightarrow> Header" where
  "hdr_add k v h = fmupd (canon k) (hdr_values h k @ [v]) h"

definition hdr_del :: "string \<Rightarrow> Header \<Rightarrow> Header" where
  "hdr_del k h = fmdrop (canon k) h"

section \<open>Messages and the request context\<close>

datatype Body = NoBody | Unread string | BodyClosed

record Request =
  rq_Method :: string
  rq_Path :: string
  rq_RawQuery :: string
  rq_Host :: string
  rq_Header :: Header
  rq_Body :: Body
  rq_ProtoMajor :: int
  rq_ProtoMinor :: int
  rq_Close :: bool

record Response =
  rs_Status :: int
  rs_ProtoMajor :: int
  rs_ProtoMinor :: int
  rs_Header :: Header
  rs_ContentLength :: int
  rs_Body :: string
  rs_Close :: bool
  rs_Method :: string

text \<open>
  A response keeps of the request it answers (the field \<^verbatim>\<open>Request\<close>) the method, which decides whether
  its body is written. What was written to the downstream connection: a whole response, or one that broke off.\<close>

datatype wire = Sent Response | Aborted Response

datatype Addr = TCPAddr IP int | OtherAddr string

fun addr_string :: "Addr \<Rightarrow> string" where
  "addr_string (TCPAddr ip port) = JoinHostPort (IP_String ip) (FormatInt port)"
| "addr_string (OtherAddr s) = s"

record retryCfg =
  requestTimeout :: Duration
  perTryTimeout :: Duration
  maxRetries :: int
  idempotentOnly :: bool
  backoffBase :: Duration
  backoffMax :: Duration

record RequestCtx =
  rc_Req :: Request
  rc_Remote :: Addr
  rc_Start :: Time
  rc_W :: "wire list"
  rc_DownstreamTLS :: bool
  rc_UpstreamCluster :: string
  rc_RewritePath :: string
  rc_Responded :: bool
  rc_StatusCode :: int
  rc_UpstreamAddr :: string
  rc_RequestID :: string
  rc_RouteID :: int
  rc_RetryOverride :: "retryCfg option"

text \<open>The context a request starts with: fields that the code does not set have their zero value.\<close>

definition new_rc :: "Request \<Rightarrow> Addr \<Rightarrow> Time \<Rightarrow> bool \<Rightarrow> RequestCtx" where
  "new_rc req remote start tls =
     \<lparr>rc_Req = req, rc_Remote = remote, rc_Start = start, rc_W = [], rc_DownstreamTLS = tls,
      rc_UpstreamCluster = [], rc_RewritePath = [], rc_Responded = False, rc_StatusCode = 0,
      rc_UpstreamAddr = [], rc_RequestID = [], rc_RouteID = 0, rc_RetryOverride = None\<rparr>"

text \<open>A plain-text response of the proxy itself to a request.\<close>

definition text_response :: "Request \<Rightarrow> int \<Rightarrow> string \<Rightarrow> bool \<Rightarrow> Response" where
  "text_response req status body close =
     \<lparr>rs_Status = status, rs_ProtoMajor = rq_ProtoMajor req, rs_ProtoMinor = rq_ProtoMinor req,
      rs_Header = hdr_set ''Content-Type'' ''text/plain; charset=utf-8'' fmempty,
      rs_ContentLength = int (length body), rs_Body = body, rs_Close = close, rs_Method = rq_Method req\<rparr>"

text \<open>
  \<^verbatim>\<open>_ = resp.Write(rc.W)\<close>, whose error the filters ignore, then the two assignments that
  mark the request as answered. \<open>ok\<close> says whether the write went through.
\<close>

definition answer :: "bool \<Rightarrow> Response \<Rightarrow> RequestCtx \<Rightarrow> RequestCtx" where
  "answer ok resp rc =
     rc\<lparr>rc_W := rc_W rc @ [if ok then Sent resp else Aborted resp],
        rc_StatusCode := rs_Status resp, rc_Responded := True\<rparr>"

section \<open>The contract of a header store\<close>

locale header_store =
  fixes values_of :: "'h \<Rightarrow> string \<Rightarrow> string list"
    and set_h add_h :: "string \<Rightarrow> string \<Rightarrow> 'h \<Rightarrow> 'h" and del_h :: "string \<Rightarrow> 'h \<Rightarrow> 'h"
    and norm :: "string \<Rightarrow> string"
  assumes values_set: "values_of (set_h k v h) k' = (if norm k' = norm k then [v] else values_of h k')"
    and values_add: "values_of (add_h k v h) k' =
      (if norm k' = norm k then values_of h k @ [v] else values_of h k')"
    and values_norm: "norm k = norm k' \<Longrightarrow> values_of h k = values_of h k'"
    and values_del: "values_of (del_h k h) k' = (if norm k' = norm k then [] else values_of h k')"
begin

lemma values_add_list:
  "values_of (foldl (\<lambda>h v. add_h k v h) h vs) k' =
     (if norm k' = norm k then values_of h k @ vs else values_of h k')"
  by (induction vs arbitrary: h) (auto simp: values_add intro: values_norm)

lemma values_set_all:
  "distinct (map (norm \<circ> fst) kvs) \<Longrightarrow>
     values_of (foldl (\<lambda>h (k, v). set_h k v h) h kvs) k' =
       (case map_of (map (\<lambda>(k, v). (norm k, v)) kvs) (norm k') of
          Some v \<Rightarrow> [v] | None \<Rightarrow> values_of h k')"
proof (induction kvs arbitrary: h)
  case (Cons kv kvs)
  obtain k v where kv: "kv = (k, v)" by force
  have "map_of (map (\<lambda>(k, v). (norm k, v)) kvs) (norm k) = None"
    using Cons.prems by (auto simp: kv map_of_eq_None_iff image_iff)
  with Cons show ?case
    by (auto simp: kv values_set split: option.splits)
qed simp

end

interpretation http_header: header_store hdr_values hdr_set hdr_add hdr_del canon
  by unfold_locales (auto simp: hdr_values_def hdr_set_def hdr_add_def hdr_del_def)

lemmas hdr_simps = http_header.values_set http_header.values_add http_header.values_del

lemma hdr_get_set: "hdr_get (hdr_set k v h) k' = (if canon k' = canon k then v else hdr_get h k')"
  by (simp add: hdr_get_def hdr_simps)

section \<open>Canonical names\<close>

lemma lower_char_idem [simp]: "lower_char (lower_char c) = lower_char c"
proof -
  have "(of_char (char_of (n + 32) :: char) :: nat) = n + 32" if "65 \<le> n" "n \<le> 90" for n :: nat
    using that by simp
  then show ?thesis by (auto simp: lower_char_def Let_def)
qed

lemma lower_upper_char [simp]: "lower_char (upper_char c) = lower_char c"
proof -
  have "(of_char (char_of (n - 32) :: char) :: nat) = n - 32" if "97 \<le> n" "n \<le> 122" for n :: nat
    using that by simp
  then show ?thesis by (auto simp: lower_char_def upper_char_def Let_def)
qed

lemma upper_lower_char [simp]: "upper_char (lower_char c) = upper_char c"
proof -
  have "(of_char (char_of (n + 32) :: char) :: nat) = n + 32" if "65 \<le> n" "n \<le> 90" for n :: nat
    using that by simp
  then show ?thesis by (auto simp: lower_char_def upper_char_def Let_def)
qed

lemma ToLower_canon [simp]: "ToLower (canon k) = ToLower k"
proof -
  have "map lower_char (canon_loop b k) = map lower_char k" for b
    by (induction b k rule: canon_loop.induct) (auto simp: Let_def)
  then show ?thesis by (simp add: canon_def ToLower_def)
qed

text \<open>Two valid names have the same canonical form when they agree up to the case of letters.\<close>

lemma canon_cong_lower:
  assumes "list_all valid_field_byte k" "list_all valid_field_byte k'"
  shows "canon k = canon k' \<longleftrightarrow> ToLower k = ToLower k'"
proof
  assume "canon k = canon k'"
  then show "ToLower k = ToLower k'" by (metis ToLower_canon)
next
  have char: "lower_char c = lower_char d \<Longrightarrow> upper_char c = upper_char d" for c d
    by (metis upper_lower_char)
  have "ToLower k = ToLower k' \<Longrightarrow> canon_loop b k = canon_loop b k'" for b
  proof (induction k arbitrary: k' b)
    case Nil
    then show ?case by (simp add: ToLower_def)
  next
    case (Cons c cs)
    then obtain d ds where k': "k' = d # ds" "lower_char c = lower_char d" "ToLower cs = ToLower ds"
      by (cases k') (auto simp: ToLower_def)
    with char [OF k'(2)] Cons.IH [of ds] show ?case by (simp add: Let_def)
  qed
  then show "ToLower k = ToLower k' \<Longrightarrow> canon k = canon k'" using assms by (simp add: canon_def)
qed

end
