(* ===== verification/GP_RateLimit.thy ===== *)
theory GP_RateLimit
  imports Complex_Main GP_Http GP_Config GP_Metrics
begin

text \<open>
  The token-bucket rate limiter (\<^verbatim>\<open>httpcm/ratelimit.go\<close>). A float64 is a rational, and
  every operation on floats rounds its exact result with a function \<open>fl\<close>, an argument of the
  definitions. The invariant of a bucket needs only that rounding is monotone, leaves its own results
  alone and keeps zero (locale \<open>rounding\<close>); it is interpreted on exact arithmetic and on truncation
  to a grid. The bound on what a bucket admits is stated for exact arithmetic.
\<close>

section \<open>Buckets\<close>

record bucket =
  b_cap :: rat
  b_rate :: rat
  b_tok :: rat
  b_last :: Time

record RateLimiter =
  rl_scope :: string
  rl_global :: "bucket option"
  rl_perIP :: "(string, bucket) fmap"
  rl_defCap :: rat
  rl_defRate :: rat

definition new_bucket :: "rat \<Rightarrow> rat \<Rightarrow> Time \<Rightarrow> bucket" where
  "new_bucket cp rate now = \<lparr>b_cap = cp, b_rate = rate, b_tok = cp, b_last = now\<rparr>"

definition NewRateLimiter :: "(rat \<Rightarrow> rat) \<Rightarrow> Time \<Rightarrow> RateLimitSpec option \<Rightarrow> RateLimiter option" where
  "NewRateLimiter fl now cfg =
     (case cfg of
        None \<Rightarrow> None
      | Some c \<Rightarrow>
          if rl_RequestsPerSecond c \<le> 0 then None
          else
            (let scope = ToLower (rl_Scope c);
                 scope = (if scope = [] then ''global'' else scope);
                 defRate = fl (of_int (rl_RequestsPerSecond c));
                 defCap = fl (of_int (rl_Burst c));
                 defCap = (if defCap \<le> 0 then defRate else defCap);
                 defCap = (if defCap < 1 then 1 else defCap)
             in Some \<lparr>rl_scope = scope,
                  rl_global = (if scope = ''ip'' then None else Some (new_bucket defCap defRate now)),
                  rl_perIP = fmempty, rl_defCap = defCap, rl_defRate = defRate\<rparr>))"

text \<open>\<^verbatim>\<open>Duration.Seconds\<close> of a positive duration: whole seconds plus the fraction.\<close>

definition Seconds :: "(rat \<Rightarrow> rat) \<Rightarrow> Duration \<Rightarrow> rat" where
  "Seconds fl d = fl (fl (of_int (d div Second)) + fl (fl (of_int (d mod Second)) / 1000000000))"

definition refill :: "(rat \<Rightarrow> rat) \<Rightarrow> Time \<Rightarrow> bucket \<Rightarrow> bucket" where
  "refill fl now b =
     (if After now (b_last b)
      then (let dt = Seconds fl (SubTime now (b_last b));
                tok = fl (b_tok b + fl (dt * b_rate b));
                tok = (if b_cap b < tok then b_cap b else tok)
            in b\<lparr>b_tok := tok, b_last := now\<rparr>)
      else b)"

definition allow :: "(rat \<Rightarrow> rat) \<Rightarrow> Time \<Rightarrow> bucket \<Rightarrow> bool \<times> bucket" where
  "allow fl now b =
     (let b = refill fl now b in
      if 1 \<le> b_tok b then (True, b\<lparr>b_tok := fl (b_tok b - 1)\<rparr>) else (False, b))"

text \<open>
  The bucket of a request, created with time \<open>created\<close> when a client has none yet. The global
  bucket is a pointer that may be nil.
\<close>

definition getBucket :: "RateLimiter \<Rightarrow> string \<Rightarrow> Time \<Rightarrow> bucket option" where
  "getBucket rl ip created =
     (if rl_scope rl \<noteq> ''ip'' then rl_global rl
      else case fmlookup (rl_perIP rl) ip of
        Some b \<Rightarrow> Some b
      | None \<Rightarrow> Some (new_bucket (rl_defCap rl) (rl_defRate rl) created))"

definition store_bucket :: "RateLimiter \<Rightarrow> string \<Rightarrow> bucket \<Rightarrow> RateLimiter" where
  "store_bucket rl ip b =
     (if rl_scope rl \<noteq> ''ip'' then rl\<lparr>rl_global := Some b\<rparr>
      else rl\<lparr>rl_perIP := fmupd ip b (rl_perIP rl)\<rparr>)"

section \<open>The filter\<close>

fun client_ip :: "Addr \<Rightarrow> string" where
  "client_ip (TCPAddr ip port) = IP_String ip"
| "client_ip (OtherAddr s) = hd (SplitByte s CHR '':'')"

definition limit_ip :: "RateLimiter \<Rightarrow> RequestCtx \<Rightarrow> string" where
  "limit_ip rl rc = (if rl_scope rl = ''ip'' then client_ip (rc_Remote rc) else ''global'')"

definition RateLimiter_OnRequest :: "(rat \<Rightarrow> rat) \<Rightarrow> Time \<Rightarrow> Time \<Rightarrow> bool \<Rightarrow> RateLimiter option
    \<Rightarrow> RequestCtx \<times> registry \<Rightarrow> (RateLimiter option \<times> RequestCtx \<times> registry) go" where
  "RateLimiter_OnRequest fl created now written rlo = (\<lambda>(rc, m).
     case rlo of
       None \<Rightarrow> Ret (None, rc, m)
     | Some rl \<Rightarrow>
         (let ip = limit_ip rl rc in
          case getBucket rl ip created of
            None \<Rightarrow> Panic ''nil pointer dereference''
          | Some b \<Rightarrow>
              (let (allowed, b') = allow fl now b; rl' = store_bucket rl ip b' in
               if allowed then Ret (Some rl', rc, m)
               else Ret (Some rl',
                 answer written (text_response (rc_Req rc) 429 (''rate limited'' @ [CHR 0x0A]) True) rc,
                 Inc ''rate_limit_dropped_total'' m))))"

section \<open>Rounding\<close>

definition bucket_ok :: "(rat \<Rightarrow> rat) \<Rightarrow> bucket \<Rightarrow> bool" where
  "bucket_ok fl b \<longleftrightarrow> 1 \<le> b_cap b \<and> fl (b_cap b) = b_cap b \<and> 0 \<le> b_rate b \<and> 0 \<le> b_tok b \<and> b_tok b \<le> b_cap b"

text \<open>Every bucket of a limiter is well formed, and the limiter never meets a nil bucket.\<close>

definition limiter_ok :: "(rat \<Rightarrow> rat) \<Rightarrow> RateLimiter \<Rightarrow> bool" where
  "limiter_ok fl rl \<longleftrightarrow>
     1 \<le> rl_defCap rl \<and> fl (rl_defCap rl) = rl_defCap rl \<and> 0 \<le> rl_defRate rl \<and>
     (if rl_scope rl = ''ip'' then \<forall>ip b. fmlookup (rl_perIP rl) ip = Some b \<longrightarrow> bucket_ok fl b
      else \<exists>b. rl_global rl = Some b \<and> bucket_ok fl b)"

locale rounding =
  fixes fl :: "rat \<Rightarrow> rat"
  assumes fl_mono: "x \<le> y \<Longrightarrow> fl x \<le> fl y"
    and fl_idem: "fl (fl x) = fl x"
    and fl_0: "fl 0 = 0" and fl_1: "fl 1 = 1"
begin

lemma fl_nonneg: "0 \<le> x \<Longrightarrow> 0 \<le> fl x"
  using fl_mono [of 0 x] by (simp add: fl_0)

lemma Seconds_nonneg: "0 \<le> d \<Longrightarrow> 0 \<le> Seconds fl d"
  by (simp add: Seconds_def fl_nonneg Second_def)

lemma bucket_ok_refill: "bucket_ok fl b \<Longrightarrow> bucket_ok fl (refill fl now b)"
proof -
  assume ok: "bucket_ok fl b"
  have "0 \<le> fl (b_tok b + fl (Seconds fl (SubTime now (b_last b)) * b_rate b))" if "After now (b_last b)"
    using that ok
    by (intro fl_nonneg add_nonneg_nonneg mult_nonneg_nonneg Seconds_nonneg)
      (auto simp: bucket_ok_def After_def SubTime_def)
  with ok show ?thesis by (auto simp: refill_def Let_def bucket_ok_def)
qed

lemma bucket_ok_allow: "bucket_ok fl b \<Longrightarrow> bucket_ok fl (snd (allow fl now b))"
proof -
  assume "bucket_ok fl b"
  then have ok: "bucket_ok fl (refill fl now b)" by (rule bucket_ok_refill)
  let ?b = "refill fl now b"
  have "0 \<le> fl (b_tok ?b - 1)" if "1 \<le> b_tok ?b" using that by (intro fl_nonneg) simp
  moreover have "fl (b_tok ?b - 1) \<le> b_cap ?b"
    using fl_mono [of "b_tok ?b - 1" "b_cap ?b"] ok by (simp add: bucket_ok_def)
  ultimately show ?thesis using ok by (auto simp: allow_def Let_def bucket_ok_def)
qed

lemma bucket_ok_new:
  "1 \<le> cp \<Longrightarrow> fl cp = cp \<Longrightarrow> 0 \<le> rate \<Longrightarrow> bucket_ok fl (new_bucket cp rate now)"
  by (simp add: bucket_ok_def new_bucket_def)

lemma limiter_ok_new: "NewRateLimiter fl now cfg = Some rl \<Longrightarrow> limiter_ok fl rl"
proof -
  assume new: "NewRateLimiter fl now cfg = Some rl"
  then obtain c where c: "cfg = Some c" "0 < rl_RequestsPerSecond c"
    by (auto simp: NewRateLimiter_def split: option.splits if_splits)
  have rate: "0 \<le> fl (of_int (rl_RequestsPerSecond c))" using c(2) by (intro fl_nonneg) simp
  show ?thesis
    using new c rate
    by (auto simp: NewRateLimiter_def Let_def limiter_ok_def fl_idem fl_1 intro!: bucket_ok_new)
qed

lemma getBucket_ok: "limiter_ok fl rl \<Longrightarrow> \<exists>b. getBucket rl ip created = Some b \<and> bucket_ok fl b"
  by (auto simp: limiter_ok_def getBucket_def bucket_ok_new split: option.splits if_splits)

lemma limiter_ok_store: "limiter_ok fl rl \<Longrightarrow> bucket_ok fl b \<Longrightarrow> limiter_ok fl (store_bucket rl ip b)"
  by (auto simp: limiter_ok_def store_bucket_def split: if_splits)

lemma limiter_run:
  assumes "limiter_ok fl rl"
  shows "\<exists>rl' rc' m'. RateLimiter_OnRequest fl created now written (Some rl) (rc, m) = Ret (Some rl', rc', m') \<and> limiter_ok fl rl'"
proof -
  obtain b where b: "getBucket rl (limit_ip rl rc) created = Some b" "bucket_ok fl b"
    using getBucket_ok [OF assms] by blast
  have "limiter_ok fl (store_bucket rl (limit_ip rl rc) (snd (allow fl now b)))"
    using assms b(2) by (intro limiter_ok_store bucket_ok_allow)
  with b(1) show ?thesis by (auto simp: RateLimiter_OnRequest_def Let_def case_prod_beta)
qed

end

text \<open>Exact arithmetic.\<close>

definition ideal :: "rat \<Rightarrow> rat" where
  "ideal x = x"

interpretation ideal: rounding ideal
  by unfold_locales (simp_all add: ideal_def)

definition grid :: "nat \<Rightarrow> rat \<Rightarrow> rat" where
  "grid k x = of_int \<lfloor>x * 2 ^ k\<rfloor> / 2 ^ k"

interpretation grid: rounding "grid k" for k
proof unfold_locales
  show "grid k x \<le> grid k y" if "x \<le> y" for x y
    using that by (simp add: grid_def divide_right_mono floor_mono mult_right_mono)
  show "grid k (grid k x) = grid k x" for x by (simp add: grid_def)
  show "grid k 0 = 0" by (simp add: grid_def)
  have "(1 :: rat) * 2 ^ k = of_int (2 ^ k)" by simp
  then have "\<lfloor>(1 :: rat) * 2 ^ k\<rfloor> = 2 ^ k" by (metis floor_of_int)
  then show "grid k 1 = 1" by (simp add: grid_def)
qed

section \<open>What a bucket admits\<close>

text \<open>Requests at the given times, and how many of them are admitted.\<close>

fun admit_run :: "(rat \<Rightarrow> rat) \<Rightarrow> bucket \<Rightarrow> Time list \<Rightarrow> nat \<times> bucket" where
  "admit_run fl b [] = (0, b)"
| "admit_run fl b (t # ts) =
     (case allow fl t b of (ok, b') \<Rightarrow>
        case admit_run fl b' ts of (n, b'') \<Rightarrow> (if ok then Suc n else n, b''))"

context rounding
begin

lemma bucket_ok_run: "bucket_ok fl b \<Longrightarrow> bucket_ok fl (snd (admit_run fl b ts))"
proof (induction ts arbitrary: b)
  case (Cons t ts)
  then show ?case using bucket_ok_allow [of b t] by (auto split: prod.splits) (metis snd_conv)+
qed simp

end

lemma Seconds_exact: "Seconds ideal d = of_int d / 1000000000"
proof -
  have "(of_int d :: rat) = of_int (d div Second) * 1000000000 + of_int (d mod Second)"
    using div_mult_mod_eq [of d Second] unfolding Second_def
    by (metis of_int_add of_int_mult of_int_numeral)
  then show ?thesis by (simp add: Seconds_def ideal_def field_simps)
qed

lemma refill_exact:
  assumes "0 \<le> b_rate b"
  shows "b_tok (refill ideal now b) \<le> b_tok b + b_rate b * of_int (b_last (refill ideal now b) - b_last b) / 1000000000"
    and "b_rate (refill ideal now b) = b_rate b" and "b_last (refill ideal now b) = max (b_last b) now"
    and "b_cap (refill ideal now b) = b_cap b"
proof -
  have "(of_int (SubTime now (b_last b)) :: rat) \<le> of_int (now - b_last b)" if "b_last b < now"
    using that by (simp only: of_int_le_iff) (simp add: SubTime_def)
  then have "of_int (SubTime now (b_last b)) / 1000000000 * b_rate b \<le>
      b_rate b * of_int (now - b_last b) / 1000000000" if "b_last b < now"
    using that assms by (simp add: mult.commute mult_left_mono divide_right_mono)
  then show "b_tok (refill ideal now b) \<le> b_tok b + b_rate b * of_int (b_last (refill ideal now b) - b_last b) / 1000000000"
    by (auto simp: refill_def Let_def After_def Seconds_exact ideal_def)
  show "b_rate (refill ideal now b) = b_rate b" "b_last (refill ideal now b) = max (b_last b) now"
    "b_cap (refill ideal now b) = b_cap b"
    by (auto simp: refill_def Let_def After_def)
qed

lemma allow_exact:
  assumes "0 \<le> b_rate b" "allow ideal now b = (ok, b')"
  shows "of_bool ok + b_tok b' \<le> b_tok b + b_rate b * of_int (b_last b' - b_last b) / 1000000000"
    and "b_rate b' = b_rate b" and "b_last b' = max (b_last b) now" and "b_cap b' = b_cap b"
  using assms refill_exact [OF assms(1), of now]
  by (auto simp: allow_def Let_def ideal_def split: if_splits)

lemma admit_run_bound:
  assumes "0 \<le> b_rate b" "admit_run ideal b ts = (n, b')"
  shows "of_nat n + b_tok b' \<le> b_tok b + b_rate b * of_int (b_last b' - b_last b) / 1000000000 \<and>
    b_rate b' = b_rate b \<and> b_last b' = foldl max (b_last b) ts"
  using assms
proof (induction ts arbitrary: b n)
  case Nil
  then show ?case by simp
next
  case (Cons t ts)
  obtain ok b1 where a: "allow ideal t b = (ok, b1)" by force
  obtain k where r: "admit_run ideal b1 ts = (k, b')" and n: "n = (if ok then Suc k else k)"
    using Cons.prems(2) a by (auto split: prod.splits)
  note step = allow_exact [OF Cons.prems(1) a]
  have IH: "of_nat k + b_tok b' \<le> b_tok b1 + b_rate b * of_int (b_last b' - b_last b1) / 1000000000"
    "b_rate b' = b_rate b" "b_last b' = foldl max (b_last b1) ts"
    using Cons.IH [OF _ r] Cons.prems(1) step(2) by auto
  have "b_rate b * of_int (b_last b' - b_last b) / 1000000000 =
      b_rate b * of_int (b_last b1 - b_last b) / 1000000000 + b_rate b * of_int (b_last b' - b_last b1) / 1000000000"
    by (simp add: field_simps)
  moreover have "(of_nat n :: rat) = of_bool ok + of_nat k" using n by simp
  ultimately have "of_nat n + b_tok b' \<le> b_tok b + b_rate b * of_int (b_last b' - b_last b) / 1000000000"
    using IH(1) step(1) by linarith
  with IH(2,3) step(3) show ?case by simp
qed

lemma allow_after_idle:
  assumes "1 \<le> b_cap b" "0 \<le> b_tok b" "b_last b < now" "now - b_last b < 2 ^ 63"
    and "1000000000 \<le> b_rate b * of_int (now - b_last b)"
  shows "fst (allow ideal now b)"
proof -
  have sub: "SubTime now (b_last b) = now - b_last b" using assms(3,4) by (simp add: SubTime_def)
  have "1 \<le> of_int (now - b_last b) / 1000000000 * b_rate b"
    using assms(5) by (simp add: field_simps)
  then have "1 \<le> b_tok (refill ideal now b)"
    using assms(1-3) by (auto simp: refill_def Let_def After_def Seconds_exact sub ideal_def)
  then show ?thesis by (simp add: allow_def Let_def)
qed

section \<open>Clients are kept apart\<close>

lemma store_other: "ip' \<noteq> ip \<Longrightarrow> rl_scope rl = ''ip'' \<Longrightarrow> getBucket (store_bucket rl ip b) ip' t = getBucket rl ip' t"
  by (simp add: getBucket_def store_bucket_def split: option.splits)

lemma client_ip_v6: "CHR '':'' \<notin> set g \<Longrightarrow> client_ip (OtherAddr (''['' @ g @ '':'' @ rest)) = ''['' @ g"
proof -
  have "hd (SplitByte (g @ CHR '':'' # rest) CHR '':'') = g" if "CHR '':'' \<notin> set g" for g
    using that by (induction g) (auto split: list.splits)
  from this [of "''['' @ g"] show "CHR '':'' \<notin> set g \<Longrightarrow> ?thesis" by simp
qed

end
