(* ===== verification/GP_Router.thy ===== *)
theory GP_Router
  imports GP_Http GP_Config
begin

text \<open>
  The router (\<^verbatim>\<open>httpcm/router.go\<close>) and the per-route options
  (\<^verbatim>\<open>httpcm/routeopts.go\<close>). The router takes the first route whose prefix matches and
  computes the rewritten path; the options filter applies the header rules and the retry override
  of that route. The specification of the router is \<open>first_match\<close> and \<open>rewritten\<close>; the header
  after the options filter is described name by name.
\<close>

section \<open>Router\<close>

text \<open>The path forwarded for a route that matched, if the route rewrites it.\<close>

definition route_path :: "string \<Rightarrow> RouteRule \<Rightarrow> string \<Rightarrow> string" where
  "route_path path rr old =
     (let remainder = TrimPrefix path (rr_Prefix rr);
          remainder = (if remainder = [] then ''/''
                       else if \<not> HasPrefix remainder ''/'' then ''/'' @ remainder else remainder)
      in if rr_PrefixRewrite rr \<noteq> [] then
           (let base = rr_PrefixRewrite rr;
                base = (if base = [] then ''/'' else base);
                base = (if \<not> HasPrefix base ''/'' then ''/'' @ base else base)
            in if HasSuffix base ''/'' \<and> HasPrefix remainder ''/''
               then take (length base - 1) base @ remainder
               else base @ remainder)
         else if rr_StripPrefix rr then remainder
         else old)"

fun route_loop :: "string \<Rightarrow> nat \<Rightarrow> RouteRule list \<Rightarrow> RequestCtx \<Rightarrow> RequestCtx" where
  "route_loop path i [] rc = rc"
| "route_loop path i (rr # rrs) rc =
     (let rc = (if rr_Prefix rr = ''/'' \<and> rr_Cluster rr \<noteq> [] \<and> rc_UpstreamCluster rc = []
                then rc\<lparr>rc_UpstreamCluster := rr_Cluster rr\<rparr> else rc)
      in if HasPrefix path (rr_Prefix rr)
         then rc\<lparr>rc_UpstreamCluster := rr_Cluster rr, rc_RouteID := int i,
                 rc_RewritePath := route_path path rr (rc_RewritePath rc)\<rparr>
         else route_loop path (Suc i) rrs rc)"

definition Router_OnRequest :: "RouteRule list \<Rightarrow> RequestCtx \<Rightarrow> RequestCtx" where
  "Router_OnRequest routes rc = route_loop (rq_Path (rc_Req rc)) 0 routes rc"

section \<open>Route options\<close>

definition toDurMs :: "int \<Rightarrow> Duration" where
  "toDurMs ms = dur_of ms Millisecond"

record RouteOptionsFilter =
  ro_retry :: "(nat, retryCfg) fmap"
  ro_hdrSet :: "(nat, (string, string) fmap) fmap"
  ro_hdrDrop :: "(nat, string set) fmap"
  ro_hostRewrite :: "(nat, string) fmap"

definition route_retry :: "RetryPolicy \<Rightarrow> retryCfg" where
  "route_retry p =
     \<lparr>requestTimeout = (if 0 < rp_RequestTimeoutMs p then toDurMs (rp_RequestTimeoutMs p) else 0),
      perTryTimeout = (if 0 < rp_PerTryTimeoutMs p then toDurMs (rp_PerTryTimeoutMs p) else 0),
      maxRetries = (if 0 < rp_MaxRetries p then rp_MaxRetries p else 0),
      idempotentOnly = True,
      backoffBase = (if 0 < rp_BackoffBaseMs p then toDurMs (rp_BackoffBaseMs p) else 0),
      backoffMax = (if 0 < rp_BackoffMaxMs p then toDurMs (rp_BackoffMaxMs p) else 0)\<rparr>"

definition route_option :: "nat \<Rightarrow> RouteRule \<Rightarrow> RouteOptionsFilter \<Rightarrow> RouteOptionsFilter" where
  "route_option i rr f =
     (let f = (case rr_RetryPolicy rr of
                 None \<Rightarrow> f
               | Some p \<Rightarrow> f\<lparr>ro_retry := fmupd i (route_retry p) (ro_retry f)\<rparr>);
          f = (if rr_HostRewrite rr \<noteq> []
               then f\<lparr>ro_hostRewrite := fmupd i (rr_HostRewrite rr) (ro_hostRewrite f)\<rparr> else f);
          f = (if rr_SetHeaders rr \<noteq> fmempty
               then f\<lparr>ro_hdrSet := fmupd i (rr_SetHeaders rr) (ro_hdrSet f)\<rparr> else f)
      in if rr_RemoveHeaders rr \<noteq> []
         then f\<lparr>ro_hdrDrop := fmupd i (set (map ToLower (rr_RemoveHeaders rr))) (ro_hdrDrop f)\<rparr> else f)"

fun route_options :: "nat \<Rightarrow> RouteRule list \<Rightarrow> RouteOptionsFilter \<Rightarrow> RouteOptionsFilter" where
  "route_options i [] f = f"
| "route_options i (rr # rrs) f = route_options (Suc i) rrs (route_option i rr f)"

definition NewRouteOptionsFilter :: "RouteRule list \<Rightarrow> RouteOptionsFilter" where
  "NewRouteOptionsFilter routes =
     route_options 0 routes
       \<lparr>ro_retry = fmempty, ro_hdrSet = fmempty, ro_hdrDrop = fmempty, ro_hostRewrite = fmempty\<rparr>"

text \<open>The two loops over maps: rules to set, and header names to drop.\<close>

definition set_headers :: "key_order \<Rightarrow> (string, string) fmap \<Rightarrow> Header \<Rightarrow> Header" where
  "set_headers rng rules h =
     foldl (\<lambda>h k. case fmlookup rules k of None \<Rightarrow> h | Some v \<Rightarrow> hdr_set k v h) h (rng 0 (fmdom' rules))"

definition drop_headers :: "key_order \<Rightarrow> string set \<Rightarrow> Header \<Rightarrow> Header" where
  "drop_headers rng names h =
     foldl (\<lambda>h k. if ToLower k \<in> names then hdr_del k h else h) h (rng 1 (fmdom' h))"

definition RouteOptions_OnRequest :: "key_order \<Rightarrow> RouteOptionsFilter \<Rightarrow> RequestCtx \<Rightarrow> RequestCtx" where
  "RouteOptions_OnRequest rng f rc =
     (if rc_RouteID rc < 0 then rc
      else
        (let i = nat (rc_RouteID rc);
             req = rc_Req rc;
             req = (case fmlookup (ro_hostRewrite f) i of
                      Some host \<Rightarrow> if host \<noteq> [] then req\<lparr>rq_Host := host\<rparr> else req
                    | None \<Rightarrow> req);
             req = (case fmlookup (ro_hdrSet f) i of
                      Some rules \<Rightarrow> if rules \<noteq> fmempty
                        then req\<lparr>rq_Header := set_headers rng rules (rq_Header req)\<rparr> else req
                    | None \<Rightarrow> req);
             req = (case fmlookup (ro_hdrDrop f) i of
                      Some names \<Rightarrow> if names \<noteq> {}
                        then req\<lparr>rq_Header := drop_headers rng names (rq_Header req)\<rparr> else req
                    | None \<Rightarrow> req);
             rc = rc\<lparr>rc_Req := req\<rparr>
         in (case fmlookup (ro_retry f) i of
               Some ro \<Rightarrow> rc\<lparr>rc_RetryOverride := Some ro\<rparr>
             | None \<Rightarrow> rc)))"

section \<open>Specification of the router\<close>

fun first_match :: "string \<Rightarrow> RouteRule list \<Rightarrow> nat option" where
  "first_match path [] = None"
| "first_match path (rr # rrs) =
     (if HasPrefix path (rr_Prefix rr) then Some 0 else map_option Suc (first_match path rrs))"

fun catch_all :: "RouteRule list \<Rightarrow> string" where
  "catch_all [] = []"
| "catch_all (rr # rrs) =
     (if rr_Prefix rr = ''/'' \<and> rr_Cluster rr \<noteq> [] then rr_Cluster rr else catch_all rrs)"

definition with_slash :: "string \<Rightarrow> string" where
  "with_slash s = (if HasPrefix s ''/'' then s else ''/'' @ s)"

definition no_slash_end :: "string \<Rightarrow> string" where
  "no_slash_end s = (if HasSuffix s ''/'' then butlast s else s)"

text \<open>The matched prefix replaced, and exactly one slash where the two parts meet.\<close>

definition rewritten :: "RouteRule \<Rightarrow> string \<Rightarrow> string" where
  "rewritten rr rest =
     (if rr_PrefixRewrite rr \<noteq> [] then no_slash_end (with_slash (rr_PrefixRewrite rr)) @ with_slash rest
      else if rr_StripPrefix rr then with_slash rest
      else [])"

lemma first_match_Some:
  "first_match path rs = Some i \<longleftrightarrow>
     i < length rs \<and> HasPrefix path (rr_Prefix (rs ! i)) \<and> (\<forall>j < i. \<not> HasPrefix path (rr_Prefix (rs ! j)))"
proof (induction rs arbitrary: i)
  case (Cons rr rrs)
  show ?case
    by (cases i) (auto simp: Cons.IH less_Suc_eq_0_disj)
qed simp

lemma first_match_None: "first_match path rs = None \<longleftrightarrow> (\<forall>rr \<in> set rs. \<not> HasPrefix path (rr_Prefix rr))"
  by (induction rs) auto

lemma route_path_rewritten:
  assumes "path = rr_Prefix rr @ rest"
  shows "route_path path rr [] = rewritten rr rest"
proof -
  have slash: "(if rest = [] then ''/'' else if \<not> HasPrefix rest ''/'' then ''/'' @ rest else rest) = with_slash rest"
    by (auto simp: with_slash_def HasPrefix_def)
  have "HasPrefix (with_slash rest) ''/''" by (simp add: with_slash_def HasPrefix_single)
  moreover have "take (length b - 1) b = butlast b" for b :: string by (simp add: butlast_conv_take)
  ultimately show ?thesis
    by (simp add: route_path_def rewritten_def slash assms Let_def no_slash_end_def with_slash_def [of "rr_PrefixRewrite rr"])
qed

text \<open>What the loop leaves of a context, and what it sets.\<close>

lemma route_loop_spec:
  "route_loop path i rs rc =
     (case first_match path rs of
        Some k \<Rightarrow> rc\<lparr>rc_UpstreamCluster := rr_Cluster (rs ! k), rc_RouteID := int (i + k),
                    rc_RewritePath := route_path path (rs ! k) (rc_RewritePath rc)\<rparr>
      | None \<Rightarrow> rc\<lparr>rc_UpstreamCluster :=
                  (if rc_UpstreamCluster rc = [] then catch_all rs else rc_UpstreamCluster rc)\<rparr>)"
proof (induction path i rs rc rule: route_loop.induct)
  case (2 path i rr rrs rc)
  show ?case
  proof (cases "HasPrefix path (rr_Prefix rr)")
    case True
    then show ?thesis by (simp add: Let_def)
  next
    case False
    then show ?thesis using "2.IH" [OF refl False] by (auto simp: Let_def split: option.splits)
  qed
qed simp

section \<open>Headers with canonical names\<close>

definition hdr_ok :: "Header \<Rightarrow> bool" where
  "hdr_ok h \<longleftrightarrow> (\<forall>k \<in> fmdom' h. canon k = k)"

lemma upper_char_idem [simp]: "upper_char (upper_char c) = upper_char c"
  by (metis lower_upper_char upper_lower_char)

lemma valid_field_case [simp]:
  "valid_field_byte c \<Longrightarrow> valid_field_byte (upper_char c)" "valid_field_byte c \<Longrightarrow> valid_field_byte (lower_char c)"
proof -
  have "(of_char (char_of (n - 32) :: char) :: nat) = n - 32" if "97 \<le> n" "n \<le> 122" for n :: nat
    using that by simp
  then show "valid_field_byte c \<Longrightarrow> valid_field_byte (upper_char c)"
    by (auto simp: valid_field_byte_def upper_char_def Let_def)
  have "(of_char (char_of (n + 32) :: char) :: nat) = n + 32" if "65 \<le> n" "n \<le> 90" for n :: nat
    using that by simp
  then show "valid_field_byte c \<Longrightarrow> valid_field_byte (lower_char c)"
    by (auto simp: valid_field_byte_def lower_char_def Let_def)
qed

lemma canon_idem [simp]: "canon (canon k) = canon k"
proof -
  have "list_all valid_field_byte k \<Longrightarrow> list_all valid_field_byte (canon_loop b k)" for b
    by (induction b k rule: canon_loop.induct) (auto simp: Let_def)
  moreover have "canon_loop b (canon_loop b k) = canon_loop b k" for b
    by (induction b k rule: canon_loop.induct) (auto simp: Let_def)
  ultimately show ?thesis by (simp add: canon_def)
qed

lemma hdr_ok_set: "hdr_ok h \<Longrightarrow> hdr_ok (hdr_set k v h)"
  by (auto simp: hdr_ok_def hdr_set_def)

lemma hdr_ok_add: "hdr_ok h \<Longrightarrow> hdr_ok (hdr_add k v h)"
  by (auto simp: hdr_ok_def hdr_add_def)

lemma hdr_ok_empty [simp]: "hdr_ok fmempty"
  by (simp add: hdr_ok_def)

lemma set_fold_values:
  assumes "distinct ks" "inj_on canon (set ks)" "set ks \<subseteq> fmdom' rules"
  shows "hdr_values (foldl (\<lambda>h k. case fmlookup rules k of None \<Rightarrow> h | Some v \<Rightarrow> hdr_set k v h) h ks) k' =
    (if canon k' \<in> canon ` set ks
     then [the (fmlookup rules (the_inv_into (set ks) canon (canon k')))] else hdr_values h k')"
  using assms
proof (induction ks rule: rev_induct)
  case (snoc k ks)
  obtain v where v: "fmlookup rules k = Some v" using snoc.prems(3) by (auto simp: fmlookup_dom'_iff)
  have new: "canon k \<notin> canon ` set ks" using snoc.prems(1,2) by (auto simp: inj_on_def)
  have "the_inv_into (set (ks @ [k])) canon (canon k) = k"
    by (rule the_inv_into_f_f [OF snoc.prems(2)]) simp
  moreover have "the_inv_into (set (ks @ [k])) canon (canon k') = the_inv_into (set ks) canon (canon k')"
    if mem: "canon k' \<in> canon ` set ks"
  proof -
    obtain r where r: "r \<in> set ks" "canon k' = canon r" using mem by auto
    have "inj_on canon (set ks)" using snoc.prems(2) by (auto intro: inj_on_subset)
    then show ?thesis
      using r the_inv_into_f_f [OF snoc.prems(2), of r] the_inv_into_f_f [of canon "set ks" r] by simp
  qed
  moreover have "inj_on canon (set ks)" using snoc.prems(2) by (auto intro: inj_on_subset)
  ultimately show ?case
    using snoc new v by (auto simp: http_header.values_set)
qed simp

lemma hdr_ok_set_headers: "hdr_ok h \<Longrightarrow> hdr_ok (set_headers rng rules h)"
proof -
  have "hdr_ok h \<Longrightarrow> hdr_ok (foldl (\<lambda>h k. case fmlookup rules k of None \<Rightarrow> h | Some v \<Rightarrow> hdr_set k v h) h ks)" for ks
    by (induction ks arbitrary: h) (auto simp: hdr_ok_set split: option.splits)
  then show "hdr_ok h \<Longrightarrow> hdr_ok (set_headers rng rules h)" by (simp add: set_headers_def)
qed

lemma set_headers_values:
  assumes "map_range rng" "inj_on canon (fmdom' rules)"
  shows "r \<in> fmdom' rules \<Longrightarrow> canon r = canon k \<Longrightarrow> hdr_values (set_headers rng rules h) k = [the (fmlookup rules r)]"
    and "canon k \<notin> canon ` fmdom' rules \<Longrightarrow> hdr_values (set_headers rng rules h) k = hdr_values h k"
proof -
  have ks: "distinct (rng 0 (fmdom' rules))" "set (rng 0 (fmdom' rules)) = fmdom' rules"
    using map_range.rng_distinct [OF assms(1)] map_range.rng_set [OF assms(1)] by auto
  note vals = set_fold_values [OF ks(1), of rules h k, unfolded ks(2), OF assms(2) order_refl,
      folded set_headers_def]
  show "hdr_values (set_headers rng rules h) k = [the (fmlookup rules r)]"
    if "r \<in> fmdom' rules" "canon r = canon k"
  proof -
    have "canon k \<in> canon ` fmdom' rules" using that by (metis image_eqI)
    moreover have "the_inv_into (fmdom' rules) canon (canon k) = r"
      using the_inv_into_f_f [OF assms(2) that(1)] that(2) by simp
    ultimately show ?thesis using vals by simp
  qed
  show "hdr_values (set_headers rng rules h) k = hdr_values h k" if "canon k \<notin> canon ` fmdom' rules"
    using vals that by simp
qed

lemma drop_fold_values:
  "hdr_values (foldl (\<lambda>h k. if ToLower k \<in> names then hdr_del k h else h) h ks) k' =
     (if \<exists>k \<in> set ks. ToLower k \<in> names \<and> canon k = canon k' then [] else hdr_values h k')"
  by (induction ks arbitrary: h) (auto simp: http_header.values_del)

lemma drop_headers_values:
  assumes "map_range rng" "hdr_ok h"
  shows "hdr_values (drop_headers rng names h) k = (if ToLower k \<in> names then [] else hdr_values h k)"
proof -
  have ks: "set (rng 1 (fmdom' h)) = fmdom' h" using map_range.rng_set [OF assms(1)] by simp
  have low: "ToLower r = ToLower k" if "canon r = canon k" for r by (metis that ToLower_canon)
  show ?thesis
  proof (cases "ToLower k \<in> names \<and> canon k \<in> fmdom' h")
    case True
    then have "\<exists>r \<in> fmdom' h. ToLower r \<in> names \<and> canon r = canon k"
      by (intro bexI [of _ "canon k"]) simp_all
    with True show ?thesis unfolding drop_headers_def drop_fold_values ks by simp
  next
    case False
    then have "(if ToLower k \<in> names then [] else hdr_values h k) = hdr_values h k"
      by (auto simp: hdr_values_def fmdom'_notD)
    moreover have "\<not> (\<exists>r \<in> fmdom' h. ToLower r \<in> names \<and> canon r = canon k)"
      using False low assms(2) by (metis hdr_ok_def)
    ultimately show ?thesis unfolding drop_headers_def drop_fold_values ks by auto
  qed
qed

section \<open>The options of a route\<close>

text \<open>The tables of the filter hold, at each index, what the route at that index configures.\<close>

definition route_opts_at :: "RouteOptionsFilter \<Rightarrow> nat \<Rightarrow> RouteRule option \<Rightarrow> bool" where
  "route_opts_at f i ro \<longleftrightarrow>
     fmlookup (ro_retry f) i = Option.bind ro (\<lambda>rr. map_option route_retry (rr_RetryPolicy rr)) \<and>
     fmlookup (ro_hostRewrite f) i =
       Option.bind ro (\<lambda>rr. if rr_HostRewrite rr = [] then None else Some (rr_HostRewrite rr)) \<and>
     fmlookup (ro_hdrSet f) i =
       Option.bind ro (\<lambda>rr. if rr_SetHeaders rr = fmempty then None else Some (rr_SetHeaders rr)) \<and>
     fmlookup (ro_hdrDrop f) i =
       Option.bind ro (\<lambda>rr. if rr_RemoveHeaders rr = [] then None
                            else Some (ToLower ` set (rr_RemoveHeaders rr)))"

lemma route_option_other: "j \<noteq> i \<Longrightarrow> route_opts_at (route_option i rr f) j ro = route_opts_at f j ro"
  by (auto simp: route_opts_at_def route_option_def Let_def split: option.splits)

lemma route_option_same: "route_opts_at f i None \<Longrightarrow> route_opts_at (route_option i rr f) i (Some rr)"
  by (auto simp: route_opts_at_def route_option_def Let_def split: option.splits)

lemma route_options_at:
  "(\<And>j. i \<le> j \<Longrightarrow> route_opts_at f j None) \<Longrightarrow>
     route_opts_at (route_options i rs f) (i + k) (if k < length rs then Some (rs ! k) else None) \<and>
     (\<forall>j < i. \<forall>ro. route_opts_at (route_options i rs f) j ro = route_opts_at f j ro)"
proof (induction i rs f arbitrary: k rule: route_options.induct)
  case (2 i rr rrs f)
  have rest: "route_opts_at (route_option i rr f) j None" if "Suc i \<le> j" for j
    using 2(2) [of j] that by (simp add: route_option_other)
  note IH = 2(1) [OF rest]
  show ?case
  proof (cases k)
    case 0
    then show ?thesis
      using IH [of 0] 2(2) [of i] by (auto simp: route_option_same route_option_other)
  next
    case (Suc m)
    then show ?thesis using IH [of m] by (auto simp: route_option_other)
  qed
qed simp

lemma NewRouteOptionsFilter_at:
  "route_opts_at (NewRouteOptionsFilter rs) k (if k < length rs then Some (rs ! k) else None)"
proof -
  have "route_opts_at \<lparr>ro_retry = fmempty, ro_hdrSet = fmempty, ro_hdrDrop = fmempty, ro_hostRewrite = fmempty\<rparr> j None" for j
    by (simp add: route_opts_at_def)
  from route_options_at [OF this, of 0 rs k] show ?thesis by (simp add: NewRouteOptionsFilter_def)
qed

end
