(* ===== verification/GP_Forwarded.thy ===== *)
theory GP_Forwarded
  imports GP_RateLimit GP_Router
begin

text \<open>
  The forwarded-headers filter (\<^verbatim>\<open>httpcm/forwarded.go\<close>). \<open>rand\<close> is what
  \<^verbatim>\<open>crypto/rand.Read\<close> gives: 16 bytes, or \<open>None\<close> for an error.
\<close>

section \<open>The filter\<close>

definition hex_byte :: "nat \<Rightarrow> string" where
  "hex_byte n = [digit_char (n div 16), digit_char (n mod 16)]"

definition genID :: "nat list option \<Rightarrow> string" where
  "genID rand =
     (case rand of
        None \<Rightarrow> ''00000000000000000000000000000000''
      | Some bs \<Rightarrow> concat (map hex_byte bs))"

definition remote_ip :: "Addr \<Rightarrow> string" where
  "remote_ip a =
     (let ip = (case a of TCPAddr ip _ \<Rightarrow> IP_String ip | OtherAddr _ \<Rightarrow> [])
      in if ip = [] then hd (SplitByte (addr_string a) CHR '':'') else ip)"

definition xff :: "string \<Rightarrow> Header \<Rightarrow> Header" where
  "xff ip h =
     (if ip \<noteq> [] then
        (let xf = hdr_get h ''X-Forwarded-For'' in
         if xf \<noteq> [] then hdr_set ''X-Forwarded-For'' (xf @ '', '' @ ip) h
         else hdr_set ''X-Forwarded-For'' ip h)
      else h)"

definition via :: "string \<Rightarrow> Request \<Rightarrow> Header \<Rightarrow> Header" where
  "via proxyName req h =
     (let viaVal = TrimSpace (hdr_get h ''Via'');
          me = TrimSpace (FormatInt (rq_ProtoMajor req) @ ''.'' @ FormatInt (rq_ProtoMinor req) @ '' '' @ proxyName)
      in if viaVal = [] then hdr_set ''Via'' me h else hdr_set ''Via'' (viaVal @ '', '' @ me) h)"

definition ForwardedHeaders_OnRequest :: "string \<Rightarrow> nat list option \<Rightarrow> RequestCtx \<Rightarrow> RequestCtx" where
  "ForwardedHeaders_OnRequest proxyName rand rc =
     (let h = xff (remote_ip (rc_Remote rc)) (rq_Header (rc_Req rc));
          h = hdr_set ''X-Forwarded-Proto'' (if rc_DownstreamTLS rc then ''https'' else ''http'') h;
          h = via proxyName (rc_Req rc) h;
          rid = hdr_get h ''X-Request-Id'';
          (rid, h) = (if rid = [] then (let rid = genID rand in (rid, hdr_set ''X-Request-Id'' rid h)) else (rid, h))
      in rc\<lparr>rc_Req := (rc_Req rc)\<lparr>rq_Header := h\<rparr>, rc_RequestID := rid\<rparr>)"

section \<open>Names and values\<close>

text \<open>The names the filter sets are in canonical form, and distinct.\<close>

lemma canon_xff [simp]: "canon ''X-Forwarded-For'' = ''X-Forwarded-For''"
  by code_simp

lemma canon_xfp [simp]: "canon ''X-Forwarded-Proto'' = ''X-Forwarded-Proto''"
  by code_simp

lemma canon_via [simp]: "canon ''Via'' = ''Via''"
  by code_simp

lemma canon_rid [simp]: "canon ''X-Request-Id'' = ''X-Request-Id''"
  by code_simp

lemma genID_length: "(\<And>bs. rand = Some bs \<Longrightarrow> length bs = 16) \<Longrightarrow> length (genID rand) = 32"
proof -
  have "length (concat (map hex_byte bs)) = 2 * length bs" for bs
    by (induction bs) (simp_all add: hex_byte_def)
  then show "(\<And>bs. rand = Some bs \<Longrightarrow> length bs = 16) \<Longrightarrow> length (genID rand) = 32"
    by (auto simp: genID_def split: option.splits)
qed

lemma xff_values:
  "hdr_values (xff ip h) k =
     (if ip \<noteq> [] \<and> canon k = ''X-Forwarded-For''
      then [(if hdr_get h ''X-Forwarded-For'' = [] then [] else hdr_get h ''X-Forwarded-For'' @ '', '') @ ip]
      else hdr_values h k)"
  by (simp add: xff_def Let_def http_header.values_set)

lemma via_values: "canon k \<noteq> ''Via'' \<Longrightarrow> hdr_values (via name req h) k = hdr_values h k"
  by (simp add: via_def Let_def http_header.values_set)

text \<open>The header the filter has built when it looks at the request id.\<close>

definition before_rid :: "string \<Rightarrow> RequestCtx \<Rightarrow> Header" where
  "before_rid name rc =
     via name (rc_Req rc)
       (hdr_set ''X-Forwarded-Proto'' (if rc_DownstreamTLS rc then ''https'' else ''http'')
          (xff (remote_ip (rc_Remote rc)) (rq_Header (rc_Req rc))))"

lemma before_rid_values:
  "canon k \<noteq> ''Via'' \<Longrightarrow> hdr_values (before_rid name rc) k =
     (if canon k = ''X-Forwarded-Proto'' then [if rc_DownstreamTLS rc then ''https'' else ''http'']
      else hdr_values (xff (remote_ip (rc_Remote rc)) (rq_Header (rc_Req rc))) k)"
  by (simp add: before_rid_def via_values http_header.values_set)

lemma forwarded_fields:
  "rc_RequestID (ForwardedHeaders_OnRequest name rand rc) =
     (if hdr_get (before_rid name rc) ''X-Request-Id'' = [] then genID rand
      else hdr_get (before_rid name rc) ''X-Request-Id'')"
  "rq_Header (rc_Req (ForwardedHeaders_OnRequest name rand rc)) =
     (if hdr_get (before_rid name rc) ''X-Request-Id'' = []
      then hdr_set ''X-Request-Id'' (genID rand) (before_rid name rc) else before_rid name rc)"
  unfolding ForwardedHeaders_OnRequest_def Let_def before_rid_def [symmetric] by simp_all

lemma before_rid_id: "hdr_get (before_rid name rc) ''X-Request-Id'' = hdr_get (rq_Header (rc_Req rc)) ''X-Request-Id''"
  by (simp add: hdr_get_def before_rid_values xff_values)

lemma forwarded_values:
  "canon k \<noteq> ''X-Request-Id'' \<Longrightarrow>
     hdr_values (rq_Header (rc_Req (ForwardedHeaders_OnRequest name rand rc))) k = hdr_values (before_rid name rc) k"
  by (simp add: forwarded_fields http_header.values_set)

lemma forwarded_others:
  "canon k \<notin> {''X-Forwarded-For'', ''X-Forwarded-Proto'', ''Via'', ''X-Request-Id''} \<Longrightarrow>
     hdr_values (rq_Header (rc_Req (ForwardedHeaders_OnRequest name rand rc))) k = hdr_values (rq_Header (rc_Req rc)) k"
  by (simp add: forwarded_values before_rid_values xff_values)

lemma forwarded_for:
  "remote_ip (rc_Remote rc) \<noteq> [] \<Longrightarrow>
     hdr_get (rq_Header (rc_Req (ForwardedHeaders_OnRequest name rand rc))) ''X-Forwarded-For'' =
       (if hdr_get (rq_Header (rc_Req rc)) ''X-Forwarded-For'' = [] then []
        else hdr_get (rq_Header (rc_Req rc)) ''X-Forwarded-For'' @ '', '') @ remote_ip (rc_Remote rc)"
  by (simp add: hdr_get_def [of "rq_Header (rc_Req (ForwardedHeaders_OnRequest name rand rc))"]
      forwarded_values before_rid_values xff_values)

lemma forwarded_proto:
  "hdr_get (rq_Header (rc_Req (ForwardedHeaders_OnRequest name rand rc))) ''X-Forwarded-Proto'' =
     (if rc_DownstreamTLS rc then ''https'' else ''http'')"
  by (simp add: hdr_get_def forwarded_values before_rid_values)

lemma forwarded_id:
  "rc_RequestID (ForwardedHeaders_OnRequest name rand rc) =
     (if hdr_get (rq_Header (rc_Req rc)) ''X-Request-Id'' = [] then genID rand
      else hdr_get (rq_Header (rc_Req rc)) ''X-Request-Id'')"
  "hdr_get (rq_Header (rc_Req (ForwardedHeaders_OnRequest name rand rc))) ''X-Request-Id'' =
     rc_RequestID (ForwardedHeaders_OnRequest name rand rc)"
  by (simp_all add: forwarded_fields before_rid_id hdr_get_set)

end
