(* ===== verification/GP_Upstream.thy ===== *)
theory GP_Upstream
  imports GP_Router GP_Manager
begin

text \<open>
  The upstream proxy (\<^verbatim>\<open>httpcm/upstream.go\<close>): retry policies, the circuit breaker with its
  bounded pending queue, the attempt loop, back-off, and the request that is forwarded.

  What a request meets while it is handled is an argument: for each attempt an \<open>attempt_env\<close> with the
  times read, the random numbers, the outcome of the HTTP client and of the write downstream. The
  other goroutines run between any two calls of this one: \<open>us_sched s k\<close> is what they do to the
  shared state before call number \<open>k\<close> on the manager or on a pending queue (\<open>others\<close>). Waiting for
  capacity polls on a list of ticks and is \<open>Blocked\<close> when the list ends. The calls of the request on
  the cluster manager and on the HTTP client are recorded in order in \<open>us_trace\<close>, so that what one
  request does can be stated whatever the other goroutines do.
\<close>

section \<open>State\<close>

text \<open>
  The HTTP clients (package \<^verbatim>\<open>net/http\<close>) by the settings the code gives them; each also
  takes its proxy from the environment of the process.
\<close>

record TLSClientConfig =
  tcc_InsecureSkipVerify :: bool
  tcc_ServerName :: string

record Transport =
  tr_MaxIdleConns :: int
  tr_IdleConnTimeout :: Duration
  tr_DisableCompression :: bool
  tr_ForceAttemptHTTP2 :: bool
  tr_TLSClientConfig :: "TLSClientConfig option"
  tr_ResponseHeaderTimeout :: Duration

record Client =
  cl_Transport :: Transport
  cl_Timeout :: Duration

record UpstreamProxy =
  up_cli :: Client
  up_clients :: "(string, Client) fmap"
  up_tlsEnabled :: "string set"
  up_retry :: "(string, retryCfg) fmap"
  up_pending :: "(string, nat) fmap"

text \<open>Shared state: the manager, the metrics, and how many requests sit in each pending queue.\<close>

record world =
  w_cm :: Manager
  w_reg :: registry
  w_queue :: "(string, nat) fmap"

record OutReq =
  oq_Method :: string
  oq_Scheme :: string
  oq_Addr :: string
  oq_Path :: string
  oq_RawQuery :: string
  oq_Header :: Header
  oq_Host :: string
  oq_Body :: Body
  oq_client :: Client
  oq_overall :: "Duration option"
  oq_perTry :: "Duration option"

text \<open>
  Errors of an attempt: a context that ended, or an error of the HTTP client (does it wrap a
  deadline, is it a timeout). Errors of the handler: one of those, no endpoint, a URL that cannot be
  requested, a failed write downstream (with whether it wraps a deadline, as reading the body from the
  upstream may fail too), and the error of a loop that ended without one.
\<close>

datatype cerr = DeadlineExceeded | Canceled | ClientError bool bool

datatype uerr =
    Upstream cerr
  | PickFailed pick_error
  | BuildFailed
  | WriteFailed bool
  | FailedWithoutError

fun is_deadline :: "cerr \<Rightarrow> bool" where
  "is_deadline DeadlineExceeded = True"
| "is_deadline Canceled = False"
| "is_deadline (ClientError d t) = d"

fun is_timeout :: "cerr \<Rightarrow> bool" where
  "is_timeout DeadlineExceeded = True"
| "is_timeout Canceled = False"
| "is_timeout (ClientError d t) = t"

datatype act =
    Acquired | Released | EpInc string | EpDec string | Send OutReq
  | Failure string | Success string | CapacityWait

record ustate =
  us_rc :: RequestCtx
  us_w :: world
  us_trace :: "act list"
  us_sched :: "nat \<Rightarrow> world \<Rightarrow> world"
  us_clock :: nat

datatype tick = Tick | CtxDone

text \<open>
  \<open>ae_do\<close> is what the HTTP client returns, \<open>ae_body\<close> what it leaves of the body it was given.
\<close>

record attempt_env =
  ae_wait :: "tick list"
  ae_wait_ok :: bool
  ae_rnd :: "nat \<Rightarrow> nat"
  ae_now :: Time
  ae_cap_wait :: "tick list"
  ae_cap_ok :: bool
  ae_build :: bool
  ae_do :: "OutReq \<Rightarrow> cerr + Response"
  ae_body :: "Body \<Rightarrow> Body"
  ae_fail_now :: Time
  ae_write :: "bool option"
  ae_ms :: int
  ae_int63n :: "int \<Rightarrow> int"
  ae_ctx :: "cerr option"

section \<open>Construction\<close>

definition cluster_retry :: "RetryPolicy option \<Rightarrow> retryCfg" where
  "cluster_retry po =
     (let rc = \<lparr>requestTimeout = 0, perTryTimeout = 0, maxRetries = 0, idempotentOnly = True,
                backoffBase = dur_of 50 Millisecond, backoffMax = dur_of 500 Millisecond\<rparr>
      in case po of
           None \<Rightarrow> rc
         | Some p \<Rightarrow>
             (let rc = (if 0 < rp_RequestTimeoutMs p then rc\<lparr>requestTimeout := dur_of (rp_RequestTimeoutMs p) Millisecond\<rparr> else rc);
                  rc = (if 0 < rp_PerTryTimeoutMs p then rc\<lparr>perTryTimeout := dur_of (rp_PerTryTimeoutMs p) Millisecond\<rparr> else rc);
                  rc = (if 0 < rp_MaxRetries p then rc\<lparr>maxRetries := rp_MaxRetries p\<rparr> else rc);
                  rc = (if \<not> rp_IdempotentOnly p then rc\<lparr>idempotentOnly := False\<rparr> else rc);
                  rc = (if 0 < rp_BackoffBaseMs p then rc\<lparr>backoffBase := dur_of (rp_BackoffBaseMs p) Millisecond\<rparr> else rc)
              in if 0 < rp_BackoffMaxMs p then rc\<lparr>backoffMax := dur_of (rp_BackoffMaxMs p) Millisecond\<rparr> else rc))"

definition default_client :: Client where
  "default_client =
     \<lparr>cl_Transport =
        \<lparr>tr_MaxIdleConns = 100, tr_IdleConnTimeout = dur_of 90 Second, tr_DisableCompression = False,
         tr_ForceAttemptHTTP2 = False, tr_TLSClientConfig = None, tr_ResponseHeaderTimeout = dur_of 10 Second\<rparr>,
      cl_Timeout = 0\<rparr>"

definition tls_client :: "UpstreamTLSConfig \<Rightarrow> Client" where
  "tls_client t =
     (let tlsConf = \<lparr>tcc_InsecureSkipVerify = ut_InsecureSkipVerify t, tcc_ServerName = []\<rparr>;
          tlsConf = (if ut_ServerName t \<noteq> [] then tlsConf\<lparr>tcc_ServerName := ut_ServerName t\<rparr> else tlsConf)
      in \<lparr>cl_Transport =
            \<lparr>tr_MaxIdleConns = 100, tr_IdleConnTimeout = dur_of 90 Second, tr_DisableCompression = False,
             tr_ForceAttemptHTTP2 = True, tr_TLSClientConfig = Some tlsConf,
             tr_ResponseHeaderTimeout = dur_of 10 Second\<rparr>,
          cl_Timeout = 0\<rparr>)"

definition add_upstream :: "UpstreamProxy \<Rightarrow> ClusterSpec \<Rightarrow> UpstreamProxy" where
  "add_upstream up cs =
     (let up = (case cs_UpstreamTLS cs of
                  Some t \<Rightarrow>
                    if ut_Enabled t
                    then up\<lparr>up_tlsEnabled := insert (cs_Name cs) (up_tlsEnabled up),
                            up_clients := fmupd (cs_Name cs) (tls_client t) (up_clients up)\<rparr>
                    else up
                | None \<Rightarrow> up);
          up = up\<lparr>up_retry := fmupd (cs_Name cs) (cluster_retry (cs_RetryPolicy cs)) (up_retry up)\<rparr>
      in case cs_CircuitBreaker cs of
           Some cb \<Rightarrow> if 0 < cb_MaxPending cb
             then up\<lparr>up_pending := fmupd (cs_Name cs) (nat (cb_MaxPending cb)) (up_pending up)\<rparr> else up
         | None \<Rightarrow> up)"

definition NewUpstreamProxy :: "ClusterSpec list \<Rightarrow> UpstreamProxy" where
  "NewUpstreamProxy clusters =
     foldl add_upstream
       \<lparr>up_cli = default_client, up_clients = fmempty, up_tlsEnabled = {}, up_retry = fmempty, up_pending = fmempty\<rparr>
       clusters"

text \<open>The policy of a request: the one of the cluster (the zero value when it has none), merged with the override.\<close>

definition zero_retry :: retryCfg where
  "zero_retry = \<lparr>requestTimeout = 0, perTryTimeout = 0, maxRetries = 0, idempotentOnly = False,
     backoffBase = 0, backoffMax = 0\<rparr>"

definition merge_retry :: "retryCfg \<Rightarrow> retryCfg option \<Rightarrow> retryCfg" where
  "merge_retry pol ov =
     (case ov of
        None \<Rightarrow> pol
      | Some o' \<Rightarrow>
          pol\<lparr>requestTimeout := (if 0 < requestTimeout o' then requestTimeout o' else requestTimeout pol),
              perTryTimeout := (if 0 < perTryTimeout o' then perTryTimeout o' else perTryTimeout pol),
              maxRetries := (if 0 < maxRetries o' then maxRetries o' else maxRetries pol),
              backoffBase := (if 0 < backoffBase o' then backoffBase o' else backoffBase pol),
              backoffMax := (if 0 < backoffMax o' then backoffMax o' else backoffMax pol)\<rparr>)"

definition request_policy :: "UpstreamProxy \<Rightarrow> RequestCtx \<Rightarrow> retryCfg" where
  "request_policy u rc =
     merge_retry (case fmlookup (up_retry u) (rc_UpstreamCluster rc) of None \<Rightarrow> zero_retry | Some p \<Rightarrow> p)
       (rc_RetryOverride rc)"

definition idempotent_methods :: "string set" where
  "idempotent_methods = {''GET'', ''HEAD'', ''OPTIONS''}"

definition max_attempts :: "retryCfg \<Rightarrow> Request \<Rightarrow> int" where
  "max_attempts pol req =
     (if idempotentOnly pol \<and> ToUpper (rq_Method req) \<notin> idempotent_methods then 1
      else wrap64 (1 + maxRetries pol))"

section \<open>Back-off\<close>

text \<open>
  \<^verbatim>\<open>base << uint(attempt)\<close> drops the bits above 63; \<^verbatim>\<open>rand.Int63n\<close> panics when its
  argument is not positive. \<open>int63n\<close> is what it returns otherwise.
\<close>

definition backoffWithJitter :: "(int \<Rightarrow> int) \<Rightarrow> Duration \<Rightarrow> Duration \<Rightarrow> int \<Rightarrow> Duration go" where
  "backoffWithJitter int63n base mx attempt =
     (let base = (if base \<le> 0 then dur_of 50 Millisecond else base);
          mx = (if mx \<le> 0 then dur_of 500 Millisecond else mx);
          d = wrap64 (base * 2 ^ nat attempt);
          d = (if mx < d then mx else d);
          n = wrap64 (d sdiv 4 + 1)
      in if n \<le> 0 then Panic ''invalid argument to Int63n'' else Ret (wrap64 (d + int63n n)))"

section \<open>The forwarded request\<close>

definition hop_headers :: "string list" where
  "hop_headers = [''Connection'', ''Proxy-Connection'', ''Keep-Alive'', ''Transfer-Encoding'',
     ''Upgrade'', ''Trailer'', ''TE'']"

definition copyHeadersExcluding :: "key_order \<Rightarrow> Header \<Rightarrow> Header \<Rightarrow> string list \<Rightarrow> Header" where
  "copyHeadersExcluding rng dst src exclude =
     foldl (\<lambda>dst k.
        if ToLower k \<in> set (map ToLower exclude) then dst
        else foldl (\<lambda>dst v. hdr_add k v dst) dst (case fmlookup src k of None \<Rightarrow> [] | Some vv \<Rightarrow> vv))
      dst (rng 0 (fmdom' src))"

text \<open>The two timeouts are those of the contexts the request is sent with.\<close>

definition build_request :: "key_order \<Rightarrow> UpstreamProxy \<Rightarrow> retryCfg \<Rightarrow> RequestCtx \<Rightarrow> string \<Rightarrow> OutReq" where
  "build_request rng u pol rc ep =
     (let req = rc_Req rc; n = rc_UpstreamCluster rc in
      \<lparr>oq_Method = rq_Method req,
       oq_Scheme = (if n \<in> up_tlsEnabled u then ''https'' else ''http''),
       oq_Addr = ep,
       oq_Path = (if rc_RewritePath rc \<noteq> [] then rc_RewritePath rc else rq_Path req),
       oq_RawQuery = rq_RawQuery req,
       oq_Header = copyHeadersExcluding rng fmempty (rq_Header req) hop_headers,
       oq_Host = rq_Host req,
       oq_Body = rq_Body req,
       oq_client = (case fmlookup (up_clients u) n of Some ccli \<Rightarrow> ccli | None \<Rightarrow> up_cli u),
       oq_overall = (if 0 < requestTimeout pol then Some (requestTimeout pol) else None),
       oq_perTry = (if 0 < perTryTimeout pol then Some (perTryTimeout pol) else None)\<rparr>)"

definition downstream_response :: "key_order \<Rightarrow> Request \<Rightarrow> Response \<Rightarrow> Response" where
  "downstream_response rng req resp =
     \<lparr>rs_Status = rs_Status resp, rs_ProtoMajor = rq_ProtoMajor req, rs_ProtoMinor = rq_ProtoMinor req,
      rs_Header = copyHeadersExcluding rng fmempty (rs_Header resp) hop_headers,
      rs_ContentLength = rs_ContentLength resp, rs_Body = rs_Body resp, rs_Close = rq_Close req,
      rs_Method = rq_Method req\<rparr>"

section \<open>Calls on the shared state\<close>

definition cluster_of :: "ustate \<Rightarrow> string" where
  "cluster_of s = rc_UpstreamCluster (us_rc s)"

text \<open>The other goroutines run.\<close>

definition others :: "ustate \<Rightarrow> ustate" where
  "others s = s\<lparr>us_w := us_sched s (us_clock s) (us_w s), us_clock := Suc (us_clock s)\<rparr>"

text \<open>A call on the cluster manager.\<close>

definition call :: "act \<Rightarrow> (Manager \<times> registry \<Rightarrow> Manager \<times> registry) \<Rightarrow> ustate \<Rightarrow> ustate" where
  "call a f s =
     (let s = others s in
      case f (w_cm (us_w s), w_reg (us_w s)) of
        (cm, m) \<Rightarrow> s\<lparr>us_w := (us_w s)\<lparr>w_cm := cm, w_reg := m\<rparr>, us_trace := us_trace s @ [a]\<rparr>)"

definition tally :: "(registry \<Rightarrow> registry) \<Rightarrow> ustate \<Rightarrow> ustate" where
  "tally f s = s\<lparr>us_w := (us_w s)\<lparr>w_reg := f (w_reg (us_w s))\<rparr>\<rparr>"

definition acquire :: "ustate \<Rightarrow> bool \<times> ustate" where
  "acquire s =
     (let s = others s in
      case TryAcquire (cluster_of s) (w_cm (us_w s), w_reg (us_w s)) of
        (ok, cm, m) \<Rightarrow>
          (ok, s\<lparr>us_w := (us_w s)\<lparr>w_cm := cm, w_reg := m\<rparr>,
                 us_trace := us_trace s @ (if ok then [Acquired] else [])\<rparr>))"

definition picked :: "(nat \<Rightarrow> nat) \<Rightarrow> Time \<Rightarrow> ustate \<Rightarrow> ((pick_error + string) \<times> ustate) go" where
  "picked rnd now s =
     (let s = others s in
      go_bind (Pick rnd now (cluster_of s) (w_cm (us_w s))) (\<lambda>(r, cm). Ret (r, s\<lparr>us_w := (us_w s)\<lparr>w_cm := cm\<rparr>\<rparr>)))"

definition release_slot :: "ustate \<Rightarrow> ustate" where
  "release_slot s = call Released (Release (cluster_of s)) s"

definition reply :: "bool \<Rightarrow> int \<Rightarrow> string \<Rightarrow> ustate \<Rightarrow> ustate" where
  "reply ok status body s =
     s\<lparr>us_rc := answer ok (text_response (rc_Req (us_rc s)) status (body @ [CHR 0x0A]) True) (us_rc s)\<rparr>"

section \<open>Waiting for capacity\<close>

definition pending_gauge :: "string \<Rightarrow> string" where
  "pending_gauge n = ''cluster.'' @ n @ ''.pending_current''"

definition queued :: "ustate \<Rightarrow> nat" where
  "queued s = (case fmlookup (w_queue (us_w s)) (cluster_of s) of None \<Rightarrow> 0 | Some k \<Rightarrow> k)"

definition set_queued :: "nat \<Rightarrow> ustate \<Rightarrow> ustate" where
  "set_queued k s = s\<lparr>us_w := (us_w s)\<lparr>w_queue := fmupd (cluster_of s) k (w_queue (us_w s))\<rparr>\<rparr>"

text \<open>Leaving the queue receives from the channel, which would block if it were empty.\<close>

definition leave_queue :: "ustate \<Rightarrow> ustate go" where
  "leave_queue s =
     (let s = others s in
      if queued s = 0 then Blocked
      else Ret (tally (AddGauge (pending_gauge (cluster_of s)) (-1)) (set_queued (queued s - 1) s)))"

definition open_reply :: "bool \<Rightarrow> ustate \<Rightarrow> ustate" where
  "open_reply ok s = tally (Inc ''circuit_breaker_open_total'') (reply ok 503 ''circuit breaker open'' s)"

fun poll :: "bool \<Rightarrow> tick list \<Rightarrow> ustate \<Rightarrow> (bool \<times> ustate) go" where
  "poll ok [] s =
     (case acquire s of
        (True, s) \<Rightarrow> go_bind (leave_queue s) (\<lambda>s. Ret (False, s))
      | (False, s) \<Rightarrow> Blocked)"
| "poll ok (t # ts) s =
     (case acquire s of
        (True, s) \<Rightarrow> go_bind (leave_queue s) (\<lambda>s. Ret (False, s))
      | (False, s) \<Rightarrow>
          (case t of
             Tick \<Rightarrow> poll ok ts s
           | CtxDone \<Rightarrow>
               go_bind (leave_queue s) (\<lambda>s.
                 Ret (True, reply ok 504 ''gateway timeout'' (tally (Inc ''pending_dropped_total'') s)))))"

text \<open>True when a response was written, False when a slot was acquired.\<close>

definition waitForCapacity :: "UpstreamProxy \<Rightarrow> bool \<Rightarrow> tick list \<Rightarrow> ustate \<Rightarrow> (bool \<times> ustate) go" where
  "waitForCapacity u ok ticks s =
     (case fmlookup (up_pending u) (cluster_of s) of
        None \<Rightarrow> Ret (True, open_reply ok s)
      | Some cp \<Rightarrow>
          let s = others s in
          if queued s < cp
          then poll ok ticks (tally (AddGauge (pending_gauge (cluster_of s)) 1) (set_queued (Suc (queued s)) s))
          else Ret (True, open_reply ok s))"

section \<open>One attempt\<close>

text \<open>
  How an attempt ends: the handler returns, or the loop goes on with the last error (kept when
  there is none) from the value of the loop variable.
\<close>

datatype step = Done "uerr option" | Next "cerr option" int

definition outcome_label :: "cerr \<Rightarrow> string" where
  "outcome_label e = (if is_deadline e then ''timeout'' else if is_timeout e then ''timeout'' else ''error'')"

definition on_failure :: "retryCfg \<Rightarrow> int \<Rightarrow> attempt_env \<Rightarrow> int \<Rightarrow> string \<Rightarrow> cerr \<Rightarrow> ustate
    \<Rightarrow> (step \<times> ustate) go" where
  "on_failure pol maxA e attempt ep err s =
     (let n = cluster_of s;
          s = call (Failure ep) (ReportFailure n ep (ae_fail_now e)) s;
          s = tally (Inc ''upstream_failures_total'') s;
          s = tally (IncUpstreamOutcome n (outcome_label err)) s;
          s = call (EpDec ep) (DecEndpointInFlight n ep) s;
          s = release_slot s
      in if attempt < maxA - 1
         then go_bind (backoffWithJitter (ae_int63n e) (backoffBase pol) (backoffMax pol) attempt)
                (\<lambda>_. case ae_ctx e of
                        None \<Rightarrow> Ret (Next (Some err) attempt, s)
                      | Some cerr \<Rightarrow> Ret (Next (Some cerr) maxA, s))
         else Ret (Next (Some err) attempt, s))"

definition on_response :: "key_order \<Rightarrow> attempt_env \<Rightarrow> string \<Rightarrow> Response \<Rightarrow> ustate \<Rightarrow> step \<times> ustate" where
  "on_response rng e ep resp s =
     (let n = cluster_of s;
          dr = downstream_response rng (rc_Req (us_rc s)) resp
      in case ae_write e of
           Some deadline \<Rightarrow>
             (let s = s\<lparr>us_rc := (us_rc s)\<lparr>rc_W := rc_W (us_rc s) @ [Aborted dr]\<rparr>\<rparr>;
                  s = call (EpDec ep) (DecEndpointInFlight n ep) s
              in (Done (Some (WriteFailed deadline)), release_slot s))
         | None \<Rightarrow>
             (let s = s\<lparr>us_rc := (us_rc s)\<lparr>rc_W := rc_W (us_rc s) @ [Sent dr]\<rparr>\<rparr>;
                  s = call (Success ep) (\<lambda>(cm, m). (ReportSuccess n ep cm, m)) s;
                  s = call (EpDec ep) (DecEndpointInFlight n ep) s;
                  s = tally (ObserveUpstreamLatencyMs n (ae_ms e)) s;
                  s = tally (IncUpstreamOutcome n ''success'') s;
                  s = s\<lparr>us_rc := (us_rc s)\<lparr>rc_StatusCode := rs_Status resp, rc_Responded := True\<rparr>\<rparr>
              in (Done None, release_slot s)))"

definition try_endpoint :: "key_order \<Rightarrow> UpstreamProxy \<Rightarrow> retryCfg \<Rightarrow> int \<Rightarrow> attempt_env \<Rightarrow> int \<Rightarrow> string \<Rightarrow> ustate
    \<Rightarrow> (step \<times> ustate) go" where
  "try_endpoint rng u pol maxA e attempt ep s =
     (let n = cluster_of s;
          s = s\<lparr>us_rc := (us_rc s)\<lparr>rc_UpstreamAddr := ep\<rparr>\<rparr>;
          s = tally (Inc ''upstream_attempts_total'') s;
          s = call (EpInc ep) (IncEndpointInFlight n ep) s
      in if \<not> ae_build e then Ret (Done (Some BuildFailed), s)
         else
           (let oq = build_request rng u pol (us_rc s) ep;
                s = s\<lparr>us_trace := us_trace s @ [Send oq],
                      us_rc := (us_rc s)\<lparr>rc_Req := (rc_Req (us_rc s))\<lparr>rq_Body := ae_body e (oq_Body oq)\<rparr>\<rparr>\<rparr>
            in case ae_do e oq of
                 Inl err \<Rightarrow> on_failure pol maxA e attempt ep err s
               | Inr resp \<Rightarrow> Ret (on_response rng e ep resp s)))"

definition trip :: "ustate \<Rightarrow> step \<times> ustate" where
  "trip s = (Done None, tally (Inc ''circuit_breaker_trips_total'') s)"

definition pick_and_try :: "key_order \<Rightarrow> UpstreamProxy \<Rightarrow> retryCfg \<Rightarrow> int \<Rightarrow> attempt_env \<Rightarrow> int \<Rightarrow> ustate
    \<Rightarrow> (step \<times> ustate) go" where
  "pick_and_try rng u pol maxA e attempt s =
     go_bind (picked (ae_rnd e) (ae_now e) s) (\<lambda>(r, s).
       case r of
         Inr ep \<Rightarrow> try_endpoint rng u pol maxA e attempt ep s
       | Inl NoEndpointCapacity \<Rightarrow>
           go_bind (waitForCapacity u (ae_cap_ok e) (ae_cap_wait e) (release_slot s)) (\<lambda>(wrote, s).
             if wrote then Ret (trip s)
             else Ret (Next None attempt, s\<lparr>us_trace := us_trace s @ [CapacityWait]\<rparr>))
       | Inl err \<Rightarrow> Ret (Done (Some (PickFailed err)), s))"

definition one_attempt :: "key_order \<Rightarrow> UpstreamProxy \<Rightarrow> retryCfg \<Rightarrow> int \<Rightarrow> attempt_env \<Rightarrow> int \<Rightarrow> ustate
    \<Rightarrow> (step \<times> ustate) go" where
  "one_attempt rng u pol maxA e attempt s =
     (case acquire s of
        (True, s) \<Rightarrow> pick_and_try rng u pol maxA e attempt s
      | (False, s) \<Rightarrow>
          go_bind (waitForCapacity u (ae_wait_ok e) (ae_wait e) s) (\<lambda>(wrote, s).
            if wrote then Ret (trip s) else pick_and_try rng u pol maxA e attempt s))"

section \<open>The attempt loop\<close>

definition final_error :: "cerr option \<Rightarrow> uerr" where
  "final_error lastErr =
     (case lastErr of
        None \<Rightarrow> FailedWithoutError
      | Some e \<Rightarrow> Upstream (if is_deadline e then DeadlineExceeded else if is_timeout e then DeadlineExceeded else e))"

text \<open>An attempt leaves the loop variable alone or moves it to the end, so that the loop ends.\<close>

lemma on_failure_next:
  "on_failure pol maxA e attempt ep err s = Ret (st, s') \<Longrightarrow>
     \<exists>le a. st = Next (Some le) a \<and> (a = attempt \<or> a = maxA)"
  by (auto simp: on_failure_def Let_def go_bind_eq_Ret split: if_splits option.splits)

lemma try_endpoint_next:
  "try_endpoint rng u pol maxA e attempt ep s = Ret (Next le a, s') \<Longrightarrow> a = attempt \<or> a = maxA"
  by (auto simp: try_endpoint_def on_response_def Let_def dest!: on_failure_next split: if_splits sum.splits option.splits)

lemma pick_and_try_cases:
  assumes "pick_and_try rng u pol maxA e attempt s = Ret (st, s')"
  obtains (endpoint) ep s1 where "picked (ae_rnd e) (ae_now e) s = Ret (Inr ep, s1)"
      "try_endpoint rng u pol maxA e attempt ep s1 = Ret (st, s')"
  | (capacity) s1 wrote s2 where "picked (ae_rnd e) (ae_now e) s = Ret (Inl NoEndpointCapacity, s1)"
      "waitForCapacity u (ae_cap_ok e) (ae_cap_wait e) (release_slot s1) = Ret (wrote, s2)"
      "(st, s') = (if wrote then trip s2 else (Next None attempt, s2\<lparr>us_trace := us_trace s2 @ [CapacityWait]\<rparr>))"
  | (unknown) n s1 where "picked (ae_rnd e) (ae_now e) s = Ret (Inl (UnknownCluster n), s1)"
      "(st, s') = (Done (Some (PickFailed (UnknownCluster n))), s1)"
proof -
  obtain r s1 where p: "picked (ae_rnd e) (ae_now e) s = Ret (r, s1)"
    using assms by (auto simp: pick_and_try_def go_bind_eq_Ret)
  consider (ep) ep where "r = Inr ep" | (cap) "r = Inl NoEndpointCapacity" | (none) n where "r = Inl (UnknownCluster n)"
    by (metis pick_error.exhaust sum.exhaust)
  then show thesis
  proof cases
    case ep
    with assms p endpoint show thesis by (simp add: pick_and_try_def)
  next
    case cap
    then obtain wrote s2 where "waitForCapacity u (ae_cap_ok e) (ae_cap_wait e) (release_slot s1) = Ret (wrote, s2)"
      using assms p by (auto simp: pick_and_try_def go_bind_eq_Ret)
    with assms p cap capacity show thesis by (simp add: pick_and_try_def split: if_splits)
  next
    case none
    with assms p unknown show thesis by (simp add: pick_and_try_def)
  qed
qed

lemma one_attempt_cases:
  assumes "one_attempt rng u pol maxA e attempt s = Ret (st, s')"
  obtains (granted) s1 where "acquire s = (True, s1)" "pick_and_try rng u pol maxA e attempt s1 = Ret (st, s')"
  | (waited) s1 s2 where "acquire s = (False, s1)"
      "waitForCapacity u (ae_wait_ok e) (ae_wait e) s1 = Ret (False, s2)"
      "pick_and_try rng u pol maxA e attempt s2 = Ret (st, s')"
  | (tripped) s1 s2 where "acquire s = (False, s1)"
      "waitForCapacity u (ae_wait_ok e) (ae_wait e) s1 = Ret (True, s2)" "(st, s') = trip s2"
  using assms by (auto simp: one_attempt_def go_bind_eq_Ret split: prod.splits bool.splits if_splits)

lemma pick_and_try_next:
  "pick_and_try rng u pol maxA e attempt s = Ret (Next le a, s') \<Longrightarrow> a = attempt \<or> a = maxA"
  by (erule pick_and_try_cases) (auto simp: trip_def dest: try_endpoint_next split: if_splits)

lemma one_attempt_next:
  "one_attempt rng u pol maxA e attempt s = Ret (Next le a, s') \<Longrightarrow> a = attempt \<or> a = maxA"
  by (erule one_attempt_cases) (auto simp: trip_def dest: pick_and_try_next)

text \<open>
  \<open>envs k\<close> is what iteration number \<open>k\<close> of the loop meets. The loop variable stays at or below the
  number of attempts, so that its increment does not overflow below the largest int.
\<close>

function attempt_loop :: "key_order \<Rightarrow> UpstreamProxy \<Rightarrow> retryCfg \<Rightarrow> int \<Rightarrow> (nat \<Rightarrow> attempt_env) \<Rightarrow> int
    \<Rightarrow> cerr option \<Rightarrow> ustate \<Rightarrow> (uerr option \<times> ustate) go" where
  "attempt_loop rng u pol maxA envs attempt lastErr s =
     (if attempt < maxA then
        (case one_attempt rng u pol maxA (envs (nat attempt)) attempt s of
           Panic p \<Rightarrow> Panic p
         | Blocked \<Rightarrow> Blocked
         | Ret (Done e, s') \<Rightarrow> Ret (e, s')
         | Ret (Next le a, s') \<Rightarrow>
             attempt_loop rng u pol maxA envs (a + 1)
               (case le of None \<Rightarrow> lastErr | Some e \<Rightarrow> Some e) s')
      else Ret (Some (final_error lastErr), s))"
  by pat_completeness auto
termination
  by (relation "measure (\<lambda>(rng, u, pol, maxA, envs, attempt, lastErr, s). nat (maxA - attempt))")
    (auto dest!: one_attempt_next)

declare attempt_loop.simps [simp del]

definition Upstream_OnRequest :: "key_order \<Rightarrow> UpstreamProxy \<Rightarrow> (nat \<Rightarrow> attempt_env) \<Rightarrow> ustate
    \<Rightarrow> (uerr option \<times> ustate) go" where
  "Upstream_OnRequest rng u envs s =
     (if cluster_of s = [] then Ret (None, s)
      else (let pol = request_policy u (us_rc s)
            in attempt_loop rng u pol (max_attempts pol (rc_Req (us_rc s))) envs 0 None s))"

end
