(* ===== verification/GP_Attempts.thy ===== *)
theory GP_Attempts
  imports GP_Upstream
begin

text \<open>
  What the attempt loop of the upstream proxy does. The calls of one attempt follow the patterns of
  \<open>attempt_run\<close>, whatever the other goroutines do; from them follow the number of requests sent, the
  account of slots of the circuit breaker and of in-flight counts of endpoints, and the responses written
  downstream. Headers of the forwarded request are those of the request without the hop-by-hop ones.
\<close>

section \<open>Frame of the primitive steps\<close>

lemma trace_simps [simp]:
  "us_trace (call a f s) = us_trace s @ [a]" "us_trace (tally g s) = us_trace s"
  "us_trace (others s) = us_trace s" "us_trace (reply ok st b s) = us_trace s"
  "us_trace (set_queued k s) = us_trace s" "us_trace (release_slot s) = us_trace s @ [Released]"
  "us_trace (open_reply ok s) = us_trace s" "us_trace (snd (trip s)) = us_trace s" "fst (trip s) = Done None"
  by (simp_all add: call_def tally_def others_def reply_def set_queued_def release_slot_def open_reply_def
      trip_def case_prod_beta Let_def)

lemma rc_simps [simp]:
  "us_rc (call a f s) = us_rc s" "us_rc (tally g s) = us_rc s" "us_rc (others s) = us_rc s"
  "us_rc (set_queued k s) = us_rc s" "us_rc (release_slot s) = us_rc s" "us_rc (snd (trip s)) = us_rc s"
  by (simp_all add: call_def tally_def others_def set_queued_def release_slot_def trip_def case_prod_beta Let_def)

lemma cluster_simps [simp]:
  "cluster_of (call a f s) = cluster_of s" "cluster_of (tally g s) = cluster_of s" "cluster_of (others s) = cluster_of s"
  "cluster_of (set_queued k s) = cluster_of s" "cluster_of (release_slot s) = cluster_of s"
  "cluster_of (reply ok st b s) = cluster_of s" "cluster_of (s\<lparr>us_trace := t\<rparr>) = cluster_of s"
  by (simp_all add: cluster_of_def reply_def answer_def)

lemma acquire_trace:
  "acquire s = (ok, s') \<Longrightarrow> us_trace s' = us_trace s @ (if ok then [Acquired] else []) \<and> us_rc s' = us_rc s"
  by (auto simp: acquire_def Let_def split: prod.splits)

lemma picked_trace: "picked rnd now s = Ret (r, s') \<Longrightarrow> us_trace s' = us_trace s \<and> us_rc s' = us_rc s"
  by (auto simp: picked_def Let_def go_bind_eq_Ret)

lemma leave_queue_trace: "leave_queue s = Ret s' \<Longrightarrow> us_trace s' = us_trace s \<and> us_rc s' = us_rc s"
  by (auto simp: leave_queue_def Let_def split: if_splits)

text \<open>A response to a request: it has the method of the request, and the names of its headers are canonical.\<close>

fun wire_response :: "wire \<Rightarrow> Response" where
  "wire_response (Sent r) = r"
| "wire_response (Aborted r) = r"

definition answers :: "string \<Rightarrow> wire \<Rightarrow> bool" where
  "answers meth x \<longleftrightarrow> rs_Method (wire_response x) = meth \<and> hdr_ok (rs_Header (wire_response x))"

lemma answers_if [simp]: "answers meth (if ok then Sent r else Aborted r) \<longleftrightarrow> rs_Method r = meth \<and> hdr_ok (rs_Header r)"
  by (simp add: answers_def)

lemma answers_text [simp]:
  "answers meth (Sent (text_response req st b close)) \<longleftrightarrow> rq_Method req = meth"
  "answers meth (Aborted (text_response req st b close)) \<longleftrightarrow> rq_Method req = meth"
  by (simp_all add: answers_def text_response_def hdr_ok_set)

lemma hdr_ok_adds: "hdr_ok dst \<Longrightarrow> hdr_ok (foldl (\<lambda>dst v. hdr_add k v dst) dst vs)"
  by (induction vs arbitrary: dst) (simp_all add: hdr_ok_add)

lemma hdr_ok_copy: "hdr_ok dst \<Longrightarrow> hdr_ok (copyHeadersExcluding rng dst src E)"
proof -
  have "hdr_ok (foldl (\<lambda>dst k. if ToLower k \<in> S then dst
      else foldl (\<lambda>dst v. hdr_add k v dst) dst (case fmlookup src k of None \<Rightarrow> [] | Some vv \<Rightarrow> vv)) dst ks)"
    if "hdr_ok dst" for S ks dst
    using that by (induction ks arbitrary: dst) (auto simp: hdr_ok_adds)
  then show "hdr_ok dst \<Longrightarrow> ?thesis" by (simp add: copyHeadersExcluding_def)
qed

lemma answers_downstream [simp]:
  "answers meth (Sent (downstream_response rng req resp)) \<longleftrightarrow> rq_Method req = meth"
  "answers meth (Aborted (downstream_response rng req resp)) \<longleftrightarrow> rq_Method req = meth"
  by (simp_all add: answers_def downstream_response_def hdr_ok_copy)

text \<open>A context that got one more whole or broken response to its request, and is marked as answered.\<close>

definition answered :: "RequestCtx \<Rightarrow> RequestCtx \<Rightarrow> bool" where
  "answered rc rc' \<longleftrightarrow> (\<exists>x. rc_W rc' = rc_W rc @ [x] \<and> answers (rq_Method (rc_Req rc)) x) \<and> rc_Responded rc'"

definition quiet :: "RequestCtx \<Rightarrow> RequestCtx \<Rightarrow> bool" where
  "quiet rc rc' \<longleftrightarrow> rc_W rc' = rc_W rc \<and> rc_Responded rc' = rc_Responded rc \<and> rq_Method (rc_Req rc') = rq_Method (rc_Req rc)"

text \<open>What the access log says a request was: method, path, client and time of arrival.\<close>

definition origin :: "RequestCtx \<Rightarrow> string \<times> string \<times> Addr \<times> Time" where
  "origin rc = (rq_Method (rc_Req rc), rq_Path (rc_Req rc), rc_Remote rc, rc_Start rc)"

lemma origin_simps [simp]: "origin (us_rc (reply ok st b s)) = origin (us_rc s)"
  by (simp add: origin_def reply_def answer_def)

lemma answered_reply: "answered (us_rc s) (us_rc (reply ok st b s))"
  by (simp add: answered_def reply_def answer_def text_response_def hdr_ok_set)

lemma reply_req [simp]: "rc_Req (us_rc (reply ok st b s)) = rc_Req (us_rc s)"
  by (simp add: reply_def answer_def)

lemma poll_effect:
  "poll ok ts s = Ret (wrote, s') \<Longrightarrow>
     us_trace s' = us_trace s @ (if wrote then [] else [Acquired]) \<and>
     (if wrote then answered (us_rc s) (us_rc s') else us_rc s' = us_rc s) \<and>
     rc_Req (us_rc s') = rc_Req (us_rc s) \<and> origin (us_rc s') = origin (us_rc s)"
proof (induction ok ts s rule: poll.induct)
  case (1 ok s)
  then show ?case
    by (auto simp: go_bind_eq_Ret split: prod.splits bool.splits
        dest!: acquire_trace leave_queue_trace)
next
  case (2 ok t ts s)
  obtain b s1 where a: "acquire s = (b, s1)" by force
  note tr = acquire_trace [OF a]
  show ?case
  proof (cases b)
    case True
    with 2(2) a tr show ?thesis by (auto simp: go_bind_eq_Ret dest!: leave_queue_trace)
  next
    case False
    show ?thesis
    proof (cases t)
      case Tick
      then have "poll ok ts s1 = Ret (wrote, s')" using 2(2) a False by simp
      with 2(1) [of b s1] a False Tick tr show ?thesis by (auto split: if_splits)
    next
      case CtxDone
      with 2(2) a False tr show ?thesis
        using answered_reply by (auto simp: go_bind_eq_Ret dest!: leave_queue_trace) (metis rc_simps(2))
    qed
  qed
qed

lemma wait_effect:
  "waitForCapacity u ok ts s = Ret (wrote, s') \<Longrightarrow>
     us_trace s' = us_trace s @ (if wrote then [] else [Acquired]) \<and>
     (if wrote then answered (us_rc s) (us_rc s') else us_rc s' = us_rc s) \<and>
     rc_Req (us_rc s') = rc_Req (us_rc s) \<and> origin (us_rc s') = origin (us_rc s)"
  using answered_reply [of s ok 503 "''circuit breaker open''"] answered_reply [of "others s" ok 503 "''circuit breaker open''"]
  by (auto simp: waitForCapacity_def open_reply_def Let_def split: option.splits if_splits dest!: poll_effect)

section \<open>The patterns of an attempt\<close>

text \<open>
  How an attempt ends and what it did: tripped before or after a pick, waited for endpoint capacity
  (and so acquired again), found no endpoint, could not build the request, or sent it and
  failed, answered, or failed to write the answer.
\<close>

inductive attempt_run :: "step \<Rightarrow> act list \<Rightarrow> bool" where
  ar_trip: "attempt_run (Done None) []"
| ar_trip_cap: "attempt_run (Done None) [Acquired, Released]"
| ar_cap: "attempt_run (Next None a) [Acquired, Released, Acquired, CapacityWait]"
| ar_unknown: "attempt_run (Done (Some (PickFailed err))) [Acquired]"
| ar_build: "attempt_run (Done (Some BuildFailed)) [Acquired, EpInc ep]"
| ar_fail: "attempt_run (Next (Some e) a) [Acquired, EpInc ep, Send oq, Failure ep, EpDec ep, Released]"
| ar_ok: "attempt_run (Done None) [Acquired, EpInc ep, Send oq, Success ep, EpDec ep, Released]"
| ar_write: "attempt_run (Done (Some (WriteFailed d))) [Acquired, EpInc ep, Send oq, EpDec ep, Released]"

text \<open>What an attempt wrote downstream, by how it ended.\<close>

definition attempt_wrote :: "step \<Rightarrow> RequestCtx \<Rightarrow> RequestCtx \<Rightarrow> bool" where
  "attempt_wrote st rc rc' =
     (case st of
        Done None \<Rightarrow> answered rc rc'
      | Done (Some (WriteFailed d)) \<Rightarrow> (\<exists>x. rc_W rc' = rc_W rc @ [Aborted x] \<and> answers (rq_Method (rc_Req rc)) (Aborted x)) \<and>
          rc_Responded rc' = rc_Responded rc
      | _ \<Rightarrow> quiet rc rc')"

text \<open>
  What an attempt did with the body of the request: nothing, or it sent what was left of it, and the
  HTTP client left what \<open>f\<close> says.
\<close>

definition body_of :: "RequestCtx \<Rightarrow> Body" where
  "body_of rc = rq_Body (rc_Req rc)"

fun sent_bodies :: "act list \<Rightarrow> Body list" where
  "sent_bodies [] = []"
| "sent_bodies (Send oq # t) = oq_Body oq # sent_bodies t"
| "sent_bodies (_ # t) = sent_bodies t"

definition body_passed :: "(Body \<Rightarrow> Body) \<Rightarrow> act list \<Rightarrow> RequestCtx \<Rightarrow> RequestCtx \<Rightarrow> bool" where
  "body_passed f t rc rc' \<longleftrightarrow>
     (sent_bodies t = [] \<and> body_of rc' = body_of rc) \<or> (sent_bodies t = [body_of rc] \<and> body_of rc' = f (body_of rc))"

lemma sent_bodies_append [simp]: "sent_bodies (t @ t') = sent_bodies t @ sent_bodies t'"
  by (induction t rule: sent_bodies.induct) simp_all

lemma on_failure_effect:
  assumes "on_failure pol maxA e attempt ep err s = Ret (st, s')"
  shows "us_trace s' = us_trace s @ [Failure ep, EpDec ep, Released] \<and> us_rc s' = us_rc s \<and> (\<exists>le a. st = Next (Some le) a)"
  using assms by (auto simp: on_failure_def Let_def go_bind_eq_Ret split: if_splits option.splits)

lemma on_response_effect:
  assumes "on_response rng e ep resp s = (st, s')"
  shows "if ae_write e = None
    then us_trace s' = us_trace s @ [Success ep, EpDec ep, Released] \<and> st = Done None \<and> answered (us_rc s) (us_rc s') \<and>
      rc_Req (us_rc s') = rc_Req (us_rc s) \<and> origin (us_rc s') = origin (us_rc s)
    else us_trace s' = us_trace s @ [EpDec ep, Released] \<and> (\<exists>d. st = Done (Some (WriteFailed d))) \<and>
      attempt_wrote st (us_rc s) (us_rc s') \<and> rc_Req (us_rc s') = rc_Req (us_rc s) \<and> origin (us_rc s') = origin (us_rc s)"
  using assms by (auto simp: on_response_def Let_def answered_def origin_def attempt_wrote_def split: option.splits)

definition attempt_effect :: "step \<Rightarrow> (Body \<Rightarrow> Body) \<Rightarrow> act list \<Rightarrow> RequestCtx \<Rightarrow> RequestCtx \<Rightarrow> bool" where
  "attempt_effect st f t rc rc' \<longleftrightarrow> attempt_run st t \<and> attempt_wrote st rc rc' \<and> body_passed f t rc rc' \<and> origin rc' = origin rc"

lemmas attempt_effect_simps = attempt_effect_def attempt_wrote_def answered_def quiet_def body_passed_def body_of_def

lemma try_endpoint_effect:
  assumes "try_endpoint rng u pol maxA e attempt ep s = Ret (st, s')"
  shows "\<exists>t. us_trace s' = us_trace s @ t \<and> attempt_effect st (ae_body e) (Acquired # t) (us_rc s) (us_rc s')"
proof (cases "ae_build e")
  case False
  then show ?thesis
    using assms by (auto simp: try_endpoint_def Let_def attempt_effect_simps origin_def intro: attempt_run.intros)
next
  case True
  define s1 where "s1 = call (EpInc ep) (IncEndpointInFlight (cluster_of s) ep)
    (tally (Inc ''upstream_attempts_total'') (s\<lparr>us_rc := (us_rc s)\<lparr>rc_UpstreamAddr := ep\<rparr>\<rparr>))"
  define oq where "oq = build_request rng u pol (us_rc s1) ep"
  define s2 where "s2 = s1\<lparr>us_trace := us_trace s1 @ [Send oq],
    us_rc := (us_rc s1)\<lparr>rc_Req := (rc_Req (us_rc s1))\<lparr>rq_Body := ae_body e (oq_Body oq)\<rparr>\<rparr>\<rparr>"
  have oq: "oq_Body oq = body_of (us_rc s)" by (simp add: oq_def s1_def build_request_def Let_def body_of_def)
  have s2: "us_trace s2 = us_trace s @ [EpInc ep, Send oq]"
    "us_rc s2 = (us_rc s)\<lparr>rc_UpstreamAddr := ep, rc_Req := (rc_Req (us_rc s))\<lparr>rq_Body := ae_body e (body_of (us_rc s))\<rparr>\<rparr>"
    by (simp_all add: s2_def oq s1_def)
  then have s2_origin: "origin (us_rc s2) = origin (us_rc s)" by (simp add: origin_def)
  have run: "(case ae_do e oq of Inl err \<Rightarrow> on_failure pol maxA e attempt ep err s2
      | Inr resp \<Rightarrow> Ret (on_response rng e ep resp s2)) = Ret (st, s')"
    using assms True
    unfolding try_endpoint_def Let_def s1_def [symmetric] oq_def [symmetric] s2_def [symmetric] by simp
  show ?thesis
  proof (cases "ae_do e oq")
    case (Inl err)
    then have "on_failure pol maxA e attempt ep err s2 = Ret (st, s')" using run by simp
    from on_failure_effect [OF this] s2 s2_origin oq show ?thesis
      by (auto simp: attempt_effect_simps intro: attempt_run.intros)
  next
    case (Inr resp)
    then have "on_response rng e ep resp s2 = (st, s')" using run by simp
    from on_response_effect [OF this] s2 s2_origin oq show ?thesis
      by (auto simp: attempt_effect_simps intro: attempt_run.intros split: if_splits)
  qed
qed

lemma pick_and_try_effect:
  assumes "pick_and_try rng u pol maxA e attempt s = Ret (st, s')"
  shows "\<exists>t. us_trace s' = us_trace s @ t \<and> attempt_effect st (ae_body e) (Acquired # t) (us_rc s) (us_rc s')"
  using assms
proof (cases rule: pick_and_try_cases)
  case (endpoint ep s1)
  from try_endpoint_effect [OF endpoint(2)] picked_trace [OF endpoint(1)] show ?thesis by simp
next
  case (capacity s1 wrote s2)
  from wait_effect [OF capacity(2)] picked_trace [OF capacity(1)] capacity(3) show ?thesis
    by (cases wrote) (auto simp: trip_def attempt_effect_simps intro: attempt_run.intros)
next
  case (unknown n s1)
  with picked_trace [OF unknown(1)] show ?thesis by (auto simp: attempt_effect_simps intro: attempt_run.intros)
qed

lemma one_attempt_effect:
  assumes "one_attempt rng u pol maxA e attempt s = Ret (st, s')"
  shows "\<exists>t. us_trace s' = us_trace s @ t \<and> attempt_effect st (ae_body e) t (us_rc s) (us_rc s')"
  using assms
proof (cases rule: one_attempt_cases)
  case (granted s1)
  from pick_and_try_effect [OF granted(2)] acquire_trace [OF granted(1)] show ?thesis by auto
next
  case (waited s1 s2)
  from pick_and_try_effect [OF waited(3)] acquire_trace [OF waited(1)] wait_effect [OF waited(2)]
  show ?thesis by auto
next
  case (tripped s1 s2)
  then show ?thesis
    using acquire_trace [OF tripped(1)] wait_effect [OF tripped(2)]
    by (auto simp: trip_def attempt_effect_simps intro: attempt_run.intros)
qed

section \<open>Accounts\<close>

fun slot_of :: "act \<Rightarrow> int" where
  "slot_of Acquired = 1"
| "slot_of Released = -1"
| "slot_of _ = 0"

definition slot_balance :: "act list \<Rightarrow> int" where
  "slot_balance t = sum_list (map slot_of t)"

fun ep_of :: "string \<Rightarrow> act \<Rightarrow> int" where
  "ep_of ep (EpInc a) = of_bool (a = ep)"
| "ep_of ep (EpDec a) = - of_bool (a = ep)"
| "ep_of ep _ = 0"

definition ep_balance :: "string \<Rightarrow> act list \<Rightarrow> int" where
  "ep_balance ep t = sum_list (map (ep_of ep) t)"

fun is_send :: "act \<Rightarrow> bool" where
  "is_send (Send oq) = True"
| "is_send _ = False"

definition sends :: "act list \<Rightarrow> nat" where
  "sends t = length (filter is_send t)"

definition cap_waits :: "act list \<Rightarrow> nat" where
  "cap_waits t = count_list t CapacityWait"

lemma account_append [simp]:
  "slot_balance (t @ t') = slot_balance t + slot_balance t'" "ep_balance ep (t @ t') = ep_balance ep t + ep_balance ep t'"
  "sends (t @ t') = sends t + sends t'" "cap_waits (t @ t') = cap_waits t + cap_waits t'"
  by (simp_all add: slot_balance_def ep_balance_def sends_def cap_waits_def)

text \<open>The errors with which a request returns while it still holds a slot.\<close>

fun leaks_slot :: "uerr option \<Rightarrow> bool" where
  "leaks_slot (Some (PickFailed err)) = True"
| "leaks_slot (Some BuildFailed) = True"
| "leaks_slot _ = False"

lemma attempt_accounts:
  assumes "attempt_run st t"
  shows "sends t \<le> 1"
    and "st = Done e \<Longrightarrow> slot_balance t = of_bool (leaks_slot e) \<and> cap_waits t = 0"
    and "st = Next le a \<Longrightarrow> slot_balance t = int (cap_waits t) \<and> (\<forall>ep. ep_balance ep t = 0)"
    and "st = Done e \<Longrightarrow> e \<noteq> Some BuildFailed \<Longrightarrow> ep_balance ep t = 0"
  using assms by (auto simp: sends_def slot_balance_def cap_waits_def ep_balance_def elim!: attempt_run.cases)

section \<open>The loop\<close>

text \<open>Induction over a run of the loop: the attempts used up, an attempt that ends it, and one that goes on.\<close>

lemma attempt_loop_rule [consumes 1, case_names exhausted ended more]:
  assumes "attempt_loop rng u pol maxA envs attempt lastErr s = Ret (e, s')"
    and "\<And>a le s. maxA \<le> a \<Longrightarrow> P a s (Some (final_error le)) s"
    and "\<And>a s e s1. a < maxA \<Longrightarrow> one_attempt rng u pol maxA (envs (nat a)) a s = Ret (Done e, s1) \<Longrightarrow> P a s e s1"
    and "\<And>a s le b s1 e s'. a < maxA \<Longrightarrow> b = a \<or> b = maxA \<Longrightarrow>
      one_attempt rng u pol maxA (envs (nat a)) a s = Ret (Next le b, s1) \<Longrightarrow> P (b + 1) s1 e s' \<Longrightarrow> P a s e s'"
  shows "P attempt s e s'"
  using assms
proof (induction rng u pol maxA envs attempt lastErr s rule: attempt_loop.induct)
  case (1 rng u pol maxA envs attempt lastErr s)
  note unfold = attempt_loop.simps [of rng u pol maxA envs attempt lastErr s]
  show ?case
  proof (cases "attempt < maxA")
    case False
    then show ?thesis using 1(2) 1(3) [of attempt] unfold by auto
  next
    case True
    then obtain st s1 where step: "one_attempt rng u pol maxA (envs (nat attempt)) attempt s = Ret (st, s1)"
      using 1(2) unfold by (auto split: go.splits)
    show ?thesis
    proof (cases st)
      case (Done x)
      then have "x = e" "s1 = s'" using 1(2) True step unfold by auto
      with Done step 1(4) [OF True] show ?thesis by simp
    next
      case (Next le b)
      then have "attempt_loop rng u pol maxA envs (b + 1) (case le of None \<Rightarrow> lastErr | Some x \<Rightarrow> Some x) s1 = Ret (e, s')"
        using 1(2) True step unfold by auto
      from 1(1) [OF True step refl Next this 1(3,4,5)] have "P (b + 1) s1 e s'" .
      moreover have "b = attempt \<or> b = maxA" using one_attempt_next step Next by blast
      ultimately show ?thesis using step Next by (intro 1(5) [OF True]) simp_all
    qed
  qed
qed

lemma final_error_simps [simp]: "\<not> leaks_slot (Some (final_error le))" "final_error le \<noteq> BuildFailed"
  by (simp_all add: final_error_def split: option.splits)

lemma loop_accounts:
  "attempt_loop rng u pol maxA envs attempt lastErr s = Ret (e, s') \<Longrightarrow>
     \<exists>t. us_trace s' = us_trace s @ t \<and> sends t \<le> nat (maxA - attempt) \<and>
       slot_balance t = int (cap_waits t) + of_bool (leaks_slot e) \<and>
       (e \<noteq> Some BuildFailed \<longrightarrow> (\<forall>ep. ep_balance ep t = 0))"
proof (induction rule: attempt_loop_rule)
  case (exhausted a le s)
  then show ?case by (simp add: sends_def slot_balance_def cap_waits_def ep_balance_def)
next
  case (ended a s e s1)
  obtain t where t: "us_trace s1 = us_trace s @ t" "attempt_run (Done e) t"
    using one_attempt_effect [OF ended(2)] by (auto simp: attempt_effect_def)
  then show ?case using attempt_accounts [OF t(2)] ended(1) by auto
next
  case (more a s le b s1 e s')
  obtain t where t: "us_trace s1 = us_trace s @ t" "attempt_run (Next le b) t"
    using one_attempt_effect [OF more(3)] by (auto simp: attempt_effect_def)
  note acc = attempt_accounts [OF t(2)]
  obtain t' where t': "us_trace s' = us_trace s1 @ t'" "sends t' \<le> nat (maxA - (b + 1))"
      "slot_balance t' = int (cap_waits t') + of_bool (leaks_slot e)"
      "e \<noteq> Some BuildFailed \<longrightarrow> (\<forall>ep. ep_balance ep t' = 0)"
    using more(4) by blast
  have "sends t + sends t' \<le> nat (maxA - a)" using acc(1) t'(2) more(1,2) by linarith
  then show ?case using t t' acc(3) [OF refl] by (intro exI [of _ "t @ t'"]) auto
qed

text \<open>Every request but the first is sent with what the HTTP client left of the body.\<close>

lemma loop_bodies:
  assumes "attempt_loop rng u pol maxA envs attempt lastErr s = Ret (e, s')" "\<forall>k b. ae_body (envs k) b \<in> spent"
  shows "\<exists>t. us_trace s' = us_trace s @ t \<and> (case sent_bodies t of [] \<Rightarrow> body_of (us_rc s') = body_of (us_rc s)
     | b # bs \<Rightarrow> b = body_of (us_rc s) \<and> set bs \<subseteq> spent \<and> body_of (us_rc s') \<in> spent)"
  using assms(1)
proof (induction rule: attempt_loop_rule)
  case (ended a s e s1)
  obtain t where "us_trace s1 = us_trace s @ t" "body_passed (ae_body (envs (nat a))) t (us_rc s) (us_rc s1)"
    using one_attempt_effect [OF ended(2)] by (auto simp: attempt_effect_def)
  then show ?case using assms(2) by (auto simp: body_passed_def)
next
  case (more a s le b s1 e s')
  obtain t where t: "us_trace s1 = us_trace s @ t" "body_passed (ae_body (envs (nat a))) t (us_rc s) (us_rc s1)"
    using one_attempt_effect [OF more(3)] by (auto simp: attempt_effect_def)
  obtain t' where t': "us_trace s' = us_trace s1 @ t'"
      "case sent_bodies t' of [] \<Rightarrow> body_of (us_rc s') = body_of (us_rc s1)
        | b # bs \<Rightarrow> b = body_of (us_rc s1) \<and> set bs \<subseteq> spent \<and> body_of (us_rc s') \<in> spent"
    using more(4) by blast
  have spent: "ae_body (envs k) x \<in> spent" for k x using assms(2) by blast
  have "case sent_bodies (t @ t') of [] \<Rightarrow> body_of (us_rc s') = body_of (us_rc s)
     | b # bs \<Rightarrow> b = body_of (us_rc s) \<and> set bs \<subseteq> spent \<and> body_of (us_rc s') \<in> spent"
    using t(2) t'(2) spent by (auto simp: body_passed_def split: list.splits)
  then show ?case using t(1) t'(1) by (intro exI [of _ "t @ t'"]) auto
qed (simp add: body_of_def)

section \<open>Responses\<close>

lemma quiet_wrote: "quiet rc rc1 \<Longrightarrow> attempt_wrote (Done e) rc1 rc' \<Longrightarrow> attempt_wrote (Done e) rc rc'"
  by (auto simp: quiet_def attempt_wrote_def answered_def split: option.splits uerr.splits)

lemma loop_wrote:
  "attempt_loop rng u pol maxA envs attempt lastErr s = Ret (e, s') \<Longrightarrow>
     attempt_wrote (Done e) (us_rc s) (us_rc s')"
proof (induction rule: attempt_loop_rule)
  case (exhausted a le s)
  show ?case by (auto simp: attempt_wrote_def quiet_def final_error_def split: option.splits)
next
  case (ended a s e s1)
  then show ?case using one_attempt_effect [OF ended(2)] by (auto simp: attempt_effect_def)
next
  case (more a s le b s1 e s')
  have "quiet (us_rc s) (us_rc s1)"
    using one_attempt_effect [OF more(3)] by (auto simp: attempt_effect_def attempt_wrote_def)
  then show ?case using more(4) by (rule quiet_wrote)
qed

lemma loop_origin:
  "attempt_loop rng u pol maxA envs attempt lastErr s = Ret (e, s') \<Longrightarrow> origin (us_rc s') = origin (us_rc s)"
  by (induction rule: attempt_loop_rule) (auto simp: attempt_effect_def dest!: one_attempt_effect)

section \<open>Forwarded headers\<close>

lemma copy_fold_values:
  assumes "distinct ks" "\<forall>k \<in> set ks. canon k = k"
  shows "hdr_values (foldl (\<lambda>dst k. if ToLower k \<in> E then dst
      else foldl (\<lambda>dst v. hdr_add k v dst) dst (case fmlookup src k of None \<Rightarrow> [] | Some vv \<Rightarrow> vv)) dst ks) k' =
    (if canon k' \<in> set ks \<and> ToLower k' \<notin> E then hdr_values dst k' @ hdr_values src k' else hdr_values dst k')"
  using assms
proof (induction ks arbitrary: dst)
  case (Cons k ks)
  let ?dst = "if ToLower k \<in> E then dst
      else foldl (\<lambda>dst v. hdr_add k v dst) dst (case fmlookup src k of None \<Rightarrow> [] | Some vv \<Rightarrow> vv)"
  have k: "canon k = k" "k \<notin> set ks" using Cons.prems by auto
  have low: "ToLower k' = ToLower k" "hdr_values src k' = (case fmlookup src k of None \<Rightarrow> [] | Some vv \<Rightarrow> vv)"
    "hdr_values dst k' = hdr_values dst k" if "canon k' = k"
    using that ToLower_canon [of k'] by (simp_all add: hdr_values_def k)
  have "hdr_values ?dst k' = (if canon k' = k \<and> ToLower k' \<notin> E then hdr_values dst k' @ hdr_values src k' else hdr_values dst k')"
    using low by (auto simp: http_header.values_add_list k)
  with Cons.IH [of ?dst] Cons.prems k show ?case by auto
qed simp

lemma copy_values:
  assumes "map_range rng" "hdr_ok src"
  shows "hdr_values (copyHeadersExcluding rng fmempty src exclude) k =
    (if ToLower k \<in> ToLower ` set exclude then [] else hdr_values src k)"
proof -
  have ks: "distinct (rng 0 (fmdom' src))" "set (rng 0 (fmdom' src)) = fmdom' src"
    using map_range.rng_distinct [OF assms(1)] map_range.rng_set [OF assms(1)] by auto
  have "\<forall>k \<in> set (rng 0 (fmdom' src)). canon k = k" using assms(2) by (simp add: ks hdr_ok_def)
  note vals = copy_fold_values [OF ks(1) this, of "ToLower ` set exclude" src fmempty k]
  have "hdr_values src k = []" if "canon k \<notin> fmdom' src" using that by (simp add: hdr_values_def fmdom'_notD)
  with vals show ?thesis by (auto simp: copyHeadersExcluding_def ks(2) hdr_values_def [of fmempty])
qed

section \<open>Back-off\<close>

definition int63n_ok :: "(int \<Rightarrow> int) \<Rightarrow> bool" where
  "int63n_ok f \<longleftrightarrow> (\<forall>n. 0 < n \<longrightarrow> 0 \<le> f n \<and> f n < n)"

lemma backoff_ok:
  assumes "0 < base" "0 < mx" "base * 2 ^ nat attempt < 2 ^ 63" "mx < 2 ^ 62" "int63n_ok f"
  shows "\<exists>r. backoffWithJitter f base mx attempt = Ret r \<and>
    min mx (base * 2 ^ nat attempt) \<le> r \<and> r \<le> min mx (base * 2 ^ nat attempt) + min mx (base * 2 ^ nat attempt) div 4"
proof -
  define d where "d = min mx (base * 2 ^ nat attempt)"
  define j where "j = f (d div 4 + 1)"
  have d: "0 < d" "d < 2 ^ 62" using assms(1,2,4) by (auto simp: d_def)
  have shift: "wrap64 (base * 2 ^ nat attempt) = base * 2 ^ nat attempt"
    using assms(1,3) by (intro wrap64_id in_i64_small) simp_all
  have quot: "d sdiv 4 = d div 4" using d(1) by (simp add: signed_divide_int_def)
  have n: "0 < d div 4 + 1" "wrap64 (d div 4 + 1) = d div 4 + 1"
    using d by (auto simp: in_i64_def intro!: wrap64_id)
  have j: "0 \<le> j" "j < d div 4 + 1"
    using assms(5) n(1) unfolding int63n_ok_def j_def by blast+
  have "d div 4 \<le> d" using d(1) by simp
  then have "wrap64 (d + j) = d + j"
    using d j by (intro wrap64_id) (simp add: in_i64_def)
  moreover have "(if mx < base * 2 ^ nat attempt then mx else base * 2 ^ nat attempt) = d" by (simp add: d_def)
  then have "backoffWithJitter f base mx attempt = (if wrap64 (d sdiv 4 + 1) \<le> 0
      then Panic ''invalid argument to Int63n'' else Ret (wrap64 (d + f (wrap64 (d sdiv 4 + 1)))))"
    using assms(1,2) by (simp only: backoffWithJitter_def Let_def shift not_le [symmetric] if_False)
  ultimately have "backoffWithJitter f base mx attempt = Ret (d + j)"
    using n by (simp add: quot j_def)
  with j show ?thesis unfolding d_def [symmetric] by auto
qed

lemma backoff_overflow:
  assumes "0 < base" "0 < mx" "2 ^ 63 \<le> base * 2 ^ nat attempt" "base * 2 ^ nat attempt \<le> 2 ^ 64 - 4"
  shows "backoffWithJitter f base mx attempt = Panic ''invalid argument to Int63n''"
proof -
  let ?d = "base * 2 ^ nat attempt - 2 ^ 64"
  have "wrap64 (base * 2 ^ nat attempt) = ?d" using assms(3,4) by (intro wrap64_high) simp_all
  moreover have d: "?d \<le> - 4" "- (2 ^ 63) \<le> ?d" using assms(3,4) by auto
  moreover have "?d sdiv 4 = - ((- ?d) div 4)" using d(1) by (simp add: signed_divide_int_def)
  moreover have "1 \<le> (- ?d) div 4" using d(1) by simp
  moreover have "(- ?d) div 4 \<le> 2 ^ 63" using d(2) by simp
  ultimately have "wrap64 (?d sdiv 4 + 1) \<le> 0" "wrap64 (base * 2 ^ nat attempt) = ?d" "?d < mx"
    using assms(2) by (auto simp: in_i64_def)
  with assms(1,2) show ?thesis by (simp add: backoffWithJitter_def Let_def)
qed

end
