(* ===== verification/GP_Log.thy ===== *)
theory GP_Log
  imports GP_Http
begin

text \<open>
  What the proxy prints about its work: the access log (\<^verbatim>\<open>obs/accesslog/accesslog.go\<close>), the
  line of the HTTP logging filter (\<^verbatim>\<open>httpcm/logging.go\<close>) and the line of the network logging
  filter (\<^verbatim>\<open>filter/filter.go\<close>), with the part of package \<^verbatim>\<open>time\<close> that
  formats their time stamps: the calendar, the two layouts the code uses, and the offset of the local
  time zone, which is an argument (\<open>zone t\<close> is the offset in seconds at the instant \<open>t\<close>).
\<close>

section \<open>Calendar\<close>

text \<open>Days are counted from 1 January of year 1; leap years repeat every 400 years (146097 days).\<close>

definition leap :: "int \<Rightarrow> bool" where
  "leap y \<longleftrightarrow> y mod 4 = 0 \<and> (y mod 100 \<noteq> 0 \<or> y mod 400 = 0)"

definition days_before_year :: "int \<Rightarrow> int" where
  "days_before_year y = (let k = y - 1 in 365 * k + k div 4 - k div 100 + k div 400)"

definition year_day :: "int \<Rightarrow> int \<times> int" where
  "year_day d =
     (let n400 = d div 146097; r = d mod 146097;
          n100 = min 3 (r div 36524); r = r - 36524 * n100;
          n4 = r div 1461; r = r mod 1461;
          n1 = min 3 (r div 365)
      in (400 * n400 + 100 * n100 + 4 * n4 + n1 + 1, r - 365 * n1))"

definition month_lengths :: "bool \<Rightarrow> int list" where
  "month_lengths lp = [31, if lp then 29 else 28, 31, 30, 31, 30, 31, 31, 30, 31, 30, 31]"

fun month_day :: "int list \<Rightarrow> int \<Rightarrow> int \<Rightarrow> int \<times> int" where
  "month_day [] m d = (m, d + 1)"
| "month_day (l # ls) m d = (if d < l then (m, d + 1) else month_day ls (m + 1) (d - l))"

definition civil_date :: "int \<Rightarrow> int \<times> int \<times> int" where
  "civil_date d = (case year_day d of (y, yd) \<Rightarrow> (y, month_day (month_lengths (leap y)) 1 yd))"

text \<open>The day of a date, by counting.\<close>

definition day_number :: "int \<times> int \<times> int \<Rightarrow> int" where
  "day_number = (\<lambda>(y, m, d).
     days_before_year y + sum_list (take (nat (m - 1)) (month_lengths (leap y))) + d - 1)"

section \<open>Layouts\<close>

text \<open>\<^verbatim>\<open>appendInt\<close>: decimal, padded with zeros to the width.\<close>

definition appendInt :: "int \<Rightarrow> nat \<Rightarrow> string" where
  "appendInt x width =
     (let digits = nat_digits 10 (nat \<bar>x\<bar>)
      in (if x < 0 then ''-'' else []) @ replicate (width - length digits) CHR ''0'' @ digits)"

record wall =
  wl_date :: "int \<times> int \<times> int"
  wl_hour :: int
  wl_min :: int
  wl_sec :: int
  wl_nsec :: int
  wl_offset :: int

definition wall_clock :: "(Time \<Rightarrow> int) \<Rightarrow> Time \<Rightarrow> wall" where
  "wall_clock zone t =
     (let l = t + zone t * Second; s = l div Second
      in \<lparr>wl_date = civil_date (s div 86400), wl_hour = s mod 86400 div 3600, wl_min = s mod 3600 div 60,
          wl_sec = s mod 60, wl_nsec = l mod Second, wl_offset = zone t\<rparr>)"

definition hms :: "wall \<Rightarrow> string" where
  "hms w = appendInt (wl_hour w) 2 @ '':'' @ appendInt (wl_min w) 2 @ '':'' @ appendInt (wl_sec w) 2"

text \<open>The layout \<^verbatim>\<open>15:04:05.000\<close>.\<close>

definition format_clock :: "wall \<Rightarrow> string" where
  "format_clock w = hms w @ ''.'' @ take 3 (appendInt (wl_nsec w) 9)"

definition zone_text :: "int \<Rightarrow> string" where
  "zone_text offset =
     (if offset = 0 then ''Z''
      else (let z = offset sdiv 60
            in (if z < 0 then ''-'' else ''+'') @ appendInt (\<bar>z\<bar> div 60) 2 @ '':'' @ appendInt (\<bar>z\<bar> mod 60) 2))"

text \<open>The layout \<^verbatim>\<open>RFC3339Nano\<close>: the fraction of the second loses its trailing zeros.\<close>

definition fraction :: "int \<Rightarrow> string" where
  "fraction ns =
     (let digits = rev (dropWhile (\<lambda>c. c = CHR ''0'') (rev (appendInt ns 9)))
      in if digits = [] then [] else ''.'' @ digits)"

definition format_RFC3339Nano :: "wall \<Rightarrow> string" where
  "format_RFC3339Nano w =
     (case wl_date w of (y, m, d) \<Rightarrow>
        appendInt y 4 @ ''-'' @ appendInt m 2 @ ''-'' @ appendInt d 2 @ ''T'' @ hms w @ fraction (wl_nsec w) @
        zone_text (wl_offset w))"

definition Milliseconds :: "Duration \<Rightarrow> int" where
  "Milliseconds d = d sdiv 1000000"

section \<open>Log lines\<close>

definition newline :: string where
  "newline = [CHR 0x0A]"

record Entry =
  en_Time :: Time
  en_Remote :: string
  en_Method :: string
  en_Path :: string
  en_Status :: int
  en_Duration :: Duration
  en_Cluster :: string
  en_Upstream :: string
  en_RequestID :: string

definition Log :: "(Time \<Rightarrow> int) \<Rightarrow> Entry \<Rightarrow> string" where
  "Log zone e =
     format_RFC3339Nano (wall_clock zone (en_Time e)) @ '' remote='' @ en_Remote e @ '' method='' @ en_Method e @
     '' path='' @ en_Path e @ '' status='' @ FormatInt (en_Status e) @
     '' dur_ms='' @ FormatInt (Milliseconds (en_Duration e)) @ '' cluster='' @ en_Cluster e @
     '' upstream='' @ en_Upstream e @ '' req_id='' @ en_RequestID e @ newline"

definition request_line :: "RequestCtx \<Rightarrow> string" where
  "request_line rc =
     ''http request method='' @ rq_Method (rc_Req rc) @ '' path='' @ rq_Path (rc_Req rc) @
     '' remote='' @ addr_string (rc_Remote rc) @ newline"

definition accept_line :: "(Time \<Rightarrow> int) \<Rightarrow> Addr \<Rightarrow> Time \<Rightarrow> string" where
  "accept_line zone remote start =
     ''accept remote='' @ addr_string remote @ '' start='' @ format_clock (wall_clock zone start) @ newline"

text \<open>
  What one goroutine prints, in order: each is one call of \<^verbatim>\<open>Printf\<close>. The time zone is that of
  the process, so the text is rendered from the log.
\<close>

datatype log_line = Accepted Addr Time | HttpRequest RequestCtx | Access Entry

fun printed :: "(Time \<Rightarrow> int) \<Rightarrow> log_line \<Rightarrow> string" where
  "printed zone (Accepted remote start) = accept_line zone remote start"
| "printed zone (HttpRequest rc) = request_line rc"
| "printed zone (Access e) = Log zone e"

section \<open>The calendar is right\<close>

lemma year_day_split:
  fixes a b c e :: int
  assumes "0 \<le> b" "b \<le> 3" "0 \<le> c" "c \<le> 24" "0 \<le> e" "e \<le> 3"
  shows "days_before_year (400 * a + 100 * b + 4 * c + e + 1) = 146097 * a + 36524 * b + 1461 * c + 365 * e"
    and "leap (400 * a + 100 * b + 4 * c + e + 1) \<longleftrightarrow> e = 3 \<and> (c \<noteq> 24 \<or> b = 3)"
proof -
  have d: "(400 * a + 100 * b + 4 * c + e) div 4 = 100 * a + 25 * b + c"
      "(400 * a + 100 * b + 4 * c + e) div 100 = 4 * a + b"
      "(400 * a + 100 * b + 4 * c + e) div 400 = a"
    using assms by linarith+
  show "days_before_year (400 * a + 100 * b + 4 * c + e + 1) = 146097 * a + 36524 * b + 1461 * c + 365 * e"
    by (simp add: days_before_year_def Let_def d)
  show "leap (400 * a + 100 * b + 4 * c + e + 1) \<longleftrightarrow> e = 3 \<and> (c \<noteq> 24 \<or> b = 3)"
  proof -
    define K where "K = 100 * a + 25 * b + c"
    have y: "400 * a + 100 * b + 4 * c + e + 1 = 4 * K + (e + 1)" by (simp add: K_def)
    have "(4 * K + (e + 1)) mod 4 = 0 \<longleftrightarrow> e = 3" using assms(5,6) by presburger
    moreover have "(4 * K + 4) mod 100 = 0 \<longleftrightarrow> c = 24"
    proof -
      have "4 * K + 4 = 100 * (4 * a + b) + 4 * (c + 1)" by (simp add: K_def)
      then show ?thesis using assms(3,4) by (simp only: mod_mult_self4) presburger
    qed
    moreover have "(4 * K + 4) mod 400 = 0 \<longleftrightarrow> b = 3" if "c = 24"
    proof -
      have "4 * K + 4 = 400 * a + 100 * (b + 1)" using that by (simp add: K_def)
      then show ?thesis using assms(1,2) by (simp only: mod_mult_self4) presburger
    qed
    ultimately show ?thesis unfolding leap_def y by auto
  qed
qed

lemma year_day_ok:
  assumes "year_day d = (y, yd)"
  shows "days_before_year y + yd = d" "0 \<le> yd" "yd < (if leap y then 366 else 365)"
proof -
  define a r where "a = d div 146097" and "r = d mod 146097"
  define b where "b = min 3 (r div 36524)"
  define r2 where "r2 = r - 36524 * b"
  define c r3 where "c = r2 div 1461" and "r3 = r2 mod 1461"
  define e where "e = min 3 (r3 div 365)"
  have yd: "y = 400 * a + 100 * b + 4 * c + e + 1" "yd = r3 - 365 * e"
    using assms unfolding year_day_def Let_def a_def r_def b_def r2_def c_def r3_def e_def by simp_all
  have r: "0 \<le> r" "r < 146097" "d = 146097 * a + r" by (simp_all add: a_def r_def)
  have b: "0 \<le> b" "b \<le> 3" "0 \<le> r2" "r2 < 36524 \<or> (b = 3 \<and> r2 < 36525)"
    using r unfolding b_def r2_def by (auto simp: min_def)
  have c: "0 \<le> c" "c \<le> 24" "r2 = 1461 * c + r3" "0 \<le> r3" "r3 < 1461"
    using b by (auto simp: c_def r3_def)
  have c6: "c = 24 \<Longrightarrow> b \<noteq> 3 \<Longrightarrow> r3 < 1460" using b(4) c(3) by auto
  have e: "0 \<le> e" "e \<le> 3" "0 \<le> r3 - 365 * e" "r3 - 365 * e < 365 \<or> (e = 3 \<and> r3 - 365 * e < 366)"
    using c unfolding e_def by (auto simp: min_def)
  note split = year_day_split [OF b(1,2) c(1,2) e(1,2), of a]
  show "days_before_year y + yd = d" using split(1) yd r(3) c(3) by (simp add: r2_def)
  show "0 \<le> yd" using e yd by simp
  show "yd < (if leap y then 366 else 365)" using split(2) yd e(4) c6 by auto
qed

lemma month_day_ok:
  assumes "0 \<le> d" "d < sum_list ls" "month_day ls m d = (k, i)" "\<forall>l \<in> set ls. 0 < l"
  shows "m \<le> k \<and> k < m + int (length ls) \<and> 1 \<le> i \<and> i \<le> ls ! nat (k - m) \<and>
    sum_list (take (nat (k - m)) ls) + i - 1 = d"
  using assms
proof (induction ls m d rule: month_day.induct)
  case (2 l ls m d)
  show ?case
  proof (cases "d < l")
    case True
    then show ?thesis using 2(2,4) by auto
  next
    case False
    have ih: "m + 1 \<le> k \<and> k < m + 1 + int (length ls) \<and> 1 \<le> i \<and> i \<le> ls ! nat (k - (m + 1)) \<and>
        sum_list (take (nat (k - (m + 1))) ls) + i - 1 = d - l"
      using 2(1) [OF False] 2(2-5) False by simp
    then have "nat (k - m) = Suc (nat (k - (m + 1)))" by linarith
    with ih show ?thesis by simp
  qed
qed simp

lemma month_lengths_sum: "sum_list (month_lengths lp) = (if lp then 366 else 365)"
  by (simp add: month_lengths_def)

text \<open>The date of a day is a date of the calendar, and the day of that date is the day it came from.\<close>

lemma civil_date_ok:
  assumes "civil_date n = (y, m, d)"
  shows "1 \<le> m \<and> m \<le> 12 \<and> 1 \<le> d \<and> d \<le> month_lengths (leap y) ! nat (m - 1) \<and> day_number (y, m, d) = n"
proof -
  obtain yd where y: "year_day n = (y, yd)" "month_day (month_lengths (leap y)) 1 yd = (m, d)"
    using assms by (auto simp: civil_date_def split: prod.splits)
  note yd = year_day_ok [OF y(1)]
  have "\<forall>l \<in> set (month_lengths (leap y)). 0 < l" by (simp add: month_lengths_def)
  from month_day_ok [OF yd(2) _ y(2) this] yd(1,3) show ?thesis
    by (simp add: month_lengths_sum day_number_def) (simp add: month_lengths_def)
qed

text \<open>A wall clock shows the instant it was read at.\<close>

definition instant :: "wall \<Rightarrow> Time" where
  "instant w =
     (((day_number (wl_date w) * 24 + wl_hour w) * 60 + wl_min w) * 60 + wl_sec w - wl_offset w) * Second + wl_nsec w"

lemma hms_sum:
  fixes q r h r2 m x s :: int
  assumes "86400 * q + r = s" "r = 3600 * h + r2" "r2 = 60 * m + x"
  shows "((q * 24 + h) * 60 + m) * 60 + x = s"
  using assms by simp

lemma wall_clock_instant: "instant (wall_clock zone t) = t"
proof -
  define l s where "l = t + zone t * Second" and "s = l div Second"
  obtain y m d where c: "civil_date (s div 86400) = (y, m, d)" by (metis surj_pair)
  have day: "day_number (civil_date (s div 86400)) = s div 86400" using civil_date_ok [OF c] c by simp
  have "((s div 86400 * 24 + s mod 86400 div 3600) * 60 + s mod 3600 div 60) * 60 + s mod 60 = s"
  proof -
    have "s mod 86400 = 3600 * (s mod 86400 div 3600) + s mod 3600" "s mod 3600 = 60 * (s mod 3600 div 60) + s mod 60"
      using mult_div_mod_eq [of 3600 "s mod 86400"] mult_div_mod_eq [of 60 "s mod 3600"]
      by (simp_all add: mod_mod_cancel)
    then show ?thesis by (rule hms_sum [OF mult_div_mod_eq])
  qed
  then have "instant (wall_clock zone t) = (s - zone t) * Second + l mod Second"
    by (simp add: instant_def wall_clock_def Let_def l_def [symmetric] s_def [symmetric] day)
  also have "\<dots> = s * Second + l mod Second - zone t * Second" by (simp add: left_diff_distrib)
  also have "s * Second + l mod Second = l" by (simp add: s_def)
  finally show ?thesis by (simp add: l_def)
qed

lemma wall_clock_ranges:
  "0 \<le> wl_hour (wall_clock zone t) \<and> wl_hour (wall_clock zone t) < 24 \<and>
   0 \<le> wl_min (wall_clock zone t) \<and> wl_min (wall_clock zone t) < 60 \<and>
   0 \<le> wl_sec (wall_clock zone t) \<and> wl_sec (wall_clock zone t) < 60 \<and>
   0 \<le> wl_nsec (wall_clock zone t) \<and> wl_nsec (wall_clock zone t) < Second"
  by (auto simp: wall_clock_def Let_def Second_def)

section \<open>Line ends\<close>

lemma nat_digits_no_newline: "CHR 0x0A \<notin> set (nat_digits 10 n)"
  using nat_digits_all_digits [of n] by (auto simp: list_all_iff is_digit_def)

lemma appendInt_no_newline: "CHR 0x0A \<notin> set (appendInt x w)"
  using nat_digits_no_newline by (simp add: appendInt_def Let_def)

lemma FormatInt_no_newline: "CHR 0x0A \<notin> set (FormatInt x)"
  using nat_digits_no_newline by (simp add: FormatInt_def)

lemma format_no_newline:
  "CHR 0x0A \<notin> set (format_RFC3339Nano w)" "CHR 0x0A \<notin> set (format_clock w)"
  using appendInt_no_newline
  by (auto simp: format_RFC3339Nano_def format_clock_def hms_def fraction_def zone_text_def Let_def
      dest!: set_dropWhileD set_take_subset [THEN subsetD] split: prod.splits)

text \<open>The two parts of an access-log line around the path.\<close>

definition log_head :: "(Time \<Rightarrow> int) \<Rightarrow> Entry \<Rightarrow> string" where
  "log_head zone e =
     format_RFC3339Nano (wall_clock zone (en_Time e)) @ '' remote='' @ en_Remote e @ '' method='' @ en_Method e @ '' path=''"

definition log_tail :: "Entry \<Rightarrow> string" where
  "log_tail e =
     '' status='' @ FormatInt (en_Status e) @ '' dur_ms='' @ FormatInt (Milliseconds (en_Duration e)) @
     '' cluster='' @ en_Cluster e @ '' upstream='' @ en_Upstream e @ '' req_id='' @ en_RequestID e @ newline"

lemma Log_parts: "Log zone e = log_head zone e @ en_Path e @ log_tail e"
  by (simp add: Log_def log_head_def log_tail_def)

end
