(* ===== verification/GP_Hcm.thy ===== *)
theory GP_Hcm
  imports GP_Forwarded GP_Attempts GP_Log
begin

text \<open>
  The HTTP connection manager: the chain of HTTP filters (\<^verbatim>\<open>httpcm/types.go\<close>), the loop that
  serves the requests of one connection (\<^verbatim>\<open>httpcm/hcm.go\<close>), and the registry that builds the
  chains (\<^verbatim>\<open>filter/filter.go\<close>). A filter object is a value of the datatype \<open>HTTPFilter\<close>; the
  mutable state of the rate limiter of a chain is \<open>cs_rl\<close>, which other connections change before this
  one uses it (\<open>re_rl_others\<close>). The requests that are read from a connection and what each meets are a
  list; at its end the loop waits (\<open>Blocked\<close>). What the connection prints is in \<open>k_log\<close>, and \<open>k_body\<close> is
  what was left unread of the body of the last request.
\<close>

section \<open>The filter chain\<close>

datatype HTTPFilter =
    FLogging
  | FForwarded string
  | FRateLimit
  | FRouter "RouteRule list"
  | FRouteOptions RouteOptionsFilter
  | FUpstream UpstreamProxy

record cstate =
  cs_us :: ustate
  cs_rl :: "RateLimiter option"
  cs_log :: "log_line list"

record req_env =
  re_start :: Time
  re_rand :: "nat list option"
  re_fl :: "rat \<Rightarrow> rat"
  re_created :: Time
  re_now :: Time
  re_rl_ok :: bool
  re_rl_others :: "RateLimiter option \<Rightarrow> RateLimiter option"
  re_sched :: "nat \<Rightarrow> world \<Rightarrow> world"
  re_rng :: key_order
  re_attempts :: "nat \<Rightarrow> attempt_env"
  re_write :: bool
  re_flush :: bool
  re_end :: Time

definition on_rc :: "(RequestCtx \<Rightarrow> RequestCtx) \<Rightarrow> cstate \<Rightarrow> cstate" where
  "on_rc f s = s\<lparr>cs_us := (cs_us s)\<lparr>us_rc := f (us_rc (cs_us s))\<rparr>\<rparr>"

fun OnRequest :: "req_env \<Rightarrow> HTTPFilter \<Rightarrow> cstate \<Rightarrow> (uerr option \<times> cstate) go" where
  "OnRequest e FLogging s = Ret (None, s\<lparr>cs_log := cs_log s @ [HttpRequest (us_rc (cs_us s))]\<rparr>)"
| "OnRequest e (FForwarded name) s = Ret (None, on_rc (ForwardedHeaders_OnRequest name (re_rand e)) s)"
| "OnRequest e FRateLimit s =
     go_bind (RateLimiter_OnRequest (re_fl e) (re_created e) (re_now e) (re_rl_ok e) (re_rl_others e (cs_rl s))
                (us_rc (cs_us s), w_reg (us_w (cs_us s))))
       (\<lambda>(rl, rc, m).
          Ret (None, s\<lparr>cs_us := (cs_us s)\<lparr>us_rc := rc, us_w := (us_w (cs_us s))\<lparr>w_reg := m\<rparr>\<rparr>, cs_rl := rl\<rparr>))"
| "OnRequest e (FRouter routes) s = Ret (None, on_rc (Router_OnRequest routes) s)"
| "OnRequest e (FRouteOptions f) s = Ret (None, on_rc (RouteOptions_OnRequest (re_rng e) f) s)"
| "OnRequest e (FUpstream u) s =
     go_bind (Upstream_OnRequest (re_rng e) u (re_attempts e) (cs_us s))
       (\<lambda>(err, us). Ret (err, s\<lparr>cs_us := us\<rparr>))"

fun Chain_Run :: "req_env \<Rightarrow> HTTPFilter list \<Rightarrow> cstate \<Rightarrow> (uerr option \<times> cstate) go" where
  "Chain_Run e [] s = Ret (None, s)"
| "Chain_Run e (f # fs) s =
     go_bind (OnRequest e f s) (\<lambda>(err, s).
       case err of Some x \<Rightarrow> Ret (Some x, s) | None \<Rightarrow> Chain_Run e fs s)"

text \<open>A chain copies the list it is built from (both in \<^verbatim>\<open>httpcm\<close> and in \<^verbatim>\<open>filter\<close>).\<close>

definition NewChain :: "'f list \<Rightarrow> 'f list" where
  "NewChain filters = map (\<lambda>f. f) filters"

definition NewWithFilters :: "HTTPFilter list \<Rightarrow> HTTPFilter list" where
  "NewWithFilters filters = NewChain filters"

definition New_HCM :: "HTTPFilter list" where
  "New_HCM = NewChain [FLogging]"

lemma NewChain_simp [simp]: "NewChain fs = fs" "NewWithFilters hs = hs"
  by (simp_all add: NewChain_def NewWithFilters_def)

section \<open>Serving a connection\<close>

text \<open>The context of a connection (\<^verbatim>\<open>connctx/connctx.go\<close>).\<close>

record TLSState =
  ts_NegotiatedProtocol :: string
  ts_ServerName :: string

record ConnCtx =
  cc_Remote :: Addr
  cc_Start :: Time
  cc_TLS :: "TLSState option"

record conn_state =
  k_w :: world
  k_rl :: "RateLimiter option"
  k_log :: "log_line list"
  k_out :: "wire list list"
  k_body :: Body

datatype hcm_err = CtxErr cerr | ReadFailed | FlushFailed | ResponseWriteFailed

datatype verdict = Continue | Return "hcm_err option"

text \<open>
  A read that failed: end of the stream, or an error that may be a network error (is it a timeout,
  is it temporary), may wrap a closed connection, with the error of the context if that is done.
\<close>

datatype read_err = EOF | ReadErr "(bool \<times> bool) option" bool "cerr option"

definition read_verdict :: "read_err \<Rightarrow> hcm_err option" where
  "read_verdict r =
     (case r of
        EOF \<Rightarrow> None
      | ReadErr net isClosed ctx \<Rightarrow>
          (case (net, ctx) of
             (Some (timeout, temporary), Some c) \<Rightarrow>
               if timeout \<or> \<not> temporary then Some (CtxErr c)
               else if isClosed then None else Some ReadFailed
           | _ \<Rightarrow> if isClosed then None else Some ReadFailed))"

definition log_entry :: "req_env \<Rightarrow> RequestCtx \<Rightarrow> int \<Rightarrow> Entry" where
  "log_entry e rc status =
     \<lparr>en_Time = rc_Start rc, en_Remote = addr_string (rc_Remote rc), en_Method = rq_Method (rc_Req rc),
      en_Path = rq_Path (rc_Req rc), en_Status = status, en_Duration = SubTime (re_end e) (rc_Start rc),
      en_Cluster = rc_UpstreamCluster rc, en_Upstream = rc_UpstreamAddr rc, en_RequestID = rc_RequestID rc\<rparr>"

definition account :: "req_env \<Rightarrow> RequestCtx \<Rightarrow> int \<Rightarrow> conn_state \<Rightarrow> conn_state" where
  "account e rc status k =
     k\<lparr>k_log := k_log k @ [Access (log_entry e rc status)],
       k_w := (k_w k)\<lparr>w_reg := IncCode status
                (IncDownstreamRequest (rq_Method (rc_Req rc)) (rc_UpstreamCluster rc) (w_reg (k_w k)))\<rparr>\<rparr>"

text \<open>Writing a response of the connection manager itself, flushing it, and accounting for it.\<close>

definition own_response :: "req_env \<Rightarrow> Request \<Rightarrow> RequestCtx \<Rightarrow> int \<Rightarrow> string \<Rightarrow> conn_state \<Rightarrow> verdict \<times> conn_state" where
  "own_response e req rc status body k =
     (let resp = text_response req status body (rq_Close req) in
      if \<not> re_write e then (Return (Some ResponseWriteFailed), k\<lparr>k_out := k_out k @ [rc_W rc @ [Aborted resp]]\<rparr>)
      else
        (let k = k\<lparr>k_out := k_out k @ [rc_W rc @ [Sent resp]]\<rparr> in
         if \<not> re_flush e then (Return (Some FlushFailed), k)
         else (if rs_Close resp then Return None else Continue, account e rc status k)))"

text \<open>\<^verbatim>\<open>errors.Is(err, context.DeadlineExceeded)\<close> for an error of the chain.\<close>

fun wraps_deadline :: "uerr \<Rightarrow> bool" where
  "wraps_deadline (Upstream e) = is_deadline e"
| "wraps_deadline (WriteFailed d) = d"
| "wraps_deadline _ = False"

text \<open>The state in which the chain of a request starts.\<close>

definition start_state :: "ConnCtx \<Rightarrow> req_env \<Rightarrow> Request \<Rightarrow> conn_state \<Rightarrow> cstate" where
  "start_state c e req k =
     \<lparr>cs_us = \<lparr>us_rc = new_rc req (cc_Remote c) (re_start e) (cc_TLS c \<noteq> None),
               us_w = (k_w k)\<lparr>w_reg := Inc ''downstream_http_requests_total'' (w_reg (k_w k))\<rparr>, us_trace = [],
               us_sched = re_sched e, us_clock = 0\<rparr>,
      cs_rl = k_rl k, cs_log = k_log k\<rparr>"

definition handle_request :: "HTTPFilter list \<Rightarrow> ConnCtx \<Rightarrow> req_env \<Rightarrow> Request \<Rightarrow> conn_state
    \<Rightarrow> (verdict \<times> conn_state) go" where
  "handle_request filters c e req k =
     go_bind (Chain_Run e filters (start_state c e req k))
       (\<lambda>(err, s).
          let rc = us_rc (cs_us s);
              k = k\<lparr>k_w := us_w (cs_us s), k_rl := cs_rl s, k_log := cs_log s, k_body := body_of rc\<rparr>
          in if rc_Responded rc then
               (let k = k\<lparr>k_out := k_out k @ [rc_W rc]\<rparr> in
                if \<not> re_flush e then Ret (Return (Some FlushFailed), k)
                else
                  (let status = (if rc_StatusCode rc = 0 then 200 else rc_StatusCode rc)
                   in Ret (if rq_Close req then Return None else Continue, account e rc status k)))
             else
               (case err of
                  Some x \<Rightarrow>
                    (let status = (if wraps_deadline x then 504 else 502);
                         body = (if status = 504 then ''gateway timeout'' @ newline else ''bad gateway'' @ newline)
                     in Ret (own_response e req rc status body k))
                | None \<Rightarrow>
                    (if rc_UpstreamCluster rc = []
                     then Ret (own_response e req rc 404 (''no route'' @ newline) k)
                     else Ret (own_response e req rc 200
                            (''routed to: '' @ rc_UpstreamCluster rc @ newline) k))))"

datatype input = GotRequest req_env Request | GotError read_err

fun Handle :: "HTTPFilter list \<Rightarrow> ConnCtx \<Rightarrow> input list \<Rightarrow> conn_state \<Rightarrow> (hcm_err option \<times> conn_state) go" where
  "Handle filters c [] k = Blocked"
| "Handle filters c (GotError r # ins) k = Ret (read_verdict r, k)"
| "Handle filters c (GotRequest e req # ins) k =
     go_bind (handle_request filters c e req k) (\<lambda>(v, k).
       case v of Return r \<Rightarrow> Ret (r, k) | Continue \<Rightarrow> Handle filters c ins k)"

section \<open>The registry\<close>

datatype NetworkFilter = NLogging | NHcm "HTTPFilter list"

definition http_filters :: "bool \<Rightarrow> ProxyConfig \<Rightarrow> HTTPFilter list" where
  "http_filters hasLimiter cfg =
     [FLogging, FForwarded ''go-proxy''] @ (if hasLimiter then [FRateLimit] else []) @
     [FRouter (Routes cfg), FRouteOptions (NewRouteOptionsFilter (Routes cfg)),
      FUpstream (NewUpstreamProxy (Clusters cfg))]"

text \<open>The registry: named network filters, and the limiter of the chain it builds.\<close>

definition NewRegistry :: "(rat \<Rightarrow> rat) \<Rightarrow> Time \<Rightarrow> ProxyConfig \<Rightarrow> (string, NetworkFilter) fmap \<times> RateLimiter option" where
  "NewRegistry fl now cfg =
     (let rl = NewRateLimiter fl now (RateLimit cfg);
          m = fmupd ''logging'' NLogging fmempty
      in (fmupd ''hcm'' (NHcm (NewWithFilters (http_filters (rl \<noteq> None) cfg))) m, rl))"

definition Resolve :: "(string, NetworkFilter) fmap \<Rightarrow> string \<Rightarrow> NetworkFilter option" where
  "Resolve m name = fmlookup m name"

text \<open>
  Network filters run in order on a connection; the first error stops the chain. Each connection
  manager of the chain has its own list of inputs.
\<close>

fun Chain_Execute :: "NetworkFilter list \<Rightarrow> ConnCtx \<Rightarrow> input list list \<Rightarrow> conn_state
    \<Rightarrow> (hcm_err option \<times> conn_state) go" where
  "Chain_Execute [] c inss k = Ret (None, k)"
| "Chain_Execute (NLogging # nfs) c inss k =
     Chain_Execute nfs c inss (k\<lparr>k_log := k_log k @ [Accepted (cc_Remote c) (cc_Start c)]\<rparr>)"
| "Chain_Execute (NHcm filters # nfs) c [] k = Blocked"
| "Chain_Execute (NHcm filters # nfs) c (ins # inss) k =
     go_bind (Handle filters c ins k) (\<lambda>(err, k).
       case err of Some x \<Rightarrow> Ret (Some x, k) | None \<Rightarrow> Chain_Execute nfs c inss k)"

section \<open>What the filters leave alone\<close>

lemma forwarded_frame [simp]:
  "rc_W (ForwardedHeaders_OnRequest name rand rc) = rc_W rc"
  "rc_Responded (ForwardedHeaders_OnRequest name rand rc) = rc_Responded rc"
  "rc_UpstreamCluster (ForwardedHeaders_OnRequest name rand rc) = rc_UpstreamCluster rc"
  "rc_Remote (ForwardedHeaders_OnRequest name rand rc) = rc_Remote rc"
  "rq_Path (rc_Req (ForwardedHeaders_OnRequest name rand rc)) = rq_Path (rc_Req rc)"
  by (simp_all add: ForwardedHeaders_OnRequest_def Let_def)

lemma router_frame [simp]:
  "rc_W (Router_OnRequest routes rc) = rc_W rc" "rc_Responded (Router_OnRequest routes rc) = rc_Responded rc"
  "rc_Req (Router_OnRequest routes rc) = rc_Req rc" "rc_Remote (Router_OnRequest routes rc) = rc_Remote rc"
  by (simp_all add: Router_OnRequest_def route_loop_spec split: option.splits)

lemma options_frame [simp]:
  "rc_W (RouteOptions_OnRequest rng f rc) = rc_W rc"
  "rc_Responded (RouteOptions_OnRequest rng f rc) = rc_Responded rc"
  "rc_UpstreamCluster (RouteOptions_OnRequest rng f rc) = rc_UpstreamCluster rc"
  by (simp_all add: RouteOptions_OnRequest_def Let_def split: option.splits)

lemma origin_forwarded: "origin (ForwardedHeaders_OnRequest nm rand rc) = origin rc"
  by (simp add: origin_def ForwardedHeaders_OnRequest_def Let_def case_prod_beta)

lemma origin_router: "origin (Router_OnRequest routes rc) = origin rc"
  by (simp add: origin_def Router_OnRequest_def route_loop_spec split: option.split)

lemma origin_options: "origin (RouteOptions_OnRequest rng f rc) = origin rc"
  by (simp add: origin_def RouteOptions_OnRequest_def Let_def split: option.split)

lemma router_cluster:
  "rc_UpstreamCluster rc = [] \<Longrightarrow> rc_UpstreamCluster (Router_OnRequest routes rc) =
     (case first_match (rq_Path (rc_Req rc)) routes of
        Some i \<Rightarrow> rr_Cluster (routes ! i) | None \<Rightarrow> catch_all routes)"
  by (simp add: Router_OnRequest_def route_loop_spec split: option.splits)

text \<open>A request as the upstream proxy sees it, and the chain without a rate limiter.\<close>

definition routed :: "req_env \<Rightarrow> ProxyConfig \<Rightarrow> RequestCtx \<Rightarrow> RequestCtx" where
  "routed e cfg rc =
     RouteOptions_OnRequest (re_rng e) (NewRouteOptionsFilter (Routes cfg)) (Router_OnRequest (Routes cfg) rc)"

definition proxied :: "req_env \<Rightarrow> ProxyConfig \<Rightarrow> cstate \<Rightarrow> (uerr option \<times> cstate) go" where
  "proxied e cfg s =
     go_bind (Upstream_OnRequest (re_rng e) (NewUpstreamProxy (Clusters cfg)) (re_attempts e)
                (cs_us (on_rc (routed e cfg) s)))
       (\<lambda>(err, us). Ret (err, s\<lparr>cs_us := us\<rparr>))"

lemma chain_tail:
  "Chain_Run e [FRouter (Routes cfg), FRouteOptions (NewRouteOptionsFilter (Routes cfg)),
     FUpstream (NewUpstreamProxy (Clusters cfg))] s = proxied e cfg s"
proof (cases "Upstream_OnRequest (re_rng e) (NewUpstreamProxy (Clusters cfg)) (re_attempts e)
    (cs_us (on_rc (routed e cfg) s))")
  case (Ret r)
  then show ?thesis
    by (cases r) (auto simp: proxied_def on_rc_def routed_def split: option.splits)
qed (simp_all add: proxied_def on_rc_def routed_def)

text \<open>The state after the filters that come first: the request is logged, the headers are set.\<close>

definition prepared :: "req_env \<Rightarrow> cstate \<Rightarrow> cstate" where
  "prepared e s =
     on_rc (ForwardedHeaders_OnRequest ''go-proxy'' (re_rand e)) (s\<lparr>cs_log := cs_log s @ [HttpRequest (us_rc (cs_us s))]\<rparr>)"

lemma chain_unlimited:
  "Chain_Run e (http_filters False cfg) s = proxied e cfg (prepared e s)"
  by (simp add: http_filters_def del: Chain_Run.simps) (simp add: Chain_Run.simps(2) [of e FLogging]
      Chain_Run.simps(2) [of e "FForwarded _"] chain_tail prepared_def del: Chain_Run.simps)

lemma origin_routed: "origin (routed e cfg rc) = origin rc"
  by (simp add: routed_def origin_router origin_options)

lemma upstream_origin: "Upstream_OnRequest rng u envs s = Ret (err, s') \<Longrightarrow> origin (us_rc s') = origin (us_rc s)"
  using loop_origin by (auto simp: Upstream_OnRequest_def Let_def split: if_splits)

lemma upstream_wrote:
  assumes "Upstream_OnRequest rng u envs s = Ret (err, s')" "cluster_of s \<noteq> []"
  shows "attempt_wrote (Done err) (us_rc s) (us_rc s')"
  using assms loop_wrote by (auto simp: Upstream_OnRequest_def Let_def)

section \<open>One response for each request\<close>

lemma own_response_out:
  "\<exists>x. k_out (snd (own_response e req rc status body k)) = k_out k @ [rc_W rc @ [x]] \<and> answers (rq_Method req) x \<and>
     (fst (own_response e req rc status body k) = Continue \<longrightarrow> x = Sent (text_response req status body (rq_Close req)))"
  by (simp add: own_response_def Let_def account_def)

text \<open>
  The responses of one request on a connection: exactly one, unless the write of the upstream
  response broke off and the connection manager added its own; and they answer this request.
\<close>

definition single_response :: "string \<Rightarrow> wire list \<Rightarrow> bool" where
  "single_response meth ws \<longleftrightarrow> ((\<exists>x. ws = [x]) \<or> (\<exists>x y. ws = [Aborted x, y])) \<and> list_all (answers meth) ws"

lemma finish_out:
  assumes "attempt_wrote (Done err) rc0 rc \<or> (err = None \<and> quiet rc0 rc)" "rc_W rc0 = []" "\<not> rc_Responded rc0"
  shows "if rc_Responded rc then single_response (rq_Method (rc_Req rc0)) (rc_W rc)
    else \<forall>x. answers (rq_Method (rc_Req rc0)) x \<longrightarrow> single_response (rq_Method (rc_Req rc0)) (rc_W rc @ [x])"
  using assms
  by (auto simp: attempt_wrote_def answered_def quiet_def single_response_def split: option.splits uerr.splits)

lemma handle_request_cases:
  assumes "handle_request filters c e req k = Ret (v, k')"
  obtains err s where "Chain_Run e filters (start_state c e req k) = Ret (err, s)"
    and "if rc_Responded (us_rc (cs_us s)) then k_out k' = k_out k @ [rc_W (us_rc (cs_us s))]
      else \<exists>x. answers (rq_Method req) x \<and> k_out k' = k_out k @ [rc_W (us_rc (cs_us s)) @ [x]]"
proof -
  let ?k = "\<lambda>s. k\<lparr>k_w := us_w (cs_us s), k_rl := cs_rl s, k_log := cs_log s, k_body := body_of (us_rc (cs_us s))\<rparr>"
  obtain err s where run: "Chain_Run e filters (start_state c e req k) = Ret (err, s)"
    using assms by (auto simp: handle_request_def Let_def go_bind_eq_Ret)
  have own: "\<exists>x. answers (rq_Method req) x \<and> k_out k' = k_out k @ [rc_W (us_rc (cs_us s)) @ [x]]"
    if "own_response e req (us_rc (cs_us s)) status body (?k s) = (v, k')" for status body
    using own_response_out [of e req "us_rc (cs_us s)" status body "?k s"] that
    by auto
  show thesis
  proof (rule that [OF run])
    show "if rc_Responded (us_rc (cs_us s)) then k_out k' = k_out k @ [rc_W (us_rc (cs_us s))]
      else \<exists>x. answers (rq_Method req) x \<and> k_out k' = k_out k @ [rc_W (us_rc (cs_us s)) @ [x]]"
      using assms run own
      by (auto simp: handle_request_def Let_def account_def
          split: if_splits option.splits)
  qed
qed

lemma handle_request_returns:
  assumes "Chain_Run e filters (start_state c e req k) = Ret (err, s)"
  shows "\<exists>r. handle_request filters c e req k = Ret r"
  using assms
  by (cases err) (simp_all add: handle_request_def Let_def del: Chain_Run.simps)

lemma handle_request_out:
  assumes "handle_request (http_filters False cfg) c e req k = Ret (v, k')"
  shows "\<exists>ws. k_out k' = k_out k @ [ws] \<and> single_response (rq_Method req) ws"
  using assms
proof (rule handle_request_cases)
  fix err :: "uerr option" and s :: cstate
  let ?prep = "on_rc (routed e cfg) (prepared e (start_state c e req k))"
  let ?early = "us_rc (cs_us ?prep)" and ?late = "us_rc (cs_us s)"
  assume "Chain_Run e (http_filters False cfg) (start_state c e req k) = Ret (err, s)"
  then have up: "Upstream_OnRequest (re_rng e) (NewUpstreamProxy (Clusters cfg)) (re_attempts e) (cs_us ?prep) = Ret (err, cs_us s)"
    by (auto simp: chain_unlimited proxied_def go_bind_eq_Ret)
  have rc0: "rc_W ?early = []" "\<not> rc_Responded ?early"
    by (simp_all add: on_rc_def routed_def prepared_def start_state_def new_rc_def)
  have "origin ?early = origin (new_rc req (cc_Remote c) (re_start e) (cc_TLS c \<noteq> None))"
    by (simp add: on_rc_def origin_routed prepared_def origin_forwarded start_state_def)
  then have meth: "rq_Method (rc_Req ?early) = rq_Method req" by (simp add: origin_def new_rc_def)
  have "attempt_wrote (Done err) ?early ?late \<or> (err = None \<and> quiet ?early ?late)"
  proof (cases "cluster_of (cs_us ?prep) = []")
    case True
    with up show ?thesis by (auto simp: Upstream_OnRequest_def quiet_def)
  next
    case False
    with upstream_wrote [OF up] show ?thesis by simp
  qed
  note fin = finish_out [OF this rc0, unfolded meth]
  assume "if rc_Responded ?late then k_out k' = k_out k @ [rc_W ?late] else \<exists>x. answers (rq_Method req) x \<and> k_out k' = k_out k @ [rc_W ?late @ [x]]"
  with fin show ?thesis by (auto split: if_splits)
qed

text \<open>
  How many of the inputs a connection reads before it ends: with fewer it is still waiting. Each
  request that is read adds one entry to the output.
\<close>

fun requests_of :: "input list \<Rightarrow> (req_env \<times> Request) list" where
  "requests_of [] = []"
| "requests_of (GotRequest e req # ins) = (e, req) # requests_of ins"
| "requests_of (GotError r # ins) = requests_of ins"

definition requests :: "input list \<Rightarrow> nat" where
  "requests ins = length (requests_of ins)"

definition reads :: "HTTPFilter list \<Rightarrow> ConnCtx \<Rightarrow> input list \<Rightarrow> conn_state \<Rightarrow> (hcm_err option \<times> conn_state) \<Rightarrow> nat \<Rightarrow> bool" where
  "reads filters c ins k res n \<longleftrightarrow>
     Handle filters c (take n ins) k = Ret res \<and> (\<forall>m < n. Handle filters c (take m ins) k = Blocked)"

lemma reads_error: "reads filters c (GotError r # ins) k (read_verdict r, k) 1"
  by (simp add: reads_def)

lemma reads_request:
  assumes "handle_request filters c e req k = Ret (v, k1)"
  shows "v = Return r \<Longrightarrow> reads filters c (GotRequest e req # ins) k (r, k1) 1"
    and "v = Continue \<Longrightarrow> reads filters c ins k1 res n \<Longrightarrow>
      reads filters c (GotRequest e req # ins) k res (Suc n)"
  using assms by (auto simp: reads_def take_Cons' less_Suc_eq_0_disj)

lemma Handle_out:
  "Handle (http_filters False cfg) c ins k = Ret (r, k') \<Longrightarrow>
     \<exists>n wss. reads (http_filters False cfg) c ins k (r, k') n \<and> k_out k' = k_out k @ wss \<and>
       list_all2 (\<lambda>(e, req). single_response (rq_Method req)) (requests_of (take n ins)) wss"
proof (induction "http_filters False cfg" c ins k rule: Handle.induct)
  case (2 c x ins k)
  then have "reads (http_filters False cfg) c (GotError x # ins) k (r, k') 1" "k' = k"
    using reads_error by auto
  then show ?case by (intro exI [of _ 1] exI [of _ "[]"]) simp
next
  case (3 c e req ins k)
  obtain v k1 where req: "handle_request (http_filters False cfg) c e req k = Ret (v, k1)"
    using 3(2) by (auto simp: go_bind_eq_Ret)
  obtain ws where ws: "k_out k1 = k_out k @ [ws]" "single_response (rq_Method req) ws" using handle_request_out [OF req] by blast
  show ?case
  proof (cases v)
    case Continue
    have "Handle (http_filters False cfg) c ins k1 = Ret (r, k')" using 3(2) req Continue by simp
    from 3(1) [OF Continue this] obtain n wss where "reads (http_filters False cfg) c ins k1 (r, k') n"
        "k_out k' = k_out k1 @ wss" "list_all2 (\<lambda>(e, req). single_response (rq_Method req)) (requests_of (take n ins)) wss" by blast
    with ws reads_request(2) [OF req Continue] show ?thesis
      by (intro exI [of _ "Suc n"] exI [of _ "ws # wss"]) simp
  next
    case (Return x)
    with 3(2) req ws reads_request(1) [OF req Return] show ?thesis
      by (intro exI [of _ 1] exI [of _ "[ws]"]) simp
  qed
qed simp

section \<open>A request that the rate limiter denies\<close>

lemma chain_limited:
  "Chain_Run e (http_filters True cfg) s =
     go_bind (OnRequest e FRateLimit (prepared e s))
       (\<lambda>(err, s). proxied e cfg s)"
proof -
  let ?s = "prepared e s"
  have head: "Chain_Run e (http_filters True cfg) s =
      Chain_Run e (FRateLimit # [FRouter (Routes cfg), FRouteOptions (NewRouteOptionsFilter (Routes cfg)),
        FUpstream (NewUpstreamProxy (Clusters cfg))]) ?s"
    by (simp add: http_filters_def Chain_Run.simps(2) [of e FLogging] Chain_Run.simps(2) [of e "FForwarded _"]
        prepared_def del: Chain_Run.simps)
  show ?thesis
  proof (cases "RateLimiter_OnRequest (re_fl e) (re_created e) (re_now e) (re_rl_ok e) (re_rl_others e (cs_rl ?s))
        (us_rc (cs_us ?s), w_reg (us_w (cs_us ?s)))")
    case (Ret r)
    then show ?thesis
      by (cases r) (simp add: head Chain_Run.simps(2) [of e FRateLimit] chain_tail del: Chain_Run.simps)
  qed (simp_all add: head)
qed

lemma limiter_denies:
  assumes "getBucket rl (limit_ip rl rc) created = Some b" "\<not> fst (allow fl now b)"
  shows "\<exists>rl' m'. RateLimiter_OnRequest fl created now ok (Some rl) (rc, m) =
    Ret (Some rl', answer ok (text_response (rc_Req rc) 429 (''rate limited'' @ [CHR 0x0A]) True) rc, m')"
  using assms by (auto simp: RateLimiter_OnRequest_def Let_def case_prod_beta)

end
