(* ===== verification/GP_H2.thy ===== *)
theory GP_H2
  imports GP_Hcm
begin

text \<open>
  The HTTP/2 handler (\<^verbatim>\<open>httpcm/h2handler.go\<close>): its own chain of filters, and the translator that
  turns the HTTP/1 bytes the filters write into calls of an \<^verbatim>\<open>http.ResponseWriter\<close>. The
  response writer keeps its header map, the status and header that were sent (a final status is sent
  once), and the body. How \<^verbatim>\<open>http.Response.Write\<close> lays a response out in bytes, and in
  which pieces it writes them, is the argument \<open>ser\<close>.
\<close>

section \<open>The response writer\<close>

record RespWriter =
  rw_header :: Header
  rw_sent :: "(int \<times> Header) option"
  rw_body :: string

text \<open>
  \<^verbatim>\<open>WriteHeader\<close> does nothing once a final status was sent, and panics on a code of the wrong
  length; informational codes are sent on their own and are not final.
\<close>

definition WriteHeader :: "int \<Rightarrow> RespWriter \<Rightarrow> RespWriter go" where
  "WriteHeader code w =
     (if rw_sent w \<noteq> None then Ret w
      else if code < 100 \<or> 999 < code then Panic ''invalid WriteHeader code''
      else if code < 200 then Ret w
      else Ret (w\<lparr>rw_sent := Some (code, rw_header w)\<rparr>))"

definition rw_Write :: "string \<Rightarrow> RespWriter \<Rightarrow> RespWriter" where
  "rw_Write p w =
     (let w = (if rw_sent w = None then w\<lparr>rw_sent := Some (200, rw_header w)\<rparr> else w)
      in w\<lparr>rw_body := rw_body w @ p\<rparr>)"

section \<open>Parsing\<close>

fun atoi_loop :: "int \<Rightarrow> string \<Rightarrow> int option" where
  "atoi_loop n [] = Some n"
| "atoi_loop n (c # cs) =
     (if \<not> is_digit c then None else atoi_loop (wrap64 (wrap64 (n * 10) + int (digit_val c))) cs)"

definition strconvAtoi :: "string \<Rightarrow> int option" where
  "strconvAtoi s = atoi_loop 0 s"

fun Index :: "string \<Rightarrow> string \<Rightarrow> nat option" where
  "Index pat [] = (if pat = [] then Some 0 else None)"
| "Index pat (x # xs) = (if HasPrefix (x # xs) pat then Some 0 else map_option Suc (Index pat xs))"

definition LF :: char where "LF = CHR 0x0A"
definition CR :: char where "CR = CHR 0x0D"
definition CRLF :: string where "CRLF = [CR, LF]"

text \<open>\<^verbatim>\<open>ReadString('\n')\<close>: the line with its end, the rest, and whether the input ended before.\<close>

definition read_line :: "string \<Rightarrow> string \<times> string \<times> bool" where
  "read_line s =
     (case IndexByte s LF of
        None \<Rightarrow> (s, [], True)
      | Some i \<Rightarrow> (take (Suc i) s, drop (Suc i) s, False))"

definition trim_eol :: "string \<Rightarrow> string" where
  "trim_eol s = rev (dropWhile (\<lambda>c. c = CR \<or> c = LF) (rev s))"

definition header_field :: "string \<Rightarrow> Header \<Rightarrow> Header" where
  "header_field s h =
     (case IndexByte s CHR '':'' of
        None \<Rightarrow> h
      | Some i \<Rightarrow> hdr_add (TrimSpace (take i s)) (TrimSpace (drop (Suc i) s)) h)"

lemma IndexByte_less: "IndexByte s c = Some i \<Longrightarrow> i < length s"
  by (induction s arbitrary: i) (auto split: if_splits)

lemma read_line_shorter: "(l, rest, False) = read_line s \<Longrightarrow> length rest < length s"
  by (auto simp: read_line_def dest: IndexByte_less split: option.splits)

function header_loop :: "string \<Rightarrow> Header \<Rightarrow> Header" where
  "header_loop s h =
     (case read_line s of (l, rest, eof) \<Rightarrow>
        if eof \<or> l = [] then h
        else (let t = trim_eol l in
              if t = [] then h else header_loop rest (header_field t h)))"
  by pat_completeness auto
termination
  by (relation "measure (\<lambda>(s, h). length s)") (auto dest: read_line_shorter)

declare header_loop.simps [simp del]

definition status_of :: "string \<Rightarrow> int" where
  "status_of line =
     (let parts = SplitByte (TrimSpace line) CHR '' '' in
      if 2 \<le> length parts then (case strconvAtoi (parts ! 1) of Some c \<Rightarrow> c | None \<Rightarrow> 200) else 200)"

section \<open>The translator\<close>

record respTranslator =
  rt_w :: RespWriter
  rt_buf :: string
  rt_parsed :: bool

definition add_all :: "key_order \<Rightarrow> Header \<Rightarrow> Header \<Rightarrow> Header" where
  "add_all rng src dst =
     foldl (\<lambda>dst k. foldl (\<lambda>dst v. hdr_add k v dst) dst (case fmlookup src k of None \<Rightarrow> [] | Some vv \<Rightarrow> vv))
       dst (rng 0 (fmdom' src))"

text \<open>The response head is complete: parse it, send it, and write what follows it.\<close>

definition rt_emit :: "key_order \<Rightarrow> string \<Rightarrow> string \<Rightarrow> respTranslator \<Rightarrow> respTranslator go" where
  "rt_emit rng head rest rt =
     (let (line, more, eof) = read_line head;
          status = status_of line;
          hdr = header_loop more fmempty;
          w = (rt_w rt)\<lparr>rw_header := add_all rng hdr (rw_header (rt_w rt))\<rparr>
      in go_bind (WriteHeader status w) (\<lambda>w.
           Ret \<lparr>rt_w = (if rest \<noteq> [] then rw_Write rest w else w), rt_buf = [], rt_parsed = True\<rparr>))"

definition rt_Write :: "key_order \<Rightarrow> string \<Rightarrow> respTranslator \<Rightarrow> respTranslator go" where
  "rt_Write rng p rt =
     (if rt_parsed rt then Ret (rt\<lparr>rt_w := rw_Write p (rt_w rt)\<rparr>)
      else
        (let data = rt_buf rt @ p in
         case Index (CRLF @ CRLF) data of
           None \<Rightarrow> Ret (rt\<lparr>rt_buf := data\<rparr>)
         | Some sep \<Rightarrow> rt_emit rng (take sep data) (drop (sep + 4) data) rt))"

fun rt_WriteAll :: "key_order \<Rightarrow> string list \<Rightarrow> respTranslator \<Rightarrow> respTranslator go" where
  "rt_WriteAll rng [] rt = Ret rt"
| "rt_WriteAll rng (p # ps) rt = go_bind (rt_Write rng p rt) (rt_WriteAll rng ps)"

section \<open>The handler\<close>

definition h2_filters :: "bool \<Rightarrow> ProxyConfig \<Rightarrow> HTTPFilter list" where
  "h2_filters hasLimiter cfg =
     [FLogging, FForwarded ''go-proxy''] @ (if hasLimiter then [FRateLimit] else []) @
     [FRouter (Routes cfg), FUpstream (NewUpstreamProxy (Clusters cfg))]"

definition NewH2Handler :: "(rat \<Rightarrow> rat) \<Rightarrow> Time \<Rightarrow> ProxyConfig \<Rightarrow> HTTPFilter list \<times> RateLimiter option" where
  "NewH2Handler fl now cfg =
     (let rl = NewRateLimiter fl now (RateLimit cfg) in (NewChain (h2_filters (rl \<noteq> None) cfg), rl))"

definition new_writer :: RespWriter where
  "new_writer = \<lparr>rw_header = fmempty, rw_sent = None, rw_body = []\<rparr>"

definition ServeHTTP :: "(wire \<Rightarrow> string list) \<Rightarrow> key_order \<Rightarrow> HTTPFilter list \<Rightarrow> string \<Rightarrow> bool \<Rightarrow> req_env \<Rightarrow> Request
    \<Rightarrow> world \<times> RateLimiter option \<times> log_line list \<Rightarrow> (RespWriter \<times> world \<times> RateLimiter option \<times> log_line list) go" where
  "ServeHTTP ser rng chain remoteAddr tls e req = (\<lambda>(w, rl, lg).
     let rc = new_rc req (OtherAddr remoteAddr) (re_start e) tls in
     go_bind (Chain_Run e chain \<lparr>cs_us = \<lparr>us_rc = rc, us_w = w, us_trace = [], us_sched = re_sched e, us_clock = 0\<rparr>,
                                 cs_rl = rl, cs_log = lg\<rparr>) (\<lambda>(err, s).
       let rc = us_rc (cs_us s) in
       go_bind (rt_WriteAll rng (concat (map ser (rc_W rc)))
                  \<lparr>rt_w = new_writer, rt_buf = [], rt_parsed = False\<rparr>) (\<lambda>rt.
         if rc_Responded rc then Ret (rt_w rt, us_w (cs_us s), cs_rl s, cs_log s)
         else
           (let status = (if rc_UpstreamCluster rc \<noteq> [] then 200 else 404);
                body = (if rc_UpstreamCluster rc \<noteq> [] then ''routed to: '' @ rc_UpstreamCluster rc @ newline
                        else ''no route'' @ newline);
                out = rt_w rt;
                out = out\<lparr>rw_header := hdr_set ''Content-Type'' ''text/plain; charset=utf-8'' (rw_header out)\<rparr>
            in go_bind (WriteHeader status out) (\<lambda>out. Ret (rw_Write body out, us_w (cs_us s), cs_rl s, cs_log s))))))"

section \<open>Chunks do not matter\<close>

lemma Index_bound: "Index pat s = Some i \<Longrightarrow> i + length pat \<le> length s"
proof (induction s arbitrary: i)
  case (Cons x xs)
  then show ?case by (auto simp: HasPrefix_def split: if_splits)
qed (auto split: if_splits)

lemma Index_append: "Index pat s = Some i \<Longrightarrow> Index pat (s @ t) = Some i"
proof (induction s arbitrary: i)
  case Nil
  then show ?case by (cases t) (auto split: if_splits)
next
  case (Cons x xs)
  have "length pat \<le> length (x # xs)" using Index_bound [OF Cons.prems] by simp
  then have "take (length pat) ((x # xs) @ t) = take (length pat) (x # xs)"
    by (simp only: take_append) simp
  then have "HasPrefix (x # xs @ t) pat = HasPrefix (x # xs) pat"
    using \<open>length pat \<le> length (x # xs)\<close> by (simp add: HasPrefix_def)
  then show ?case using Cons by (auto split: if_splits)
qed

lemma rw_Write_append: "rw_Write q (rw_Write p w) = rw_Write (p @ q) w"
  by (simp add: rw_Write_def Let_def)

lemma rt_emit_append:
  assumes "q \<noteq> []"
  shows "go_bind (rt_emit rng head rest rt) (rt_Write rng q) = rt_emit rng head (rest @ q) rt"
proof -
  obtain line more eof where rl: "read_line head = (line, more, eof)" by (metis surj_pair)
  show ?thesis
    using assms
    by (cases "WriteHeader (status_of line)
        ((rt_w rt)\<lparr>rw_header := add_all rng (header_loop more fmempty) (rw_header (rt_w rt))\<rparr>)")
      (simp_all add: rt_emit_def rl rt_Write_def rw_Write_append)
qed

lemma rt_emit_buf: "rt_emit rng head rest (rt\<lparr>rt_buf := b\<rparr>) = rt_emit rng head rest rt"
  by (simp add: rt_emit_def)

lemma rt_Write_append:
  assumes "q \<noteq> []"
  shows "go_bind (rt_Write rng p rt) (rt_Write rng q) = rt_Write rng (p @ q) rt"
proof (cases "rt_parsed rt")
  case True
  then show ?thesis by (simp add: rt_Write_def rw_Write_append)
next
  case False
  show ?thesis
  proof (cases "Index (CRLF @ CRLF) (rt_buf rt @ p)")
    case None
    then show ?thesis using False by (simp add: rt_Write_def Let_def rt_emit_buf split: option.split)
  next
    case (Some sep)
    have len: "sep + 4 \<le> length (rt_buf rt @ p)" using Index_bound [OF Some] by (simp add: CRLF_def)
    have whole: "Index (CRLF @ CRLF) (rt_buf rt @ p @ q) = Some sep" using Index_append [OF Some, of q] by simp
    have parts: "take sep (rt_buf rt @ p @ q) = take sep (rt_buf rt @ p)"
      "drop (sep + 4) (rt_buf rt @ p @ q) = drop (sep + 4) (rt_buf rt @ p) @ q" using len by simp_all
    have "rt_Write rng (p @ q) rt = rt_emit rng (take sep (rt_buf rt @ p)) (drop (sep + 4) (rt_buf rt @ p) @ q) rt"
      by (simp only: rt_Write_def if_not_P [OF False] Let_def append_assoc whole option.case parts)
    moreover have "rt_Write rng p rt = rt_emit rng (take sep (rt_buf rt @ p)) (drop (sep + 4) (rt_buf rt @ p)) rt"
      by (simp only: rt_Write_def if_not_P [OF False] Let_def Some option.case)
    ultimately show ?thesis using rt_emit_append [OF assms] by simp
  qed
qed

lemma rt_WriteAll_concat:
  "\<forall>q \<in> set ps. q \<noteq> [] \<Longrightarrow> rt_WriteAll rng (p # ps) rt = rt_Write rng (concat (p # ps)) rt"
proof (induction ps arbitrary: p rt)
  case Nil
  show ?case by (cases "rt_Write rng p rt") simp_all
next
  case (Cons q ps)
  then have "rt_WriteAll rng (p # q # ps) rt = go_bind (rt_Write rng p rt) (rt_Write rng (concat (q # ps)))"
    by (cases "rt_Write rng p rt") (simp_all del: rt_WriteAll.simps(2) add: rt_WriteAll.simps(2) [of _ p])
  with rt_Write_append [of "concat (q # ps)" rng p rt] Cons.prems show ?case by simp
qed

section \<open>Header lines\<close>

definition field_line :: "string \<Rightarrow> bool" where
  "field_line l \<longleftrightarrow> l \<noteq> [] \<and> CR \<notin> set l \<and> LF \<notin> set l"

lemma read_line_crlf: "LF \<notin> set l \<Longrightarrow> read_line (l @ CRLF @ rest) = (l @ CRLF, rest, False)"
proof -
  assume "LF \<notin> set l"
  moreover have "LF \<noteq> CR" by (simp add: LF_def CR_def)
  ultimately have "IndexByte ((l @ [CR]) @ LF # rest) LF = Some (length (l @ [CR]))"
    by (intro IndexByte_append) simp
  then show ?thesis by (simp add: read_line_def CRLF_def)
qed

lemma trim_eol_line: "field_line l \<Longrightarrow> trim_eol (l @ CRLF) = l"
  by (cases l rule: rev_cases) (auto simp: field_line_def trim_eol_def CRLF_def)

lemma read_line_last: "LF \<notin> set l \<Longrightarrow> read_line l = (l, [], True)"
  by (simp add: read_line_def IndexByte_None [THEN iffD2])

lemma header_loop_lines:
  "list_all field_line ls \<Longrightarrow> LF \<notin> set l \<Longrightarrow>
     header_loop (concat (map (\<lambda>l. l @ CRLF) ls) @ l) h = foldl (\<lambda>h l. header_field l h) h ls"
proof (induction ls arbitrary: h)
  case Nil
  then show ?case by (simp add: header_loop.simps read_line_last)
next
  case (Cons a ls)
  then have "field_line a" "LF \<notin> set a" by (auto simp: field_line_def)
  then show ?case
    using Cons read_line_crlf [of a "concat (map (\<lambda>l. l @ CRLF) ls) @ l"]
    by (subst header_loop.simps) (auto simp: trim_eol_line field_line_def)
qed

lemma hdr_ok_fields: "hdr_ok h \<Longrightarrow> hdr_ok (foldl (\<lambda>h l. header_field l h) h ls)"
  by (induction ls arbitrary: h) (auto simp: header_field_def hdr_ok_add split: option.splits)

lemma add_all_values: "map_range rng \<Longrightarrow> hdr_ok src \<Longrightarrow> hdr_values (add_all rng src fmempty) k = hdr_values src k"
  using copy_values [of rng src "[]" k] by (simp add: add_all_def copyHeadersExcluding_def)

end
