(* ===== verification/GP_Listener.thy ===== *)
theory GP_Listener
  imports GP_H2
begin

text \<open>
  Package \<^verbatim>\<open>internal/listener\<close>: construction of a listener with its filter chains and TLS
  settings (\<^verbatim>\<open>newListener\<close>), the choice of certificate and chain for a connection, and the
  handling of one connection. Certificates and key files are the business of
  \<^verbatim>\<open>crypto/tls\<close> and the file system: what loading them gives is an argument
  (\<open>tls_env\<close>), and so is what the HTTP/2 server of \<^verbatim>\<open>golang.org/x/net\<close> does with
  a connection. The accept loop and the goroutines of the manager are in \<open>GP_Serve\<close>.
\<close>

section \<open>State\<close>

record simpleRegistry =
  sr_m :: "(string, NetworkFilter) fmap"
  sr_h2 :: "HTTPFilter list option"

definition full_registry :: "(rat \<Rightarrow> rat) \<Rightarrow> Time \<Rightarrow> Time \<Rightarrow> ProxyConfig \<Rightarrow> simpleRegistry" where
  "full_registry fl now now' cfg =
     \<lparr>sr_m = fst (NewRegistry fl now cfg), sr_h2 = Some (fst (NewH2Handler fl now' cfg))\<rparr>"

record chainEntry =
  ch_chain :: "NetworkFilter list"
  ch_sniHosts :: "string set"
  ch_isDefault :: bool

record 'c tlsConf =
  tc_MinVersion :: int
  tc_Certificate :: 'c
  tc_NextProtos :: "string list"
  tc_certMap :: "(string, 'c) fmap option"
  tc_ClientCAs :: "string option"

record 'c Listener =
  li_name :: string
  li_addr :: string
  li_tls :: "'c tlsConf option"
  li_chains :: "chainEntry list"
  li_h2h :: "HTTPFilter list option"

datatype lerr =
    UnknownFilter string
  | LoadKeyPair
  | LoadKeyPairExtra
  | ClientCAEmpty
  | ReadClientCA
  | ParseClientCA

text \<open>Loading a key pair, reading a file, and whether a text holds certificates.\<close>

record 'c tls_env =
  te_pair :: "string \<Rightarrow> string \<Rightarrow> 'c option"
  te_read :: "string \<Rightarrow> string option"
  te_pem :: "string \<Rightarrow> bool"

section \<open>Construction\<close>

fun resolve_filters :: "simpleRegistry \<Rightarrow> string list \<Rightarrow> lerr + NetworkFilter list" where
  "resolve_filters sreg [] = Inr []"
| "resolve_filters sreg (fname # fs) =
     (case Resolve (sr_m sreg) fname of
        None \<Rightarrow> Inl (UnknownFilter fname)
      | Some f \<Rightarrow> (case resolve_filters sreg fs of Inl e \<Rightarrow> Inl e | Inr r \<Rightarrow> Inr (f # r)))"

fun build_chains :: "simpleRegistry \<Rightarrow> nat \<Rightarrow> FilterChain list \<Rightarrow> lerr + chainEntry list" where
  "build_chains sreg i [] = Inr []"
| "build_chains sreg i (fc # fcs) =
     (case resolve_filters sreg (fc_Filters fc) of
        Inl e \<Rightarrow> Inl e
      | Inr fs \<Rightarrow>
          (case build_chains sreg (Suc i) fcs of
             Inl e \<Rightarrow> Inl e
           | Inr r \<Rightarrow> Inr (\<lparr>ch_chain = NewChain fs, ch_sniHosts = set (fc_SNIHosts fc), ch_isDefault = (i = 0)\<rparr> # r)))"

definition minVer :: "string \<Rightarrow> int" where
  "minVer v = (if v = ''1.3'' then 772 else 771)"

fun cert_map :: "'c tls_env \<Rightarrow> TLSCertEntry list \<Rightarrow> (string, 'c) fmap \<Rightarrow> lerr + (string, 'c) fmap" where
  "cert_map env [] m = Inr m"
| "cert_map env (ce # ces) m =
     (case te_pair env (ce_CertPath ce) (ce_KeyPath ce) of
        None \<Rightarrow> Inl LoadKeyPairExtra
      | Some c \<Rightarrow> cert_map env ces (foldl (\<lambda>m h. fmupd (ToLower (TrimSpace h)) c m) m (ce_SNIHosts ce)))"

definition client_ca :: "'c tls_env \<Rightarrow> TLSConfig \<Rightarrow> lerr + string option" where
  "client_ca env t =
     (if \<not> tls_RequireClientCert t then Inr None
      else if tls_ClientCAPath t = [] then Inl ClientCAEmpty
      else (case te_read env (tls_ClientCAPath t) of
              None \<Rightarrow> Inl ReadClientCA
            | Some pem \<Rightarrow> if te_pem env pem then Inr (Some pem) else Inl ParseClientCA))"

definition new_tls :: "'c tls_env \<Rightarrow> TLSConfig \<Rightarrow> lerr + 'c tlsConf" where
  "new_tls env t =
     (case te_pair env (tls_CertPath t) (tls_KeyPath t) of
        None \<Rightarrow> Inl LoadKeyPair
      | Some cert \<Rightarrow>
          (case (if tls_Certs t = [] then Inr None
                 else (case cert_map env (tls_Certs t) fmempty of Inl e \<Rightarrow> Inl e | Inr m \<Rightarrow> Inr (Some m))) of
             Inl e \<Rightarrow> Inl e
           | Inr cm \<Rightarrow>
               (case client_ca env t of
                  Inl e \<Rightarrow> Inl e
                | Inr ca \<Rightarrow>
                    Inr \<lparr>tc_MinVersion = minVer (tls_MinVersion t), tc_Certificate = cert,
                         tc_NextProtos = [''h2'', ''http/1.1''], tc_certMap = cm, tc_ClientCAs = ca\<rparr>)))"

definition newListener :: "'c tls_env \<Rightarrow> ListenerSpec \<Rightarrow> simpleRegistry \<Rightarrow> lerr + 'c Listener" where
  "newListener env spec sreg =
     (case build_chains sreg 0 (ls_FilterChains spec) of
        Inl e \<Rightarrow> Inl e
      | Inr chs \<Rightarrow>
          (let l = \<lparr>li_name = ls_Name spec, li_addr = ls_Address spec, li_tls = None, li_chains = chs, li_h2h = sr_h2 sreg\<rparr>
           in case ls_TLS spec of
                None \<Rightarrow> Inr l
              | Some t \<Rightarrow> (case new_tls env t of Inl e \<Rightarrow> Inl e | Inr tc \<Rightarrow> Inr (l\<lparr>li_tls := Some tc\<rparr>))))"

text \<open>The manager: all listeners, or the name and error of the first that fails.\<close>

fun new_listeners :: "'c tls_env \<Rightarrow> simpleRegistry \<Rightarrow> ListenerSpec list \<Rightarrow> (string \<times> lerr) + 'c Listener list" where
  "new_listeners env sreg [] = Inr []"
| "new_listeners env sreg (spec # specs) =
     (case newListener env spec sreg of
        Inl e \<Rightarrow> Inl (ls_Name spec, e)
      | Inr l \<Rightarrow> (case new_listeners env sreg specs of Inl e \<Rightarrow> Inl e | Inr ls \<Rightarrow> Inr (l # ls)))"

definition listener_NewManager :: "'c tls_env \<Rightarrow> ProxyConfig \<Rightarrow> simpleRegistry \<Rightarrow> (string \<times> lerr) + 'c Listener list" where
  "listener_NewManager env cfg sreg = new_listeners env sreg (Listeners cfg)"

section \<open>A connection\<close>

text \<open>The certificate for a server name: the installed function when there are extra certificates.\<close>

definition GetCertificate :: "'c tlsConf \<Rightarrow> string \<Rightarrow> 'c" where
  "GetCertificate tc serverName =
     (case tc_certMap tc of
        None \<Rightarrow> tc_Certificate tc
      | Some m \<Rightarrow>
          if serverName = [] then tc_Certificate tc
          else (case fmlookup m (ToLower serverName) of Some c \<Rightarrow> c | None \<Rightarrow> tc_Certificate tc))"

fun sni_chain :: "string \<Rightarrow> chainEntry list \<Rightarrow> NetworkFilter list option" where
  "sni_chain sni [] = None"
| "sni_chain sni (ce # ces) =
     (if ch_sniHosts ce = {} then sni_chain sni ces
      else if sni \<in> ch_sniHosts ce then Some (ch_chain ce)
      else sni_chain sni ces)"

fun default_chain :: "nat \<Rightarrow> chainEntry list \<Rightarrow> NetworkFilter list" where
  "default_chain i [] = []"
| "default_chain i (ce # ces) = (if i = 0 \<or> ch_isDefault ce then ch_chain ce else default_chain (Suc i) ces)"

text \<open>A connection: plain, or TLS with the protocol and server name its handshake agreed on.\<close>

datatype conn = Plain | TLSConn string string

definition choose_chain :: "chainEntry list \<Rightarrow> conn \<Rightarrow> NetworkFilter list" where
  "choose_chain chs c =
     (case c of
        TLSConn proto serverName \<Rightarrow>
          (let sni = TrimSpace serverName in
           case (if sni \<noteq> [] then sni_chain sni chs else None) of
             Some ch \<Rightarrow> ch
           | None \<Rightarrow> if chs \<noteq> [] then default_chain 0 chs else [])
      | Plain \<Rightarrow> if chs \<noteq> [] then ch_chain (chs ! 0) else [])"

definition active_gauge :: string where
  "active_gauge = ''downstream_active_connections''"

definition gauge_active :: "int \<Rightarrow> conn_state \<Rightarrow> conn_state" where
  "gauge_active d k = k\<lparr>k_w := (k_w k)\<lparr>w_reg := AddGauge active_gauge d (w_reg (k_w k))\<rparr>\<rparr>"

definition Listener_handle :: "(HTTPFilter list \<Rightarrow> conn_state \<Rightarrow> conn_state go) \<Rightarrow> 'c Listener \<Rightarrow> conn \<Rightarrow> Addr \<Rightarrow> Time
    \<Rightarrow> input list list \<Rightarrow> conn_state \<Rightarrow> conn_state go" where
  "Listener_handle serveConn l c remote now inss k =
     (let cctx = \<lparr>cc_Remote = remote, cc_Start = now, cc_TLS = None\<rparr>;
          k = gauge_active 1 k;
          run = (\<lambda>cctx. go_bind (Chain_Execute (choose_chain (li_chains l) c) cctx inss k)
                         (\<lambda>(err, k). Ret (gauge_active (- 1) k)))
      in case c of
           Plain \<Rightarrow> run cctx
         | TLSConn proto sni \<Rightarrow>
             (let cctx = cctx\<lparr>cc_TLS := Some \<lparr>ts_NegotiatedProtocol = proto, ts_ServerName = sni\<rparr>\<rparr> in
              case li_h2h l of
                Some h \<Rightarrow>
                  if proto = ''h2'' then go_bind (serveConn h k) (\<lambda>k. Ret (gauge_active (- 1) k)) else run cctx
              | None \<Rightarrow> run cctx))"

section \<open>What construction gives\<close>

lemma resolve_filters_ok:
  "(\<And>f. f \<in> set fs \<Longrightarrow> Resolve (sr_m sreg) f \<noteq> None) \<Longrightarrow>
     \<exists>r. resolve_filters sreg fs = Inr r \<and> map Some r = map (Resolve (sr_m sreg)) fs"
proof (induction fs)
  case (Cons f fs)
  then obtain r g where "resolve_filters sreg fs = Inr r" "map Some r = map (Resolve (sr_m sreg)) fs" "Resolve (sr_m sreg) f = Some g"
    by fastforce
  then show ?case by simp
qed simp

lemma build_chains_ok:
  assumes "\<And>fc f. fc \<in> set fcs \<Longrightarrow> f \<in> set (fc_Filters fc) \<Longrightarrow> Resolve (sr_m sreg) f \<noteq> None"
  shows "\<exists>r. build_chains sreg i fcs = Inr r \<and> length r = length fcs \<and>
    (\<forall>j < length fcs. map Some (ch_chain (r ! j)) = map (Resolve (sr_m sreg)) (fc_Filters (fcs ! j)) \<and>
       ch_sniHosts (r ! j) = set (fc_SNIHosts (fcs ! j)) \<and> (ch_isDefault (r ! j) \<longleftrightarrow> i + j = 0))"
  using assms
proof (induction fcs arbitrary: i)
  case (Cons fc fcs)
  obtain fs where fs: "resolve_filters sreg (fc_Filters fc) = Inr fs" "map Some fs = map (Resolve (sr_m sreg)) (fc_Filters fc)"
    using resolve_filters_ok [of "fc_Filters fc" sreg] Cons.prems by auto
  obtain r where r: "build_chains sreg (Suc i) fcs = Inr r" "length r = length fcs"
    "\<forall>j < length fcs. map Some (ch_chain (r ! j)) = map (Resolve (sr_m sreg)) (fc_Filters (fcs ! j)) \<and>
       ch_sniHosts (r ! j) = set (fc_SNIHosts (fcs ! j)) \<and> (ch_isDefault (r ! j) \<longleftrightarrow> Suc i + j = 0)"
    using Cons.IH [of "Suc i"] Cons.prems by fastforce
  then show ?case using fs by (auto simp: nth_Cons split: nat.splits)
qed simp

lemma cert_map_ok:
  "(\<And>ce. ce \<in> set ces \<Longrightarrow> te_pair env (ce_CertPath ce) (ce_KeyPath ce) \<noteq> None) \<Longrightarrow> \<exists>m'. cert_map env ces m = Inr m'"
  by (induction ces arbitrary: m) (auto, fastforce)

text \<open>All the files of the TLS settings can be loaded.\<close>

definition files_load :: "'c tls_env \<Rightarrow> TLSConfig \<Rightarrow> bool" where
  "files_load env t \<longleftrightarrow> te_pair env (tls_CertPath t) (tls_KeyPath t) \<noteq> None \<and>
     (\<forall>ce \<in> set (tls_Certs t). te_pair env (ce_CertPath ce) (ce_KeyPath ce) \<noteq> None) \<and>
     (tls_RequireClientCert t \<longrightarrow> (\<exists>pem. te_read env (tls_ClientCAPath t) = Some pem \<and> te_pem env pem))"

lemma client_ca_ok:
  assumes "files_load env t" "tls_RequireClientCert t \<longrightarrow> tls_ClientCAPath t \<noteq> []"
  shows "\<exists>ca. client_ca env t = Inr ca \<and> (ca \<noteq> None \<longleftrightarrow> tls_RequireClientCert t)"
  using assms by (cases "tls_RequireClientCert t") (auto simp: client_ca_def files_load_def)

lemma new_tls_ok:
  assumes "files_load env t" "tls_RequireClientCert t \<longrightarrow> tls_ClientCAPath t \<noteq> []"
  shows "\<exists>tc. new_tls env t = Inr tc \<and> tc_MinVersion tc \<in> {771, 772} \<and>
    (tc_ClientCAs tc \<noteq> None \<longleftrightarrow> tls_RequireClientCert t)"
proof -
  obtain c where "te_pair env (tls_CertPath t) (tls_KeyPath t) = Some c" using assms(1) by (auto simp: files_load_def)
  moreover obtain m where "cert_map env (tls_Certs t) fmempty = Inr m"
    using cert_map_ok [of "tls_Certs t" env fmempty] assms(1) by (auto simp: files_load_def)
  moreover obtain ca where "client_ca env t = Inr ca" "ca \<noteq> None \<longleftrightarrow> tls_RequireClientCert t"
    using client_ca_ok [OF assms] by blast
  ultimately show ?thesis by (auto simp: new_tls_def minVer_def)
qed

text \<open>A validated listener whose files load is built; only loading files can fail.\<close>

lemma newListener_ok:
  assumes "valid_listener stat spec" "\<And>t. ls_TLS spec = Some t \<Longrightarrow> files_load env t"
    and "\<And>f. f \<in> known_filters \<Longrightarrow> Resolve (sr_m sreg) f \<noteq> None"
  shows "\<exists>l. newListener env spec sreg = Inr l \<and> li_chains l \<noteq> [] \<and> (li_tls l \<noteq> None \<longleftrightarrow> ls_TLS spec \<noteq> None)"
proof -
  have "Resolve (sr_m sreg) f \<noteq> None" if "fc \<in> set (ls_FilterChains spec)" "f \<in> set (fc_Filters fc)" for fc f
  proof -
    have "valid_chain fc" using assms(1) that(1) by (simp add: valid_listener_def)
    then have "f \<in> known_filters" using that(2) by (auto simp: valid_chain_def)
    then show ?thesis by (rule assms(3))
  qed
  then obtain r where r: "build_chains sreg 0 (ls_FilterChains spec) = Inr r" "length r = length (ls_FilterChains spec)"
    using build_chains_ok [of "ls_FilterChains spec" sreg 0] by metis
  have ne: "r \<noteq> []" using r(2) assms(1) by (auto simp: valid_listener_def)
  show ?thesis
  proof (cases "ls_TLS spec")
    case None
    then show ?thesis using r(1) ne by (simp add: newListener_def)
  next
    case (Some t)
    then have "tls_RequireClientCert t \<longrightarrow> tls_ClientCAPath t \<noteq> []"
      using assms(1) by (auto simp: valid_listener_def valid_tls_def fileExists_def)
    then obtain tc where "new_tls env t = Inr tc" using new_tls_ok assms(2) Some by blast
    then show ?thesis using r(1) ne Some by (simp add: newListener_def)
  qed
qed

lemma full_registry_resolves: "f \<in> known_filters \<Longrightarrow> Resolve (sr_m (full_registry fl now now' cfg)) f \<noteq> None"
  by (auto simp: full_registry_def known_filters_def Resolve_def NewRegistry_def Let_def)

lemma new_listeners_ok:
  assumes "\<And>spec. spec \<in> set specs \<Longrightarrow> \<exists>l. newListener env spec sreg = Inr l"
  shows "\<exists>ls. new_listeners env sreg specs = Inr ls \<and> length ls = length specs"
  using assms by (induction specs) fastforce+

section \<open>Choosing a certificate and a chain\<close>

lemma foldl_certs:
  "fmlookup (foldl (\<lambda>m h. fmupd (f h) c m) m hs) n = (if n \<in> f ` set hs then Some c else fmlookup m n)"
  by (induction hs arbitrary: m) auto

text \<open>The certificate of a name is that of the last entry that lists it, in any case and with blanks around it.\<close>

definition lists_name :: "string \<Rightarrow> TLSCertEntry \<Rightarrow> bool" where
  "lists_name n ce \<longleftrightarrow> n \<in> (\<lambda>h. ToLower (TrimSpace h)) ` set (ce_SNIHosts ce)"

lemma find_append: "find P (xs @ ys) = (case find P xs of Some x \<Rightarrow> Some x | None \<Rightarrow> find P ys)"
  by (induction xs) auto

lemma cert_map_lookup:
  "cert_map env ces m = Inr m' \<Longrightarrow> fmlookup m' n =
     (case find (lists_name n) (rev ces) of
        Some ce \<Rightarrow> te_pair env (ce_CertPath ce) (ce_KeyPath ce) | None \<Rightarrow> fmlookup m n)"
proof (induction ces arbitrary: m)
  case (Cons ce ces)
  then show ?case
    by (auto simp: foldl_certs lists_name_def find_append split: option.splits if_splits)
qed simp

lemma sni_chain_find:
  "sni_chain sni chs = map_option ch_chain (find (\<lambda>ce. sni \<in> ch_sniHosts ce) chs)"
  by (induction chs) auto

lemma choose_chain_spec:
  assumes "chs \<noteq> []"
  shows "choose_chain chs (TLSConn proto name) =
      (case find (\<lambda>ce. TrimSpace name \<in> ch_sniHosts ce) chs of
         Some ce \<Rightarrow> if TrimSpace name = [] then ch_chain (hd chs) else ch_chain ce
       | None \<Rightarrow> ch_chain (hd chs))"
    and "choose_chain chs Plain = ch_chain (hd chs)"
  using assms by (cases chs; auto simp: choose_chain_def sni_chain_find Let_def split: option.splits)+

end
