(* ===== verification/GP_Serve.thy ===== *)
theory GP_Serve
  imports GP_Listener
begin

text \<open>
  Package \<^verbatim>\<open>internal/listener\<close>: the accept loop of a listener (\<^verbatim>\<open>run\<close>), its
  connection goroutines (\<^verbatim>\<open>handle\<close>), \<^verbatim>\<open>StopAccept\<close>, and the manager that starts all
  listeners and waits for them (\<^verbatim>\<open>Manager.Start\<close>). These are goroutines that run
  concurrently; each is a program counter in the state, each of its atomic actions an event that is
  enabled or not (\<open>run_event\<close>, \<open>mgr_event\<close>), and a run of the system is a sequence of events in any
  order.

  A connection goroutine is counted in one of three places: started by the accept loop (after
  \<^verbatim>\<open>wg.Add\<close>), serving (the gauge is raised), ending (the gauge is lowered, \<^verbatim>\<open>wg.Done\<close>
  not yet called). What a connection does to the metrics while it is served is an event of its own
  that leaves the gauge of active connections alone.
\<close>

section \<open>The accept loop\<close>

datatype run_err = ListenErr | CtxCanceled | AcceptErr

datatype lphase = Fresh | Accepting | Draining "run_err option" | Returned "run_err option"

datatype lnState = NoLn | OpenLn | ClosedLn

record lst =
  l_phase :: lphase
  l_ln :: lnState
  l_started :: nat
  l_serving :: nat
  l_ending :: nat

definition fresh_listener :: lst where
  "fresh_listener = \<lparr>l_phase = Fresh, l_ln = NoLn, l_started = 0, l_serving = 0, l_ending = 0\<rparr>"

definition l_wg :: "lst \<Rightarrow> nat" where
  "l_wg l = l_started l + l_serving l + l_ending l"

text \<open>
  \<open>AcceptOther\<close> is an error that is neither a closed listener nor temporary. After a close,
  \<^verbatim>\<open>Accept\<close> fails with \<^verbatim>\<open>net.ErrClosed\<close>; before it, a connection may arrive.
\<close>

datatype lev =
    Listened bool
  | CtxCloses
  | AcceptConn
  | AcceptTemporary
  | AcceptClosed
  | AcceptOther
  | WaitDone
  | HandleBegin
  | HandleEnd
  | HandleDone

fun run_event :: "bool \<Rightarrow> lev \<Rightarrow> lst \<times> registry \<Rightarrow> (lst \<times> registry) option" where
  "run_event ctx (Listened ok) (l, m) =
     (if l_phase l = Fresh
      then Some (if ok then l\<lparr>l_phase := Accepting, l_ln := OpenLn\<rparr> else l\<lparr>l_phase := Returned (Some ListenErr)\<rparr>, m)
      else None)"
| "run_event ctx CtxCloses (l, m) =
     (if ctx \<and> l_ln l \<noteq> NoLn then Some (l\<lparr>l_ln := ClosedLn\<rparr>, m) else None)"
| "run_event ctx AcceptConn (l, m) =
     (if l_phase l = Accepting \<and> l_ln l = OpenLn
      then Some (l\<lparr>l_started := Suc (l_started l)\<rparr>, Inc ''downstream_connections_accepted_total'' m) else None)"
| "run_event ctx AcceptTemporary (l, m) = (if l_phase l = Accepting then Some (l, m) else None)"
| "run_event ctx AcceptClosed (l, m) =
     (if l_phase l = Accepting \<and> l_ln l = ClosedLn then Some (l\<lparr>l_phase := Draining None\<rparr>, m) else None)"
| "run_event ctx AcceptOther (l, m) =
     (if l_phase l = Accepting
      then Some (l\<lparr>l_phase := (if ctx then Draining (Some CtxCanceled) else Returned (Some AcceptErr))\<rparr>, m)
      else None)"
| "run_event ctx WaitDone (l, m) =
     (case l_phase l of
        Draining r \<Rightarrow> if l_wg l = 0 then Some (l\<lparr>l_phase := Returned r\<rparr>, m) else None
      | _ \<Rightarrow> None)"
| "run_event ctx HandleBegin (l, m) =
     (if 0 < l_started l
      then Some (l\<lparr>l_started := l_started l - 1, l_serving := Suc (l_serving l)\<rparr>, AddGauge active_gauge 1 m) else None)"
| "run_event ctx HandleEnd (l, m) =
     (if 0 < l_serving l
      then Some (l\<lparr>l_serving := l_serving l - 1, l_ending := Suc (l_ending l)\<rparr>, AddGauge active_gauge (- 1) m) else None)"
| "run_event ctx HandleDone (l, m) =
     (if 0 < l_ending l then Some (l\<lparr>l_ending := l_ending l - 1\<rparr>, m) else None)"

definition Listener_StopAccept :: "lst \<Rightarrow> lst" where
  "Listener_StopAccept l = (if l_ln l \<noteq> NoLn then l\<lparr>l_ln := ClosedLn\<rparr> else l)"

section \<open>The manager\<close>

text \<open>What a connection does to the metrics while it is served.\<close>

datatype mop = CounterAdd string int | GaugeAdd string int | GaugeSet string int

fun apply_mop :: "mop \<Rightarrow> registry \<Rightarrow> registry" where
  "apply_mop (CounterAdd k d) m = Add k d m"
| "apply_mop (GaugeAdd k d) m = AddGauge k d m"
| "apply_mop (GaugeSet k v) m = SetGauge k v m"

fun gauge_name :: "mop \<Rightarrow> string option" where
  "gauge_name (CounterAdd k d) = None"
| "gauge_name (GaugeAdd k d) = Some k"
| "gauge_name (GaugeSet k v) = Some k"

text \<open>\<^verbatim>\<open>Start\<close> waits in its select, waits for all listeners, or has returned.\<close>

datatype startPhase = Selecting | WaitAll | StartDone "run_err option"

record serveMgr =
  m_listeners :: "lst list"
  m_ctx :: bool
  m_errCh :: "run_err list"
  m_start :: startPhase
  m_reg :: registry

definition new_mgr :: "nat \<Rightarrow> registry \<Rightarrow> serveMgr" where
  "new_mgr n r = \<lparr>m_listeners = replicate n fresh_listener, m_ctx = False, m_errCh = [], m_start = Selecting, m_reg = r\<rparr>"

datatype mev =
    Run nat lev
  | SelectCtx
  | SelectErr
  | AllReturned
  | Cancel
  | StopAccept
  | Work mop

text \<open>What the goroutine of a listener sends when \<^verbatim>\<open>run\<close> returns: the error, unless it is that of the context.\<close>

definition reported :: "lst \<Rightarrow> lst \<Rightarrow> run_err list" where
  "reported l l' =
     (case (l_phase l, l_phase l') of
        (Returned r, _) \<Rightarrow> []
      | (_, Returned (Some e)) \<Rightarrow> if e = CtxCanceled then [] else [e]
      | _ \<Rightarrow> [])"

definition has_returned :: "lst \<Rightarrow> bool" where
  "has_returned l \<longleftrightarrow> (case l_phase l of Returned r \<Rightarrow> True | _ \<Rightarrow> False)"

fun mgr_event :: "mev \<Rightarrow> serveMgr \<Rightarrow> serveMgr option" where
  "mgr_event (Run i ev) s =
     (if i < length (m_listeners s)
      then (case run_event (m_ctx s) ev (m_listeners s ! i, m_reg s) of
              Some (l', r') \<Rightarrow>
                Some (s\<lparr>m_listeners := (m_listeners s)[i := l'], m_reg := r',
                        m_errCh := m_errCh s @ reported (m_listeners s ! i) l'\<rparr>)
            | None \<Rightarrow> None)
      else None)"
| "mgr_event SelectCtx s = (if m_start s = Selecting \<and> m_ctx s then Some (s\<lparr>m_start := WaitAll\<rparr>) else None)"
| "mgr_event SelectErr s =
     (case (m_start s, m_errCh s) of
        (Selecting, e # es) \<Rightarrow> Some (s\<lparr>m_start := StartDone (Some e), m_errCh := es\<rparr>)
      | _ \<Rightarrow> None)"
| "mgr_event AllReturned s =
     (if m_start s = WaitAll \<and> list_all has_returned (m_listeners s) then Some (s\<lparr>m_start := StartDone None\<rparr>) else None)"
| "mgr_event Cancel s = Some (s\<lparr>m_ctx := True\<rparr>)"
| "mgr_event StopAccept s = Some (s\<lparr>m_listeners := map Listener_StopAccept (m_listeners s)\<rparr>)"
| "mgr_event (Work op) s =
     (if gauge_name op \<noteq> Some active_gauge then Some (s\<lparr>m_reg := apply_mop op (m_reg s)\<rparr>) else None)"

abbreviation mgr_run :: "mev list \<Rightarrow> serveMgr \<Rightarrow> serveMgr option" where
  "mgr_run \<equiv> run_all mgr_event"

definition start_done :: "serveMgr \<Rightarrow> bool" where
  "start_done s \<longleftrightarrow> (case m_start s of StartDone r \<Rightarrow> True | _ \<Rightarrow> False)"

section \<open>What holds in every reachable state\<close>

text \<open>
  A listener that returned without an error, or because of the context, has no connection left; one
  that could not listen never had any. Only an accept error leaves connections behind.
\<close>

definition listener_inv :: "lst \<Rightarrow> bool" where
  "listener_inv l \<longleftrightarrow>
     (case l_phase l of
        Fresh \<Rightarrow> l_ln l = NoLn \<and> l_wg l = 0
      | Accepting \<Rightarrow> l_ln l \<noteq> NoLn
      | Draining r \<Rightarrow> l_ln l \<noteq> NoLn \<and> (r = None \<longrightarrow> l_ln l = ClosedLn) \<and> (r = None \<or> r = Some CtxCanceled)
      | Returned None \<Rightarrow> l_ln l = ClosedLn \<and> l_wg l = 0
      | Returned (Some ListenErr) \<Rightarrow> l_ln l = NoLn \<and> l_wg l = 0
      | Returned (Some CtxCanceled) \<Rightarrow> l_wg l = 0
      | Returned (Some AcceptErr) \<Rightarrow> True)"

definition failed :: "lst \<Rightarrow> bool" where
  "failed l \<longleftrightarrow> l_phase l = Returned (Some ListenErr) \<or> l_phase l = Returned (Some AcceptErr)"

definition serving :: "serveMgr \<Rightarrow> int" where
  "serving s = (\<Sum>l\<leftarrow>m_listeners s. int (l_serving l))"

definition mgr_core :: "serveMgr \<Rightarrow> bool" where
  "mgr_core s \<longleftrightarrow>
     list_all listener_inv (m_listeners s) \<and>
     (m_errCh s \<noteq> [] \<longrightarrow> (\<exists>l \<in> set (m_listeners s). failed l)) \<and>
     (case m_start s of
        Selecting \<Rightarrow> True
      | WaitAll \<Rightarrow> m_ctx s
      | StartDone None \<Rightarrow> m_ctx s \<and> list_all has_returned (m_listeners s)
      | StartDone (Some e) \<Rightarrow> (\<exists>l \<in> set (m_listeners s). failed l))"

text \<open>The gauge counts the connections being served.\<close>

definition mgr_inv :: "serveMgr \<Rightarrow> bool" where
  "mgr_inv s \<longleftrightarrow> mgr_core s \<and> gauge_val (m_reg s) active_gauge = wrap64 (serving s)"

definition mgr_init :: "serveMgr \<Rightarrow> bool" where
  "mgr_init s \<longleftrightarrow> (\<exists>n r. gauge_val r active_gauge = 0 \<and> s = new_mgr n r)"

definition mgr_step :: "serveMgr \<Rightarrow> serveMgr \<Rightarrow> bool" where
  "mgr_step s t \<longleftrightarrow> (\<exists>ev. mgr_event ev s = Some t)"

lemma run_event_inv: "listener_inv l \<Longrightarrow> run_event ctx ev (l, m) = Some (l', m') \<Longrightarrow> listener_inv l'"
  by (cases ev; cases "l_phase l")
    (auto simp: listener_inv_def l_wg_def split: if_splits option.splits run_err.splits)

lemma run_event_gauge:
  "run_event ctx ev (l, m) = Some (l', m') \<Longrightarrow> gauge_val m active_gauge = wrap64 g \<Longrightarrow>
     gauge_val m' active_gauge = wrap64 (g + (int (l_serving l') - int (l_serving l)))"
  using wrap64_add_left [of g "- 1"]
  by (cases ev; cases "l_phase l") (auto simp: gauge_reg.get_add frame_simps split: if_splits)

lemma run_event_returned:
  "run_event ctx ev (l, m) = Some (l', m') \<Longrightarrow> l_phase l = Returned r \<Longrightarrow> l_phase l' = Returned r"
  by (cases ev) (auto split: if_splits)

lemma Listener_StopAccept_frame [simp]:
  "l_phase (Listener_StopAccept l) = l_phase l" "l_serving (Listener_StopAccept l) = l_serving l"
  "l_wg (Listener_StopAccept l) = l_wg l" "has_returned (Listener_StopAccept l) = has_returned l"
  "failed (Listener_StopAccept l) = failed l"
  by (simp_all add: Listener_StopAccept_def l_wg_def has_returned_def failed_def)

lemma StopAccept_inv: "listener_inv l \<Longrightarrow> listener_inv (Listener_StopAccept l)"
  by (auto simp: listener_inv_def Listener_StopAccept_def l_wg_def split: lphase.splits option.splits run_err.splits)

lemma serving_update:
  "i < length ls \<Longrightarrow> (\<Sum>l\<leftarrow>ls[i := l']. int (l_serving l)) =
     (\<Sum>l\<leftarrow>ls. int (l_serving l)) + (int (l_serving l') - int (l_serving (ls ! i)))"
proof (induction ls arbitrary: i)
  case (Cons l ls)
  then show ?case by (cases i) auto
qed simp

lemma reported_failed: "reported l l' \<noteq> [] \<Longrightarrow> failed l'"
  by (auto simp: reported_def failed_def split: lphase.splits option.splits if_splits) (metis run_err.exhaust)+

lemma failed_kept: "failed l \<Longrightarrow> run_event ctx ev (l, m) = Some (l', m') \<Longrightarrow> failed l'"
  using run_event_returned by (auto simp: failed_def)

lemma has_returned_kept: "has_returned l \<Longrightarrow> run_event ctx ev (l, m) = Some (l', m') \<Longrightarrow> has_returned l'"
  using run_event_returned by (auto simp: has_returned_def split: lphase.splits)

lemma mgr_event_listeners:
  assumes "mgr_event ev s = Some t"
  obtains (run) i lev l' where "i < length (m_listeners s)" "run_event (m_ctx s) lev (m_listeners s ! i, m_reg s) = Some (l', m_reg t)"
      "t = s\<lparr>m_listeners := (m_listeners s)[i := l'], m_reg := m_reg t, m_errCh := m_errCh s @ reported (m_listeners s ! i) l'\<rparr>"
  | (stop) "t = s\<lparr>m_listeners := map Listener_StopAccept (m_listeners s)\<rparr>"
  | (work) op where "gauge_name op \<noteq> Some active_gauge" "t = s\<lparr>m_reg := apply_mop op (m_reg s)\<rparr>"
  | (cancel) "t = s\<lparr>m_ctx := True\<rparr>"
  | (select) "m_start s = Selecting" "m_ctx s" "t = s\<lparr>m_start := WaitAll\<rparr>"
  | (error) e es where "m_start s = Selecting" "m_errCh s = e # es" "t = s\<lparr>m_start := StartDone (Some e), m_errCh := es\<rparr>"
  | (all) "m_start s = WaitAll" "list_all has_returned (m_listeners s)" "t = s\<lparr>m_start := StartDone None\<rparr>"
  using assms that
  by (cases ev) (auto split: if_splits option.splits startPhase.splits list.splits)

lemma mgr_core_run:
  assumes "mgr_core s" "i < length (m_listeners s)" "run_event (m_ctx s) lev (m_listeners s ! i, m_reg s) = Some (l', r')"
  shows "mgr_core (s\<lparr>m_listeners := (m_listeners s)[i := l'], m_reg := r', m_errCh := m_errCh s @ reported (m_listeners s ! i) l'\<rparr>)"
proof -
  let ?l = "m_listeners s ! i" and ?ls = "(m_listeners s)[i := l']"
  have l: "listener_inv ?l" using assms(1,2) by (simp add: mgr_core_def list_all_length)
  have "list_all listener_inv ?ls"
    using assms(1,2) run_event_inv [OF l assms(3)] by (auto simp: mgr_core_def list_all_length nth_list_update)
  moreover have fail: "\<exists>l \<in> set ?ls. failed l" if "\<exists>l \<in> set (m_listeners s). failed l"
    using that failed_kept [OF _ assms(3)] assms(2) by (metis in_set_conv_nth length_list_update nth_list_update)
  moreover have "\<exists>l \<in> set ?ls. failed l" if "reported ?l l' \<noteq> []"
    using reported_failed [OF that] assms(2) by (metis set_update_memI)
  moreover have "list_all has_returned ?ls" if "list_all has_returned (m_listeners s)"
    using that assms(2) has_returned_kept [OF _ assms(3)] by (auto simp: list_all_length nth_list_update)
  ultimately show ?thesis
    using assms(1) by (auto simp: mgr_core_def split: startPhase.splits option.splits)
qed

lemma mgr_core_step: "mgr_core s \<Longrightarrow> mgr_event ev s = Some t \<Longrightarrow> mgr_core t"
proof (erule mgr_event_listeners)
  assume inv: "mgr_core s"
  show "mgr_core t" if "i < length (m_listeners s)" "run_event (m_ctx s) lev (m_listeners s ! i, m_reg s) = Some (l', m_reg t)"
      "t = s\<lparr>m_listeners := (m_listeners s)[i := l'], m_reg := m_reg t, m_errCh := m_errCh s @ reported (m_listeners s ! i) l'\<rparr>"
    for i lev l'
    using mgr_core_run [OF inv that(1,2)] that(3) by simp
  show "mgr_core t" if "t = s\<lparr>m_listeners := map Listener_StopAccept (m_listeners s)\<rparr>"
    using inv that StopAccept_inv
    by (auto simp: mgr_core_def list_all_iff comp_def split: startPhase.splits option.splits)
qed (auto simp: mgr_core_def split: startPhase.splits option.splits)

text \<open>With \<open>g\<close> connections served elsewhere in the process.\<close>

lemma mgr_gauge_step:
  assumes "mgr_event ev s = Some t" "gauge_val (m_reg s) active_gauge = wrap64 (g + serving s)"
  shows "gauge_val (m_reg t) active_gauge = wrap64 (g + serving t)"
  using assms(1)
proof (cases rule: mgr_event_listeners)
  case (run i lev l')
  have "serving t = serving s + (int (l_serving l') - int (l_serving (m_listeners s ! i)))"
    unfolding serving_def using serving_update [OF run(1), of l'] arg_cong [OF run(3), of m_listeners] by simp
  then show ?thesis using run_event_gauge [OF run(2) assms(2)] by (simp add: add.assoc)
next
  case (work op)
  then show ?thesis
    using assms(2) by (cases op) (auto simp: serving_def gauge_reg.get_add gauge_val_SetGauge frame_simps)
qed (use assms(2) in \<open>auto simp: serving_def comp_def\<close>)

lemma mgr_inv_step: "mgr_inv s \<Longrightarrow> mgr_event ev s = Some t \<Longrightarrow> mgr_inv t"
  using mgr_core_step [of s ev t] mgr_gauge_step [of ev s t 0] by (simp add: mgr_inv_def)

lemma mgr_core_new: "mgr_core (new_mgr n r)"
  by (auto simp: new_mgr_def mgr_core_def fresh_listener_def listener_inv_def l_wg_def list_all_iff)

lemma serving_new [simp]: "serving (new_mgr n r) = 0"
  by (simp add: serving_def new_mgr_def fresh_listener_def sum_list_replicate)

interpretation serve: inductive_invariant mgr_init mgr_step mgr_inv
proof
  show "mgr_inv s" if "mgr_init s" for s
    using that by (auto simp: mgr_init_def mgr_inv_def mgr_core_new) (simp add: new_mgr_def)
qed (auto simp: mgr_step_def intro: mgr_inv_step)

section \<open>Shutting down\<close>

abbreviation run_events :: "bool \<Rightarrow> lev list \<Rightarrow> lst \<times> registry \<Rightarrow> (lst \<times> registry) option" where
  "run_events ctx \<equiv> run_all (run_event ctx)"

text \<open>The connections of a listener can always come to an end.\<close>

lemma handlers_end:
  "\<exists>evs l' m'. run_events ctx evs (l, m) = Some (l', m') \<and> l_wg l' = 0 \<and> l_phase l' = l_phase l \<and> l_ln l' = l_ln l"
proof (induction "3 * l_started l + 2 * l_serving l + l_ending l" arbitrary: l m rule: less_induct)
  case less
  have step: ?case if st: "run_event ctx ev (l, m) = Some (l1, m1)" "l_phase l1 = l_phase l" "l_ln l1 = l_ln l"
      "3 * l_started l1 + 2 * l_serving l1 + l_ending l1 < 3 * l_started l + 2 * l_serving l + l_ending l" for ev l1 m1
  proof -
    obtain evs l' m' where "run_events ctx evs (l1, m1) = Some (l', m')" "l_wg l' = 0" "l_phase l' = l_phase l1" "l_ln l' = l_ln l1"
      using less [OF st(4)] by blast
    then have "run_events ctx (ev # evs) (l, m) = Some (l', m')" using st(1) by simp
    with \<open>l_wg l' = 0\<close> \<open>l_phase l' = l_phase l1\<close> \<open>l_ln l' = l_ln l1\<close> st(2,3) show ?thesis by metis
  qed
  consider "0 < l_started l" | "0 < l_serving l" | "0 < l_ending l" | "l_wg l = 0" by (auto simp: l_wg_def)
  then show ?case
  proof cases
    case 1
    then show ?thesis by (intro step [of HandleBegin "l\<lparr>l_started := l_started l - 1, l_serving := Suc (l_serving l)\<rparr>" "AddGauge active_gauge 1 m"]) simp_all
  next
    case 2
    then show ?thesis by (intro step [of HandleEnd "l\<lparr>l_serving := l_serving l - 1, l_ending := Suc (l_ending l)\<rparr>" "AddGauge active_gauge (- 1) m"]) simp_all
  next
    case 3
    then show ?thesis by (intro step [of HandleDone "l\<lparr>l_ending := l_ending l - 1\<rparr>" "m"]) simp_all
  next
    case 4
    then show ?thesis by (intro exI [of _ "[]"]) simp
  qed
qed

text \<open>Once the context is cancelled, every listener can return.\<close>

lemma listener_returns:
  assumes "listener_inv l"
  shows "\<exists>evs l' m'. run_events True evs (l, m) = Some (l', m') \<and> has_returned l'"
proof -
  have drain: "\<exists>evs l' m'. run_events True evs (l, m) = Some (l', m') \<and> has_returned l'" if "l_phase l = Draining r" for l m r
  proof -
    obtain evs l1 m1 where "run_events True evs (l, m) = Some (l1, m1)" "l_wg l1 = 0" "l_phase l1 = Draining r"
      using handlers_end [of True l m] \<open>l_phase l = Draining r\<close> by metis
    then show ?thesis
      by (intro exI [of _ "evs @ [WaitDone]"]) (simp add: run_all_append has_returned_def)
  qed
  have close: "\<exists>evs l' m'. run_events True evs (l, m) = Some (l', m') \<and> has_returned l'"
    if "l_phase l = Accepting" "l_ln l \<noteq> NoLn" for l m
  proof -
    have "l_phase (l\<lparr>l_ln := ClosedLn, l_phase := Draining None\<rparr>) = Draining None" by simp
    from drain [OF this, of m] obtain evs l' m' where
      "run_events True evs (l\<lparr>l_ln := ClosedLn, l_phase := Draining None\<rparr>, m) = Some (l', m')" "has_returned l'" by blast
    then show ?thesis using that by (intro exI [of _ "CtxCloses # AcceptClosed # evs"]) simp
  qed
  show ?thesis
  proof (cases "l_phase l")
    case Fresh
    then show ?thesis
      by (intro exI [of _ "[Listened False]"]) (simp add: has_returned_def)
  next
    case Accepting
    then show ?thesis using close assms by (auto simp: listener_inv_def)
  next
    case (Draining r)
    then show ?thesis by (rule drain)
  next
    case (Returned r)
    then show ?thesis by (intro exI [of _ "[]"]) (simp add: has_returned_def)
  qed
qed

interpretation core: event_system mgr_event mgr_core
  by unfold_locales (rule mgr_core_step)

text \<open>The events that the goroutines of the manager take by themselves.\<close>

definition internal :: "mev \<Rightarrow> bool" where
  "internal ev \<longleftrightarrow> ev \<noteq> Cancel \<and> ev \<noteq> StopAccept"

lemma mgr_run_listener:
  assumes "i < length (m_listeners s)" "run_events (m_ctx s) levs (m_listeners s ! i, m_reg s) = Some (l', r')"
  shows "\<exists>t. mgr_run (map (Run i) levs) s = Some t \<and> m_listeners t = (m_listeners s)[i := l'] \<and>
    m_ctx t = m_ctx s \<and> m_start t = m_start s"
  using assms
proof (induction levs arbitrary: s)
  case (Cons lev levs)
  obtain l1 r1 where one: "run_event (m_ctx s) lev (m_listeners s ! i, m_reg s) = Some (l1, r1)"
    "run_events (m_ctx s) levs (l1, r1) = Some (l', r')"
    using Cons.prems by (auto split: option.splits)
  let ?s = "s\<lparr>m_listeners := (m_listeners s)[i := l1], m_reg := r1, m_errCh := m_errCh s @ reported (m_listeners s ! i) l1\<rparr>"
  obtain t where "mgr_run (map (Run i) levs) ?s = Some t" "m_listeners t = (m_listeners ?s)[i := l']"
    "m_ctx t = m_ctx s" "m_start t = m_start s"
    using Cons.IH [of ?s] Cons.prems(1) one(2) by auto
  then show ?case using one(1) Cons.prems(1) by auto
next
  case Nil
  then show ?case by (metis list_update_id map_is_Nil_conv option.inject prod.inject run_all.simps(1))
qed

lemma listeners_return:
  assumes "mgr_core s" "m_ctx s" "n \<le> length (m_listeners s)"
  shows "\<exists>evs t. mgr_run evs s = Some t \<and> list_all internal evs \<and> m_ctx t \<and> m_start t = m_start s \<and>
    length (m_listeners t) = length (m_listeners s) \<and> (\<forall>j < n. has_returned (m_listeners t ! j))"
  using assms(3)
proof (induction n)
  case 0
  then show ?case using assms(2) by (intro exI [of _ "[]"]) simp
next
  case (Suc n)
  then obtain evs t where t: "mgr_run evs s = Some t" "m_ctx t" "m_start t = m_start s"
    "length (m_listeners t) = length (m_listeners s)" "\<forall>j < n. has_returned (m_listeners t ! j)" "list_all internal evs" by auto
  have n: "n < length (m_listeners t)" using Suc.prems t(4) by simp
  then have "listener_inv (m_listeners t ! n)" using core.run_inv [OF t(1) assms(1)] by (simp add: mgr_core_def list_all_length)
  then obtain levs l' r' where "run_events True levs (m_listeners t ! n, m_reg t) = Some (l', r')" "has_returned l'"
    using listener_returns by blast
  then obtain u where u: "mgr_run (map (Run n) levs) t = Some u" "m_listeners u = (m_listeners t)[n := l']"
      "m_ctx u" "m_start u = m_start t"
    using mgr_run_listener [OF n] t(2) by metis
  have "mgr_run (evs @ map (Run n) levs) s = Some u" using run_all_append [OF t(1)] u(1) by simp
  moreover have "\<forall>j < Suc n. has_returned (m_listeners u ! j)"
    using t(5) u(2) n \<open>has_returned l'\<close> by (auto simp: less_Suc_eq nth_list_update)
  moreover have "list_all internal (evs @ map (Run n) levs)" using t(6) by (auto simp: list_all_iff internal_def)
  ultimately show ?case using u t n by (intro exI [of _ "evs @ map (Run n) levs"] exI [of _ u]) simp
qed

lemma shutdown:
  assumes "mgr_core s" "m_ctx s"
  shows "\<exists>evs t. mgr_run evs s = Some t \<and> list_all internal evs \<and> start_done t"
proof -
  obtain evs t where t: "mgr_run evs s = Some t" "m_ctx t" "m_start t = m_start s"
    "list_all has_returned (m_listeners t)" "list_all internal evs"
    using listeners_return [OF assms order_refl] by (auto simp: list_all_length)
  consider "start_done t" | "m_start t = WaitAll" | "m_start t = Selecting"
    by (cases "m_start t") (auto simp: start_done_def)
  then show ?thesis
  proof cases
    case 1
    then show ?thesis using t(1,5) by blast
  next
    case 2
    then have "mgr_run (evs @ [AllReturned]) s = Some (t\<lparr>m_start := StartDone None\<rparr>)"
      using run_all_append [OF t(1)] t(4) by simp
    then show ?thesis using t(5) by (fastforce simp: start_done_def internal_def)
  next
    case 3
    then have "mgr_run (evs @ [SelectCtx, AllReturned]) s = Some (t\<lparr>m_start := StartDone None\<rparr>)"
      using run_all_append [OF t(1)] t(2,4) by simp
    then show ?thesis using t(5) by (fastforce simp: start_done_def internal_def)
  qed
qed

lemma start_done_kept: "start_done s \<Longrightarrow> mgr_event ev s = Some t \<Longrightarrow> start_done t"
  by (cases ev) (auto simp: start_done_def split: if_splits option.splits startPhase.splits list.splits)

interpretation listeners: service mgr_event mgr_core start_done m_ctx internal
  by unfold_locales (auto intro: start_done_kept shutdown)

text \<open>\<^verbatim>\<open>Start\<close> returns only after a cancellation or a failure: closing the listeners is not enough.\<close>

lemma start_done_cause: "mgr_core s \<Longrightarrow> start_done s \<Longrightarrow> m_ctx s \<or> (\<exists>l \<in> set (m_listeners s). failed l)"
  by (auto simp: mgr_core_def start_done_def split: startPhase.splits option.splits)

lemma start_done_quiet:
  assumes "mgr_core s" "start_done s" "\<forall>l \<in> set (m_listeners s). \<not> failed l" "l \<in> set (m_listeners s)"
  shows "has_returned l \<and> l_wg l = 0 \<and> l_phase l \<noteq> Accepting"
proof -
  have "has_returned l" "listener_inv l"
    using assms by (auto simp: mgr_core_def start_done_def list_all_iff split: startPhase.splits option.splits)
  then show ?thesis
    using assms(3,4) by (auto simp: has_returned_def listener_inv_def failed_def split: lphase.splits option.splits run_err.splits)
qed

end
