(* ===== verification/GP_Supervisor.thy ===== *)
theory GP_Supervisor
  imports GP_Serve GP_Manager
begin

text \<open>
  Package \<^verbatim>\<open>internal/runtime/supervisor\<close> and \<^verbatim>\<open>config.Load\<close>: the supervisor owns
  the running components and replaces them on reload. A runtime is what one successful load built:
  the configuration, the cluster manager, the listeners, and the state of their goroutines. The
  supervisor keeps every runtime it ever started (their goroutines go on until they end) and the
  index of the current one.

  \<^verbatim>\<open>Reload\<close> holds the lock only at its start and at its end, and the admin server runs handlers
  concurrently. So a call is a program counter, and each of its atomic parts an event
  (\<open>sup_event\<close>), as are the steps of the runtimes; the metrics are shared by the whole process.
  Decoding of JSON and YAML is an argument (\<open>load_env\<close>).
\<close>

section \<open>Loading a configuration\<close>

record 'y load_env =
  ld_read :: "string \<Rightarrow> string option"
  ld_yaml :: "string \<Rightarrow> 'y option"
  ld_marshal :: "'y \<Rightarrow> string option"
  ld_json :: "string \<Rightarrow> ProxyConfig option"

datatype load_err = ReadConfig | ParseYAML | YamlToJson | DecodeYAML | ParseJSON

text \<open>\<^verbatim>\<open>filepath.Ext\<close>: from the last dot of the last path element, nothing when it has none.\<close>

definition Ext :: "string \<Rightarrow> string" where
  "Ext path =
     (let base = rev (takeWhile (\<lambda>c. c \<noteq> CHR ''/'') (rev path))
      in case LastIndexByte base (CHR ''.'') of None \<Rightarrow> [] | Some i \<Rightarrow> drop i base)"

definition Load :: "'y load_env \<Rightarrow> string \<Rightarrow> load_err + ProxyConfig" where
  "Load env path =
     (case ld_read env path of
        None \<Rightarrow> Inl ReadConfig
      | Some b \<Rightarrow>
          if Ext path \<in> {''.yaml'', ''.yml''} then
            (case ld_yaml env b of
               None \<Rightarrow> Inl ParseYAML
             | Some ym \<Rightarrow>
                 (case ld_marshal env ym of
                    None \<Rightarrow> Inl YamlToJson
                  | Some jb \<Rightarrow> (case ld_json env jb of None \<Rightarrow> Inl DecodeYAML | Some cfg \<Rightarrow> Inr cfg)))
          else (case ld_json env b of None \<Rightarrow> Inl ParseJSON | Some cfg \<Rightarrow> Inr cfg))"

section \<open>State\<close>

record 'c runtime =
  rt_cfg :: ProxyConfig
  rt_cm :: Manager
  rt_listeners :: "'c Listener list"
  rt_mgr :: serveMgr

datatype sup_err =
    SLoad load_err
  | SInvalid cfg_error
  | SCluster string
  | SListener "string \<times> lerr"

text \<open>A call of \<^verbatim>\<open>Reload\<close>: with which runtime it started, and how far it is.\<close>

datatype rphase =
    RCaptured "nat option"
  | RDrain "nat option"
  | RForce nat
  | RBuild
  | RReturned "sup_err option"

record 'c Supervisor =
  su_path :: string
  su_base :: bool
  su_rts :: "'c runtime list"
  su_cur :: "nat option"
  su_reloads :: "rphase list"
  su_reg :: registry

definition sup_New :: "string \<Rightarrow> registry \<Rightarrow> 'c Supervisor" where
  "sup_New path r =
     \<lparr>su_path = path, su_base = False, su_rts = [], su_cur = None, su_reloads = [], su_reg = r\<rparr>"

definition CurrentConfig :: "'c Supervisor \<Rightarrow> ProxyConfig" where
  "CurrentConfig s =
     (case su_cur s of
        None \<Rightarrow> \<lparr>Listeners = [], Routes = [], Clusters = [], RateLimit = None\<rparr>
      | Some j \<Rightarrow> rt_cfg (su_rts s ! j))"

definition EndpointsDebug :: "key_order \<Rightarrow> Time \<Rightarrow> 'c Supervisor \<Rightarrow> ClusterDebug list" where
  "EndpointsDebug rng now s =
     (case su_cur s of None \<Rightarrow> [] | Some j \<Rightarrow> DebugSnapshot rng now (rt_cm (su_rts s ! j)))"

section \<open>Building a runtime\<close>

record ('y, 'c) sup_env =
  se_load :: "'y load_env"
  se_stat :: "string \<Rightarrow> bool"
  se_rng :: key_order
  se_fl :: "rat \<Rightarrow> rat"
  se_now :: Time
  se_now2 :: Time
  se_tls :: "'c tls_env"

definition build_runtime :: "('y, 'c) sup_env \<Rightarrow> string \<Rightarrow> bool \<Rightarrow> nat \<Rightarrow> registry \<Rightarrow> sup_err + 'c runtime" where
  "build_runtime env path base ctx r =
     (case Load (se_load env) path of
        Inl e \<Rightarrow> Inl (SLoad e)
      | Inr cfg \<Rightarrow>
          (case Validate (se_stat env) cfg of
             Some e \<Rightarrow> Inl (SInvalid e)
           | None \<Rightarrow>
               (case NewManager (Clusters cfg) of
                  Inl e \<Rightarrow> Inl (SCluster e)
                | Inr cm \<Rightarrow>
                    (let cm = fst (Start (se_rng env) ctx cm);
                         sreg = full_registry (se_fl env) (se_now env) (se_now2 env) cfg
                     in case listener_NewManager (se_tls env) cfg sreg of
                          Inl e \<Rightarrow> Inl (SListener e)
                        | Inr ls \<Rightarrow>
                            Inr \<lparr>rt_cfg = cfg, rt_cm = cm, rt_listeners = ls,
                                 rt_mgr = (new_mgr (length ls) r)\<lparr>m_ctx := base\<rparr>\<rparr>))))"

definition install :: "('y, 'c) sup_env \<Rightarrow> 'c Supervisor \<Rightarrow> sup_err option \<times> 'c Supervisor" where
  "install env s =
     (case build_runtime env (su_path s) (su_base s) (length (su_rts s)) (su_reg s) of
        Inl e \<Rightarrow> (Some e, s)
      | Inr rt \<Rightarrow> (None, s\<lparr>su_rts := su_rts s @ [rt], su_cur := Some (length (su_rts s))\<rparr>))"

definition sup_Start :: "('y, 'c) sup_env \<Rightarrow> 'c Supervisor \<Rightarrow> sup_err option \<times> 'c Supervisor" where
  "sup_Start env s = (if su_cur s \<noteq> None then (None, s) else install env s)"

section \<open>Events\<close>

text \<open>An event of the manager of runtime \<open>j\<close>, on the metrics of the process.\<close>

definition rt_event :: "mev \<Rightarrow> nat \<Rightarrow> 'c Supervisor \<Rightarrow> 'c Supervisor option" where
  "rt_event ev j s =
     (if j < length (su_rts s)
      then (case mgr_event ev ((rt_mgr (su_rts s ! j))\<lparr>m_reg := su_reg s\<rparr>) of
              None \<Rightarrow> None
            | Some m \<Rightarrow> Some (s\<lparr>su_rts := (su_rts s)[j := (su_rts s ! j)\<lparr>rt_mgr := m\<rparr>], su_reg := m_reg m\<rparr>))
      else None)"

definition on_cur :: "mev \<Rightarrow> nat option \<Rightarrow> 'c Supervisor \<Rightarrow> 'c Supervisor option" where
  "on_cur ev j s = (case j of None \<Rightarrow> Some s | Some j \<Rightarrow> rt_event ev j s)"

definition rt_done :: "'c Supervisor \<Rightarrow> nat \<Rightarrow> bool" where
  "rt_done s j \<longleftrightarrow> start_done (rt_mgr (su_rts s ! j))"

definition set_phase :: "nat \<Rightarrow> rphase \<Rightarrow> 'c Supervisor \<Rightarrow> 'c Supervisor" where
  "set_phase i p s = s\<lparr>su_reloads := (su_reloads s)[i := p]\<rparr>"

text \<open>The parts of a call of \<^verbatim>\<open>Reload\<close>.\<close>

datatype ('y, 'c) part =
    Stop
  | Drained
  | Timeout
  | Forced
  | Build "('y, 'c) sup_env"

fun reload_part :: "nat \<Rightarrow> ('y, 'c) part \<Rightarrow> rphase \<Rightarrow> 'c Supervisor \<Rightarrow> 'c Supervisor option" where
  "reload_part i Stop (RCaptured j) s = map_option (set_phase i (RDrain j)) (on_cur StopAccept j s)"
| "reload_part i Drained (RDrain j) s =
     (if (case j of None \<Rightarrow> True | Some j \<Rightarrow> rt_done s j) then Some (set_phase i RBuild s) else None)"
| "reload_part i Timeout (RDrain j) s =
     (case j of
        None \<Rightarrow> Some (set_phase i RBuild s)
      | Some j \<Rightarrow> map_option (set_phase i (RForce j)) (rt_event Cancel j s))"
| "reload_part i Forced (RForce j) s = (if rt_done s j then Some (set_phase i RBuild s) else None)"
| "reload_part i (Build env) RBuild s = (case install env s of (e, s) \<Rightarrow> Some (set_phase i (RReturned e) s))"
| "reload_part i pt p s = None"

datatype ('y, 'c) sev =
    SStart "('y, 'c) sup_env"
  | SReload
  | SCall nat "('y, 'c) part"
  | SDrainStart
  | SRun nat mev
  | SClusters nat Manager
  | SQuit

definition DrainStart :: "'c Supervisor \<Rightarrow> 'c Supervisor option" where
  "DrainStart s = on_cur StopAccept (su_cur s) s"

text \<open>The context of the process is cancelled, and with it those of all runtimes.\<close>

definition cancel_base :: "'c Supervisor \<Rightarrow> 'c Supervisor" where
  "cancel_base s =
     s\<lparr>su_base := True, su_rts := map (\<lambda>rt. rt\<lparr>rt_mgr := (rt_mgr rt)\<lparr>m_ctx := True\<rparr>\<rparr>) (su_rts s)\<rparr>"

fun sup_event :: "('y, 'c) sev \<Rightarrow> 'c Supervisor \<Rightarrow> 'c Supervisor option" where
  "sup_event (SStart env) s = Some (snd (sup_Start env s))"
| "sup_event SReload s = Some (s\<lparr>su_reloads := su_reloads s @ [RCaptured (su_cur s)]\<rparr>)"
| "sup_event (SCall i pt) s =
     (if i < length (su_reloads s) then reload_part i pt (su_reloads s ! i) s else None)"
| "sup_event SDrainStart s = DrainStart s"
| "sup_event (SRun j ev) s = (if internal ev then rt_event ev j s else None)"
| "sup_event (SClusters j cm) s =
     (if j < length (su_rts s) then Some (s\<lparr>su_rts := (su_rts s)[j := (su_rts s ! j)\<lparr>rt_cm := cm\<rparr>]\<rparr>) else None)"
| "sup_event SQuit s = Some (cancel_base s)"

abbreviation sup_run :: "('y, 'c) sev list \<Rightarrow> 'c Supervisor \<Rightarrow> 'c Supervisor option" where
  "sup_run \<equiv> run_all sup_event"

section \<open>What holds in every reachable state\<close>

definition refers_to :: "rphase \<Rightarrow> nat set" where
  "refers_to p =
     (case p of RCaptured (Some j) \<Rightarrow> {j} | RDrain (Some j) \<Rightarrow> {j} | RForce j \<Rightarrow> {j} | _ \<Rightarrow> {})"

definition runtime_ok :: "'c runtime \<Rightarrow> bool" where
  "runtime_ok rt \<longleftrightarrow> mgr_core (rt_mgr rt) \<and> (\<exists>stat. Validate stat (rt_cfg rt) = None) \<and>
     length (m_listeners (rt_mgr rt)) = length (Listeners (rt_cfg rt)) \<and>
     length (rt_listeners rt) = length (Listeners (rt_cfg rt))"

definition served :: "'c Supervisor \<Rightarrow> int" where
  "served s = (\<Sum>rt\<leftarrow>su_rts s. serving (rt_mgr rt))"

definition sup_inv :: "'c Supervisor \<Rightarrow> bool" where
  "sup_inv s \<longleftrightarrow>
     (\<forall>j. su_cur s = Some j \<longrightarrow> j < length (su_rts s)) \<and>
     (\<forall>p \<in> set (su_reloads s). \<forall>j \<in> refers_to p. j < length (su_rts s)) \<and>
     (\<forall>rt \<in> set (su_rts s). runtime_ok rt) \<and>
     gauge_val (su_reg s) active_gauge = wrap64 (served s)"

lemma mgr_core_reg [simp]: "mgr_core (m\<lparr>m_reg := r\<rparr>) = mgr_core m" "serving (m\<lparr>m_reg := r\<rparr>) = serving m"
  "start_done (m\<lparr>m_reg := r\<rparr>) = start_done m"
  by (simp_all add: mgr_core_def serving_def start_done_def split: startPhase.split option.split)

lemma mgr_core_ctx: "mgr_core m \<Longrightarrow> mgr_core (m\<lparr>m_ctx := m_ctx m \<or> b\<rparr>)"
  by (auto simp: mgr_core_def split: startPhase.splits option.splits)

lemma rt_event_Some:
  assumes "rt_event ev j s = Some t"
  obtains m where "j < length (su_rts s)" "mgr_event ev ((rt_mgr (su_rts s ! j))\<lparr>m_reg := su_reg s\<rparr>) = Some m"
    "t = s\<lparr>su_rts := (su_rts s)[j := (su_rts s ! j)\<lparr>rt_mgr := m\<rparr>], su_reg := m_reg m\<rparr>"
  using assms by (auto simp: rt_event_def split: if_splits option.splits)

lemma mgr_event_length: "mgr_event ev m = Some m' \<Longrightarrow> length (m_listeners m') = length (m_listeners m)"
  by (cases ev) (auto split: if_splits option.splits startPhase.splits list.splits)

lemma sum_list_map_update:
  "i < length xs \<Longrightarrow> (\<Sum>x\<leftarrow>xs[i := y]. f x) = (\<Sum>x\<leftarrow>xs. f x) - f (xs ! i) + (f y :: int)"
proof (induction xs arbitrary: i)
  case (Cons x xs)
  then show ?case by (cases i) auto
qed simp

lemma rt_event_inv:
  assumes "sup_inv s" "rt_event ev j s = Some t"
  shows "sup_inv t"
proof -
  obtain m where j: "j < length (su_rts s)" and m: "mgr_event ev ((rt_mgr (su_rts s ! j))\<lparr>m_reg := su_reg s\<rparr>) = Some m"
    and t: "t = s\<lparr>su_rts := (su_rts s)[j := (su_rts s ! j)\<lparr>rt_mgr := m\<rparr>], su_reg := m_reg m\<rparr>"
    using assms(2) by (rule rt_event_Some)
  let ?old = "rt_mgr (su_rts s ! j)"
  have ok: "runtime_ok (su_rts s ! j)" using assms(1) j by (auto simp: sup_inv_def)
  have "runtime_ok ((su_rts s ! j)\<lparr>rt_mgr := m\<rparr>)"
    using ok mgr_core_step [OF _ m] mgr_event_length [OF m] by (auto simp: runtime_ok_def)
  then have "\<forall>rt \<in> set (su_rts t). runtime_ok rt"
    using assms(1) t by (auto simp: sup_inv_def dest!: subsetD [OF set_update_subset_insert])
  moreover have "served t = served s - serving ?old + serving m"
    using j t by (simp add: served_def sum_list_map_update)
  moreover have "gauge_val (m_reg m) active_gauge = wrap64 ((served s - serving ?old) + serving m)"
    using mgr_gauge_step [OF m, of "served s - serving ?old"] assms(1) by (simp add: sup_inv_def)
  ultimately show ?thesis using assms(1) t by (auto simp: sup_inv_def)
qed

lemma new_listeners_length: "new_listeners te sreg specs = Inr ls \<Longrightarrow> length ls = length specs"
  by (induction specs arbitrary: ls) (auto split: sum.splits)

lemma listener_NewManager_length: "listener_NewManager te cfg sreg = Inr ls \<Longrightarrow> length ls = length (Listeners cfg)"
  by (simp add: listener_NewManager_def new_listeners_length)

lemma build_runtime_ok:
  assumes "build_runtime env path base ctx r = Inr rt"
  shows "runtime_ok rt" "serving (rt_mgr rt) = 0" "\<not> start_done (rt_mgr rt)" "Load (se_load env) path = Inr (rt_cfg rt)"
    "\<forall>l \<in> set (m_listeners (rt_mgr rt)). \<not> failed l"
proof -
  have core: "mgr_core ((new_mgr n r)\<lparr>m_ctx := base\<rparr>)" for n
    using mgr_core_ctx [OF mgr_core_new, of n r base] by (simp add: new_mgr_def)
  show "runtime_ok rt" "serving (rt_mgr rt) = 0" "\<not> start_done (rt_mgr rt)" "Load (se_load env) path = Inr (rt_cfg rt)"
    "\<forall>l \<in> set (m_listeners (rt_mgr rt)). \<not> failed l"
    using assms core listener_NewManager_length
    by (auto simp: build_runtime_def Let_def runtime_ok_def serving_def new_mgr_def fresh_listener_def sum_list_replicate
        start_done_def failed_def split: sum.splits option.splits)
qed

lemma install_inv:
  assumes "sup_inv s" "install env s = (e, t)"
  shows "sup_inv t" "su_reloads t = su_reloads s"
proof -
  show "sup_inv t"
  proof (cases "build_runtime env (su_path s) (su_base s) (length (su_rts s)) (su_reg s)")
    case (Inr rt)
    then have "t = s\<lparr>su_rts := su_rts s @ [rt], su_cur := Some (length (su_rts s))\<rparr>" "runtime_ok rt" "serving (rt_mgr rt) = 0"
      using assms(2) build_runtime_ok [OF Inr] by (auto simp: install_def)
    then show ?thesis using assms(1) by (fastforce simp: sup_inv_def served_def less_Suc_eq)
  qed (use assms in \<open>simp add: install_def\<close>)
  show "su_reloads t = su_reloads s" using assms(2) by (auto simp: install_def split: sum.splits)
qed

lemma on_cur_inv: "sup_inv s \<Longrightarrow> on_cur ev j s = Some t \<Longrightarrow> sup_inv t"
  by (auto simp: on_cur_def intro: rt_event_inv split: option.splits)

lemma set_phase_inv: "sup_inv s \<Longrightarrow> (\<And>j. j \<in> refers_to p \<Longrightarrow> j < length (su_rts s)) \<Longrightarrow> sup_inv (set_phase i p s)"
  using set_update_subset_insert [of "su_reloads s" i p] by (auto simp: sup_inv_def set_phase_def served_def)

lemma rt_event_frame:
  assumes "rt_event ev j s = Some t"
  shows "length (su_rts t) = length (su_rts s)" "su_cur t = su_cur s" "su_reloads t = su_reloads s" "su_base t = su_base s"
    "su_path t = su_path s"
  using assms by (auto elim!: rt_event_Some)

lemma on_cur_frame:
  assumes "on_cur ev j s = Some t"
  shows "length (su_rts t) = length (su_rts s)" "su_cur t = su_cur s" "su_reloads t = su_reloads s"
  using assms rt_event_frame by (auto simp: on_cur_def split: option.splits)

fun_cases reload_part_Some: "reload_part i pt p s = Some t"

lemma reload_part_cases:
  assumes "reload_part i pt p s = Some t"
  obtains (stop) j s' where "p = RCaptured j" "on_cur StopAccept j s = Some s'" "t = set_phase i (RDrain j) s'"
  | (drained) j where "p = RDrain j" "\<forall>k. j = Some k \<longrightarrow> rt_done s k" "t = set_phase i RBuild s"
  | (timeout) j s' where "p = RDrain (Some j)" "rt_event Cancel j s = Some s'" "t = set_phase i (RForce j) s'"
  | (forced) j where "p = RForce j" "rt_done s j" "t = set_phase i RBuild s"
  | (build) env e s' where "pt = Build env" "p = RBuild" "install env s = (e, s')" "t = set_phase i (RReturned e) s'"
  using assms that
  by (elim reload_part_Some) (auto simp: eq_commute [of "Some t"] split: if_splits option.splits prod.splits)

lemma reload_part_inv:
  assumes "sup_inv s" "i < length (su_reloads s)" "reload_part i pt (su_reloads s ! i) s = Some t"
  shows "sup_inv t"
proof -
  have "\<forall>j \<in> refers_to (su_reloads s ! i). j < length (su_rts s)"
    using assms(1,2) unfolding sup_inv_def by (meson nth_mem)
  with assms(1,3) show ?thesis
    by (cases rule: reload_part_cases [OF assms(3)])
      (auto simp: refers_to_def on_cur_frame(1) rt_event_frame(1) dest: on_cur_inv rt_event_inv install_inv(1)
        intro!: set_phase_inv split: option.splits)
qed

lemma runtime_ok_cancel: "runtime_ok rt \<Longrightarrow> runtime_ok (rt\<lparr>rt_mgr := (rt_mgr rt)\<lparr>m_ctx := True\<rparr>\<rparr>)"
  using mgr_core_ctx [of "rt_mgr rt" True] by (simp add: runtime_ok_def)

lemma sup_event_inv: "sup_inv s \<Longrightarrow> sup_event ev s = Some t \<Longrightarrow> sup_inv t"
proof (cases ev)
  case (SStart env)
  assume "sup_inv s" "sup_event ev s = Some t"
  then show ?thesis
    using SStart install_inv(1) [of s env] by (cases "install env s") (auto simp: sup_Start_def split: if_splits)
next
  case SReload
  assume "sup_inv s" "sup_event ev s = Some t"
  then show ?thesis using SReload by (auto simp: sup_inv_def refers_to_def served_def split: option.splits)
next
  case (SClusters j cm)
  assume "sup_inv s" "sup_event ev s = Some t"
  moreover have "served (s\<lparr>su_rts := (su_rts s)[j := (su_rts s ! j)\<lparr>rt_cm := cm\<rparr>]\<rparr>) = served s" if "j < length (su_rts s)"
    using that by (simp add: served_def sum_list_map_update)
  moreover have "runtime_ok (su_rts s ! j) \<Longrightarrow> runtime_ok ((su_rts s ! j)\<lparr>rt_cm := cm\<rparr>)"
    by (simp add: runtime_ok_def)
  ultimately show ?thesis
    using SClusters by (auto simp: sup_inv_def dest!: subsetD [OF set_update_subset_insert] split: if_splits)
next
  case SQuit
  assume "sup_inv s" "sup_event ev s = Some t"
  then show ?thesis using SQuit by (auto simp: cancel_base_def sup_inv_def served_def serving_def comp_def runtime_ok_cancel)
qed (auto simp: DrainStart_def dest: reload_part_inv rt_event_inv on_cur_inv split: if_splits)

interpretation supervision: event_system sup_event sup_inv
  by unfold_locales (rule sup_event_inv)

lemma sup_inv_New: "gauge_val r active_gauge = 0 \<Longrightarrow> sup_inv (sup_New path r)"
  by (simp add: sup_inv_def sup_New_def served_def)

section \<open>One reload at a time\<close>

definition returned :: "rphase \<Rightarrow> bool" where
  "returned p \<longleftrightarrow> (case p of RReturned e \<Rightarrow> True | _ \<Rightarrow> False)"

text \<open>Events in which no start or reload begins before the previous ones have returned.\<close>

definition seq_event :: "('y, 'c) sev \<Rightarrow> 'c Supervisor \<Rightarrow> 'c Supervisor option" where
  "seq_event ev s =
     (case ev of
        SReload \<Rightarrow> if list_all returned (su_reloads s) then sup_event ev s else None
      | SStart env \<Rightarrow> if list_all returned (su_reloads s) then sup_event ev s else None
      | _ \<Rightarrow> sup_event ev s)"

text \<open>Where a call of \<^verbatim>\<open>Reload\<close> may be: it deals with the current runtime, and builds when that has ended.\<close>

definition phase_ok :: "'c Supervisor \<Rightarrow> rphase \<Rightarrow> bool" where
  "phase_ok s p \<longleftrightarrow>
     (case p of
        RCaptured j \<Rightarrow> j = su_cur s
      | RDrain j \<Rightarrow> j = su_cur s
      | RForce j \<Rightarrow> su_cur s = Some j
      | RBuild \<Rightarrow> (\<forall>j. su_cur s = Some j \<longrightarrow> rt_done s j)
      | RReturned e \<Rightarrow> True)"

definition seq_inv :: "'c Supervisor \<Rightarrow> bool" where
  "seq_inv s \<longleftrightarrow> sup_inv s \<and>
     (\<forall>j < length (su_rts s). su_cur s \<noteq> Some j \<longrightarrow> rt_done s j) \<and>
     (\<exists>i. (\<forall>k < length (su_reloads s). k \<noteq> i \<longrightarrow> returned (su_reloads s ! k)) \<and>
          (i < length (su_reloads s) \<longrightarrow> phase_ok s (su_reloads s ! i)))"

lemma rt_done_kept: "rt_event ev j s = Some t \<Longrightarrow> rt_done s k \<Longrightarrow> rt_done t k"
proof (erule rt_event_Some)
  fix m
  assume m: "mgr_event ev ((rt_mgr (su_rts s ! j))\<lparr>m_reg := su_reg s\<rparr>) = Some m"
    and t: "j < length (su_rts s)" "t = s\<lparr>su_rts := (su_rts s)[j := (su_rts s ! j)\<lparr>rt_mgr := m\<rparr>], su_reg := m_reg m\<rparr>"
    and d: "rt_done s k"
  have "start_done (rt_mgr (su_rts s ! j)) \<Longrightarrow> start_done m" using start_done_kept [OF _ m] by simp
  then show "rt_done t k" using t d by (cases "k = j") (auto simp: rt_done_def)
qed

lemma phase_ok_kept:
  assumes "phase_ok s p" "su_cur t = su_cur s" "\<And>k. su_cur s = Some k \<Longrightarrow> rt_done s k \<Longrightarrow> rt_done t k"
  shows "phase_ok t p"
  using assms by (auto simp: phase_ok_def split: rphase.splits)

text \<open>A step that keeps the current runtime and ends none of them keeps the rest.\<close>

lemma seq_inv_frame:
  assumes "seq_inv s" "sup_inv t" "su_cur t = su_cur s" "length (su_rts t) = length (su_rts s)" "su_reloads t = su_reloads s"
    and "\<And>k. k < length (su_rts s) \<Longrightarrow> rt_done s k \<Longrightarrow> rt_done t k"
  shows "seq_inv t"
proof -
  have "rt_done t k" if "su_cur s = Some k" "rt_done s k" for k
    using assms(1,6) that by (auto simp: seq_inv_def sup_inv_def)
  then have "phase_ok s p \<Longrightarrow> phase_ok t p" for p using phase_ok_kept assms(3) by blast
  then show ?thesis using assms unfolding seq_inv_def by metis
qed

lemma on_cur_done: "on_cur ev j s = Some t \<Longrightarrow> rt_done s k \<Longrightarrow> rt_done t k"
  by (auto simp: on_cur_def dest: rt_done_kept split: option.splits)

lemma seq_inv_rt_event:
  assumes "seq_inv s" "rt_event ev j s = Some t"
  shows "seq_inv t"
  by (rule seq_inv_frame [OF assms(1)])
    (use assms in \<open>auto simp: rt_event_frame seq_inv_def intro: rt_event_inv rt_done_kept\<close>)

lemma seq_inv_on_cur: "seq_inv s \<Longrightarrow> on_cur ev j s = Some t \<Longrightarrow> seq_inv t"
  by (auto simp: on_cur_def intro: seq_inv_rt_event split: option.splits)

text \<open>The call that is under way takes its next phase.\<close>

lemma seq_inv_phase:
  assumes "seq_inv s" "sup_inv (set_phase i p s)" "i < length (su_reloads s)" "\<not> returned (su_reloads s ! i)" "phase_ok s p"
  shows "seq_inv (set_phase i p s)"
proof -
  have "phase_ok (set_phase i p s) p" using assms(5) by (rule phase_ok_kept) (simp_all add: set_phase_def rt_done_def)
  moreover obtain i' where i': "\<forall>k < length (su_reloads s). k \<noteq> i' \<longrightarrow> returned (su_reloads s ! k)"
    using assms(1) unfolding seq_inv_def by blast
  then have "i' = i" using assms(3,4) by blast
  ultimately show ?thesis
    using assms(1,2,3) i' unfolding seq_inv_def
    by (intro conjI exI [of _ i]) (auto simp: set_phase_def rt_done_def)
qed

lemma rt_done_set_phase [simp]: "rt_done (set_phase i p s) = rt_done s"
  by (simp add: rt_done_def set_phase_def fun_eq_iff)

lemma install_done:
  assumes "install env s = (e, t)" "k < length (su_rts s)"
  shows "rt_done t k = rt_done s k"
  using assms by (auto simp: install_def rt_done_def nth_append split: sum.splits)

lemma install_cur:
  assumes "install env s = (e, t)"
  shows "e = None \<Longrightarrow> su_cur t = Some (length (su_rts s)) \<and> length (su_rts t) = Suc (length (su_rts s)) \<and>
      Load (se_load env) (su_path s) = Inr (CurrentConfig t) \<and> \<not> rt_done t (length (su_rts s))"
    and "e \<noteq> None \<Longrightarrow> t = s"
  using assms by (auto simp: install_def CurrentConfig_def rt_done_def dest: build_runtime_ok(3,4) split: sum.splits)

lemma seq_inv_install:
  assumes "seq_inv s" "install env s = (e, t)" "\<And>j. su_cur s = Some j \<Longrightarrow> rt_done s j"
  shows "\<forall>j < length (su_rts t). su_cur t \<noteq> Some j \<longrightarrow> rt_done t j"
proof (cases e)
  case None
  then have t: "su_cur t = Some (length (su_rts s))" "length (su_rts t) = Suc (length (su_rts s))"
    using install_cur(1) [OF assms(2)] by auto
  have "rt_done s j" if "j < length (su_rts s)" for j using assms(1,3) that by (auto simp: seq_inv_def)
  then show ?thesis using t install_done [OF assms(2)] by (auto simp: less_Suc_eq)
next
  case (Some x)
  then show ?thesis using install_cur(2) [OF assms(2)] assms(1) by (auto simp: seq_inv_def)
qed

lemma seq_inv_part:
  assumes "seq_inv s" "i < length (su_reloads s)" "reload_part i pt (su_reloads s ! i) s = Some t"
  shows "seq_inv t"
proof -
  have inv: "sup_inv t" using reload_part_inv assms by (auto simp: seq_inv_def)
  obtain i' where i': "\<forall>k < length (su_reloads s). k \<noteq> i' \<longrightarrow> returned (su_reloads s ! k)"
    "i' < length (su_reloads s) \<longrightarrow> phase_ok s (su_reloads s ! i')"
    using assms(1) unfolding seq_inv_def by blast
  have act: "\<not> returned (su_reloads s ! i)"
    by (cases rule: reload_part_cases [OF assms(3)]) (auto simp: returned_def)
  then have "i' = i" using i'(1) assms(2) by blast
  then have ok: "phase_ok s (su_reloads s ! i)" using i'(2) assms(2) by blast
  show ?thesis
    using assms(3)
  proof (cases rule: reload_part_cases)
    case (stop j s')
    then have "seq_inv s'" "su_reloads s' = su_reloads s" "su_cur s' = su_cur s"
      using assms(1) seq_inv_on_cur on_cur_frame by blast+
    with stop ok inv assms(2) act show ?thesis by (auto simp: phase_ok_def intro!: seq_inv_phase)
  next
    case (drained j)
    with assms(1,2) ok inv act show ?thesis by (auto simp: phase_ok_def intro!: seq_inv_phase)
  next
    case (timeout j s')
    then have "seq_inv s'" "su_reloads s' = su_reloads s" "su_cur s' = su_cur s"
      using assms(1) seq_inv_rt_event rt_event_frame by blast+
    with timeout ok inv assms(2) act show ?thesis by (auto simp: phase_ok_def intro!: seq_inv_phase)
  next
    case (forced j)
    with assms(1,2) ok inv act show ?thesis by (auto simp: phase_ok_def intro!: seq_inv_phase)
  next
    case (build env e s')
    then have "\<forall>j < length (su_rts s'). su_cur s' \<noteq> Some j \<longrightarrow> rt_done s' j"
      using seq_inv_install [OF assms(1) build(3)] ok by (auto simp: phase_ok_def)
    moreover have "su_reloads s' = su_reloads s" using build(3) by (auto simp: install_def split: sum.splits)
    ultimately show ?thesis
      using build(4) inv i'(1) \<open>i' = i\<close> assms(2) unfolding seq_inv_def
      by (intro conjI exI [of _ i]) (auto simp: set_phase_def rt_done_def phase_ok_def)
  qed
qed

lemma seq_event_sup: "seq_event ev s = Some t \<Longrightarrow> sup_event ev s = Some t"
  by (auto simp: seq_event_def split: sev.splits if_splits)

lemma seq_inv_event:
  assumes "seq_inv s" "seq_event ev s = Some t"
  shows "seq_inv t"
proof -
  have inv: "sup_inv t" using sup_event_inv seq_event_sup assms by (fastforce simp: seq_inv_def)
  show ?thesis
  proof (cases ev)
    case (SStart env)
    then have idle: "list_all returned (su_reloads s)" and t: "t = snd (sup_Start env s)"
      using assms(2) by (auto simp: seq_event_def split: if_splits)
    have r: "su_reloads t = su_reloads s"
      using t by (auto simp: sup_Start_def install_def split: sum.splits)
    have "\<forall>j < length (su_rts t). su_cur t \<noteq> Some j \<longrightarrow> rt_done t j"
    proof (cases "su_cur s")
      case None
      obtain e s' where "install env s = (e, s')" by force
      then show ?thesis using seq_inv_install [OF assms(1)] None t by (simp add: sup_Start_def)
    qed (use assms(1) t in \<open>simp add: sup_Start_def seq_inv_def\<close>)
    then show ?thesis
      using inv idle r unfolding seq_inv_def by (auto simp: list_all_length intro!: exI [of _ "length (su_reloads s)"])
  next
    case SReload
    then have idle: "list_all returned (su_reloads s)" and t: "t = s\<lparr>su_reloads := su_reloads s @ [RCaptured (su_cur s)]\<rparr>"
      using assms(2) by (auto simp: seq_event_def split: if_splits)
    then show ?thesis
      using inv assms(1) unfolding seq_inv_def
      by (auto simp: list_all_length nth_append rt_done_def phase_ok_def less_Suc_eq intro!: exI [of _ "length (su_reloads s)"])
  next
    case (SCall i pt)
    then show ?thesis using assms seq_inv_part by (auto simp: seq_event_def split: if_splits)
  next
    case SDrainStart
    then show ?thesis using assms seq_inv_on_cur by (auto simp: seq_event_def DrainStart_def)
  next
    case (SRun j ev)
    then show ?thesis using assms seq_inv_rt_event by (auto simp: seq_event_def split: if_splits)
  next
    case (SClusters j cm)
    then have t: "t = s\<lparr>su_rts := (su_rts s)[j := (su_rts s ! j)\<lparr>rt_cm := cm\<rparr>]\<rparr>" "j < length (su_rts s)"
      using assms(2) by (auto simp: seq_event_def split: if_splits)
    then have "rt_done s k \<Longrightarrow> rt_done t k" for k by (cases "k = j") (auto simp: rt_done_def)
    then show ?thesis using t by (intro seq_inv_frame [OF assms(1) inv]) auto
  next
    case SQuit
    then have "t = s\<lparr>su_base := True, su_rts := map (\<lambda>rt. rt\<lparr>rt_mgr := (rt_mgr rt)\<lparr>m_ctx := True\<rparr>\<rparr>) (su_rts s)\<rparr>"
      using assms(2) by (auto simp: seq_event_def cancel_base_def)
    then show ?thesis by (intro seq_inv_frame [OF assms(1) inv]) (auto simp: rt_done_def start_done_def)
  qed
qed

interpretation one_reload: event_system seq_event seq_inv
  by unfold_locales (rule seq_inv_event)

section \<open>Two reloads at the same time\<close>

lemma rt_event_enabled:
  assumes "j < length (su_rts s)"
  shows "\<exists>t. rt_event StopAccept j s = Some t" "\<exists>t. rt_event Cancel j s = Some t \<and> m_ctx (rt_mgr (su_rts t ! j))"
  using assms by (auto simp: rt_event_def)

text \<open>What the goroutines of one runtime do by themselves, as events of the process.\<close>

lemma rt_run_lift:
  fixes s :: "'c Supervisor"
  assumes "j < length (su_rts s)" "mgr_run evs ((rt_mgr (su_rts s ! j))\<lparr>m_reg := su_reg s\<rparr>) = Some m" "list_all internal evs"
  shows "\<exists>t. run_all (sup_event :: ('y, 'c) sev \<Rightarrow> _) (map (SRun j) evs) s = Some t \<and>
    (rt_mgr (su_rts t ! j))\<lparr>m_reg := su_reg t\<rparr> = m \<and>
    length (su_rts t) = length (su_rts s) \<and> su_cur t = su_cur s \<and> su_reloads t = su_reloads s \<and>
    su_base t = su_base s \<and> su_path t = su_path s"
  using assms
proof (induction evs arbitrary: s)
  case (Cons ev evs)
  obtain m1 where m1: "mgr_event ev ((rt_mgr (su_rts s ! j))\<lparr>m_reg := su_reg s\<rparr>) = Some m1" "mgr_run evs m1 = Some m"
    using Cons.prems(2) by (auto split: option.splits)
  let ?s = "s\<lparr>su_rts := (su_rts s)[j := (su_rts s ! j)\<lparr>rt_mgr := m1\<rparr>], su_reg := m_reg m1\<rparr>"
  have step: "sup_event (SRun j ev :: ('y, 'c) sev) s = Some ?s" using Cons.prems(1,3) m1(1) by (simp add: rt_event_def)
  have "(rt_mgr (su_rts ?s ! j))\<lparr>m_reg := su_reg ?s\<rparr> = m1" using Cons.prems(1) by simp
  with Cons.IH [of ?s] Cons.prems m1(2) step show ?case by auto
qed auto

lemma runtime_can_end:
  fixes s :: "'c Supervisor"
  assumes "sup_inv s" "j < length (su_rts s)" "m_ctx (rt_mgr (su_rts s ! j))"
  shows "\<exists>evs t. run_all (sup_event :: ('y, 'c) sev \<Rightarrow> _) evs s = Some t \<and> rt_done t j \<and>
    length (su_rts t) = length (su_rts s) \<and> su_cur t = su_cur s \<and> su_reloads t = su_reloads s \<and>
    su_base t = su_base s \<and> su_path t = su_path s"
proof -
  have "mgr_core (rt_mgr (su_rts s ! j))" using assms(1,2) by (auto simp: sup_inv_def runtime_ok_def)
  then obtain evs m where "mgr_run evs ((rt_mgr (su_rts s ! j))\<lparr>m_reg := su_reg s\<rparr>) = Some m" "list_all internal evs" "start_done m"
    using listeners.can_finish [of "(rt_mgr (su_rts s ! j))\<lparr>m_reg := su_reg s\<rparr>"] assms(3) by auto
  from rt_run_lift [OF assms(2) this(1,2)] this(3) show ?thesis
    unfolding rt_done_def by (metis mgr_core_reg(3))
qed

text \<open>Two calls that captured the same runtime both come to the point where they build.\<close>

lemma both_build:
  fixes s :: "'c Supervisor"
  assumes "sup_inv s" "su_cur s = Some j" "n = length (su_reloads s)"
  shows "\<exists>evs t. run_all (sup_event :: ('y, 'c) sev \<Rightarrow> _) evs s = Some t \<and> su_reloads t = su_reloads s @ [RBuild, RBuild] \<and>
    length (su_rts t) = length (su_rts s) \<and> su_cur t = su_cur s \<and> su_base t = su_base s \<and> su_path t = su_path s"
proof -
  let ?ev = "sup_event :: ('y, 'c) sev \<Rightarrow> 'c Supervisor \<Rightarrow> 'c Supervisor option"
  let ?c = "RCaptured (Some j)" and ?d = "RDrain (Some j)"
  have j: "j < length (su_rts s)" using assms(1,2) by (simp add: sup_inv_def)
  define a where "a = s\<lparr>su_reloads := su_reloads s @ [?c, ?c]\<rparr>"
  have ea: "run_all ?ev [SReload, SReload] s = Some a" using assms(2) by (simp add: a_def)
  obtain a' where a': "rt_event StopAccept j a = Some a'" using rt_event_enabled(1) [of j a] j by (auto simp: a_def)
  define b where "b = set_phase n ?d a'"
  have b: "su_reloads b = su_reloads s @ [?d, ?c]" "length (su_rts b) = length (su_rts s)" "su_cur b = su_cur s"
    "su_base b = su_base s" "su_path b = su_path s"
    using rt_event_frame [OF a'] assms(3) by (simp_all add: b_def set_phase_def a_def)
  have eb: "run_all ?ev [SCall n Stop] a = Some b"
    using a' assms(3) by (simp add: b_def a_def nth_append on_cur_def)
  obtain b' where b': "rt_event StopAccept j b = Some b'" using rt_event_enabled(1) [of j b] j b(2) by auto
  define c where "c = set_phase (Suc n) ?d b'"
  have c: "su_reloads c = su_reloads s @ [?d, ?d]" "length (su_rts c) = length (su_rts s)" "su_cur c = su_cur s"
    "su_base c = su_base s" "su_path c = su_path s"
    using rt_event_frame [OF b'] b assms(3) by (simp_all add: c_def set_phase_def list_update_append)
  have ec: "run_all ?ev [SCall (Suc n) Stop] b = Some c"
    using b' b assms(3) by (simp add: c_def nth_append on_cur_def)
  obtain c' where c': "rt_event Cancel j c = Some c'" "m_ctx (rt_mgr (su_rts c' ! j))"
    using rt_event_enabled(2) [of j c] j c(2) by auto
  define d where "d = set_phase n (RForce j) c'"
  have d: "su_reloads d = su_reloads s @ [RForce j, ?d]" "length (su_rts d) = length (su_rts s)" "su_cur d = su_cur s"
    "su_base d = su_base s" "su_path d = su_path s" "m_ctx (rt_mgr (su_rts d ! j))"
    using rt_event_frame [OF c'(1)] c c'(2) assms(3) by (simp_all add: d_def set_phase_def list_update_append)
  have ed: "run_all ?ev [SCall n Timeout] c = Some d" using c' c assms(3) by (simp add: d_def nth_append)
  have run: "run_all ?ev [SReload, SReload, SCall n Stop, SCall (Suc n) Stop, SCall n Timeout] s = Some d"
    using run_all_append [OF ea, of "[SCall n Stop, SCall (Suc n) Stop, SCall n Timeout]"]
      run_all_append [OF eb, of "[SCall (Suc n) Stop, SCall n Timeout]"] run_all_append [OF ec, of "[SCall n Timeout]"] ed
    by simp
  have "sup_inv d" using supervision.run_inv [OF run assms(1)] .
  then obtain evs e where e: "run_all ?ev evs d = Some e" "rt_done e j" "su_reloads e = su_reloads d" "su_cur e = su_cur d"
    "length (su_rts e) = length (su_rts d)" "su_base e = su_base d" "su_path e = su_path d"
    using runtime_can_end [of d j] j d by metis
  have ef: "run_all ?ev [SCall n Forced, SCall (Suc n) Drained] e = Some (e\<lparr>su_reloads := su_reloads s @ [RBuild, RBuild]\<rparr>)"
    using e d(1) assms(3) by (simp add: nth_append set_phase_def list_update_append rt_done_def)
  show ?thesis
    using run_all_append [OF run, of "evs @ [SCall n Forced, SCall (Suc n) Drained]"] run_all_append [OF e(1)] ef e d
    by (intro exI [of _ "[SReload, SReload, SCall n Stop, SCall (Suc n) Stop, SCall n Timeout] @ evs @ [SCall n Forced, SCall (Suc n) Drained]"]) auto
qed

end
