(* ===== verification/GP_Admin.thy ===== *)
theory GP_Admin
  imports GP_Prom GP_Supervisor
begin

text \<open>
  Package \<^verbatim>\<open>internal/admin\<close>: the handlers of the admin server. What they call is passed to
  \<^verbatim>\<open>admin.Start\<close> as functions; here they are a record of functions on a state of any
  type (\<open>deps\<close>), and \<open>sup_deps\<close> is what \<^verbatim>\<open>cmd/proxy/main.go\<close> passes: the methods of the
  supervisor. A JSON answer is the value that is encoded. The multiplexer sends a path that is
  registered to its handler and any other to its not-found handler.
\<close>

record routeView =
  rv_Prefix :: string
  rv_Cluster :: string
  rv_StripPrefix :: bool
  rv_PrefixRewrite :: string

datatype body =
    Text string
  | ConfigJSON ProxyConfig
  | RoutesJSON "routeView list"
  | EndpointsJSON "ClusterDebug list"

record reply_rec =
  ar_status :: int
  ar_type :: "string option"
  ar_body :: body

record 's deps =
  d_config :: "'s \<Rightarrow> ProxyConfig"
  d_metrics :: "'s \<Rightarrow> registry"
  d_reload :: "'s \<Rightarrow> string option \<times> 's"
  d_drain :: "('s \<Rightarrow> 's) option"
  d_quit :: "('s \<Rightarrow> 's) option"
  d_endpoints :: "('s \<Rightarrow> ClusterDebug list) option"

definition plain :: "int \<Rightarrow> string \<Rightarrow> reply_rec" where
  "plain status text = \<lparr>ar_status = status, ar_type = None, ar_body = Text text\<rparr>"

definition typed :: "string \<Rightarrow> body \<Rightarrow> reply_rec" where
  "typed ctype b = \<lparr>ar_status = 200, ar_type = Some ctype, ar_body = b\<rparr>"

definition http_error :: "string \<Rightarrow> int \<Rightarrow> reply_rec" where
  "http_error msg status =
     \<lparr>ar_status = status, ar_type = Some ''text/plain; charset=utf-8'', ar_body = Text (msg @ newline)\<rparr>"

definition route_view :: "RouteRule \<Rightarrow> routeView" where
  "route_view r =
     \<lparr>rv_Prefix = rr_Prefix r, rv_Cluster = rr_Cluster r, rv_StripPrefix = rr_StripPrefix r,
      rv_PrefixRewrite = rr_PrefixRewrite r\<rparr>"

definition reload_handler :: "'s deps \<Rightarrow> string \<Rightarrow> 's \<Rightarrow> reply_rec \<times> 's" where
  "reload_handler d meth s =
     (if meth \<noteq> ''POST'' then (plain 405 (''use POST to reload'' @ newline), s)
      else (case d_reload d s of
              (Some err, s') \<Rightarrow> (http_error (''reload failed: '' @ err) 500, s')
            | (None, s') \<Rightarrow> (plain 200 (''reloaded'' @ newline), s')))"

definition drain_handler :: "'s deps \<Rightarrow> string \<Rightarrow> 's \<Rightarrow> reply_rec \<times> 's" where
  "drain_handler d meth s =
     (if meth \<noteq> ''POST'' \<and> meth \<noteq> ''GET'' then (plain 405 [], s)
      else (plain 200 (''drain started'' @ newline), case d_drain d of None \<Rightarrow> s | Some f \<Rightarrow> f s))"

definition quit_handler :: "'s deps \<Rightarrow> string \<Rightarrow> 's \<Rightarrow> reply_rec \<times> 's" where
  "quit_handler d meth s =
     (if meth \<noteq> ''POST'' \<and> meth \<noteq> ''GET'' then (plain 405 [], s)
      else (plain 200 (''shutting down'' @ newline), case d_quit d of None \<Rightarrow> s | Some f \<Rightarrow> f s))"

definition endpoints_handler :: "'s deps \<Rightarrow> 's \<Rightarrow> reply_rec" where
  "endpoints_handler d s =
     (case d_endpoints d of
        None \<Rightarrow> http_error ''endpoints debug not available'' 501
      | Some f \<Rightarrow> typed ''application/json'' (EndpointsJSON (f s)))"

definition admin_handle :: "key_order \<Rightarrow> 's deps \<Rightarrow> string \<Rightarrow> string \<Rightarrow> 's \<Rightarrow> (reply_rec \<times> 's) go" where
  "admin_handle rng d path meth s =
     (if path = ''/healthz'' then Ret (plain 200 (''ok'' @ newline), s)
      else if path = ''/stats'' then
        Ret (typed ''text/plain; charset=utf-8'' (Text (RenderText rng (d_metrics d s))), s)
      else if path = ''/config'' then Ret (typed ''application/json'' (ConfigJSON (d_config d s)), s)
      else if path = ''/metrics'' then
        go_bind (RenderProm rng (d_metrics d s)) (\<lambda>t.
          Ret (typed ''text/plain; version=0.0.4; charset=utf-8'' (Text t), s))
      else if path = ''/routes'' then
        Ret (typed ''application/json'' (RoutesJSON (map route_view (Routes (d_config d s)))), s)
      else if path = ''/endpoints'' then Ret (endpoints_handler d s, s)
      else if path = ''/reload'' then Ret (reload_handler d meth s)
      else if path = ''/drain_start'' then Ret (drain_handler d meth s)
      else if path = ''/quitquitquit'' then Ret (quit_handler d meth s)
      else Ret (http_error ''404 page not found'' 404, s))"

text \<open>What \<^verbatim>\<open>main\<close> passes: a call of \<^verbatim>\<open>Reload\<close> is \<open>reload\<close>, any run of its parts.\<close>

definition sup_deps :: "('c Supervisor \<Rightarrow> string option \<times> 'c Supervisor) \<Rightarrow> key_order \<Rightarrow> Time \<Rightarrow> 'c Supervisor deps" where
  "sup_deps reload rng now =
     \<lparr>d_config = CurrentConfig, d_metrics = su_reg, d_reload = reload,
      d_drain = Some (\<lambda>s. case DrainStart s of None \<Rightarrow> s | Some t \<Rightarrow> t), d_quit = Some cancel_base,
      d_endpoints = Some (EndpointsDebug rng now)\<rparr>"

section \<open>What a request changes\<close>

lemma admin_handle_state:
  assumes "admin_handle rng d path meth s = Ret (r, s')"
  shows "s' = s \<or> path = ''/reload'' \<and> meth = ''POST'' \<and> s' = snd (d_reload d s) \<or>
    path = ''/drain_start'' \<and> meth \<in> {''POST'', ''GET''} \<and> (\<exists>f. d_drain d = Some f \<and> s' = f s) \<or>
    path = ''/quitquitquit'' \<and> meth \<in> {''POST'', ''GET''} \<and> (\<exists>f. d_quit d = Some f \<and> s' = f s)"
  using assms
  by (auto simp: admin_handle_def go_bind_eq_Ret reload_handler_def drain_handler_def quit_handler_def
      split: if_splits option.splits prod.splits)

lemma admin_handle_returns:
  assumes "map_range rng" "registry_ok (d_metrics d s)"
  shows "\<exists>r s'. admin_handle rng d path meth s = Ret (r, s')"
proof -
  obtain t where "RenderProm rng (d_metrics d s) = Ret t" using RenderProm_items [OF assms] by blast
  then show ?thesis by (auto simp: admin_handle_def)
qed

end
