(* ===== verification/GP_Process.thy ===== *)
theory GP_Process
  imports GP_Admin
begin

text \<open>
  The process (\<^verbatim>\<open>cmd/proxy/main.go\<close>) and the life of the admin server
  (\<^verbatim>\<open>admin.Start\<close>): the main goroutine loads the configuration, starts the supervisor, spawns
  the admin server, waits for the context of the process and exits; a signal or \<^verbatim>\<open>/quitquitquit\<close>
  cancels the context. Everything that can happen next is an event (\<open>proc_event\<close>); the events of the
  supervisor are those of \<open>sup_event\<close>, so a run of the process contains a run of the supervisor. The
  configuration is loaded twice, by \<^verbatim>\<open>main\<close> and again by the supervisor; each load has its own
  environment.
\<close>

section \<open>State\<close>

datatype admin_err = AdminListen | AdminAccept

text \<open>
  \<^verbatim>\<open>admin.Start\<close>: not called yet, before \<^verbatim>\<open>ListenAndServe\<close> has bound its address, serving, or
  returned (the error of a closed server counts as none).
\<close>

datatype admin_phase = AdmNone | AdmStarting | AdmServing | AdmReturned "admin_err option"

datatype main_phase = MLoad | MNew | MWait | MExited int

datatype stderr_line = ConfigLoadError load_err | StartError sup_err | AdminError admin_err

record 'c proc =
  pr_path :: string
  pr_ctx :: bool
  pr_main :: main_phase
  pr_sup :: "'c Supervisor option"
  pr_admin :: admin_phase
  pr_shut :: bool
  pr_stdout :: "string list"
  pr_stderr :: "stderr_line list"
  pr_reg :: registry

definition proc_init :: "string \<Rightarrow> registry \<Rightarrow> 'c proc" where
  "proc_init path r =
     \<lparr>pr_path = path, pr_ctx = False, pr_main = MLoad, pr_sup = None, pr_admin = AdmNone, pr_shut = False,
      pr_stdout = [], pr_stderr = [], pr_reg = r\<rparr>"

section \<open>Events\<close>

definition fails :: "stderr_line \<Rightarrow> 'c proc \<Rightarrow> 'c proc" where
  "fails l s = s\<lparr>pr_stderr := pr_stderr s @ [l], pr_main := MExited 2\<rparr>"

definition main_load :: "'y load_env \<Rightarrow> 'c proc \<Rightarrow> 'c proc" where
  "main_load env s =
     (case Load env (pr_path s) of
        Inl e \<Rightarrow> fails (ConfigLoadError e) s
      | Inr cfg \<Rightarrow>
          s\<lparr>pr_stdout := pr_stdout s @ [''loaded '' @ FormatInt (int (length (Listeners cfg))) @ '' listener(s)'' @ newline],
            pr_main := MNew\<rparr>)"

text \<open>The supervisor is made with the context of the process, which may be cancelled already.\<close>

definition main_start :: "('y, 'c) sup_env \<Rightarrow> 'c proc \<Rightarrow> 'c proc" where
  "main_start env s =
     (let u = sup_New (pr_path s) (pr_reg s); u = (if pr_ctx s then cancel_base u else u)
      in case sup_Start env u of
           (Some e, _) \<Rightarrow> fails (StartError e) s
         | (None, u) \<Rightarrow> s\<lparr>pr_sup := Some u, pr_admin := AdmStarting, pr_main := MWait\<rparr>)"

definition main_exit :: "'c proc \<Rightarrow> 'c proc" where
  "main_exit s = s\<lparr>pr_stdout := pr_stdout s @ [''shutting down'' @ newline], pr_main := MExited 0\<rparr>"

definition proc_cancel :: "'c proc \<Rightarrow> 'c proc" where
  "proc_cancel s = s\<lparr>pr_ctx := True, pr_sup := map_option cancel_base (pr_sup s)\<rparr>"

text \<open>What a request to the admin server starts in the supervisor.\<close>

definition admin_action :: "string \<Rightarrow> string \<Rightarrow> ('y, 'c) sev option" where
  "admin_action path meth =
     (if path = ''/reload'' \<and> meth = ''POST'' then Some SReload
      else if path = ''/drain_start'' \<and> (meth = ''POST'' \<or> meth = ''GET'') then Some SDrainStart
      else if path = ''/quitquitquit'' \<and> (meth = ''POST'' \<or> meth = ''GET'') then Some SQuit
      else None)"

datatype ('y, 'c) pev =
    PLoad "'y load_env"
  | PStart "('y, 'c) sup_env"
  | PSignal
  | PExit
  | PAdminListen bool
  | PAdminRequest string string
  | PAdminShutdown
  | PAdminClosed
  | PAdminAcceptFails
  | PSup "('y, 'c) sev"

fun own_event :: "('y, 'c) sev \<Rightarrow> bool" where
  "own_event (SCall i pt) = True"
| "own_event (SRun j ev) = True"
| "own_event (SClusters j cm) = True"
| "own_event _ = False"

definition on_sup :: "('y, 'c) sev \<Rightarrow> 'c proc \<Rightarrow> 'c proc option" where
  "on_sup ev s =
     (case pr_sup s of
        None \<Rightarrow> None
      | Some u \<Rightarrow> map_option (\<lambda>u. s\<lparr>pr_sup := Some u\<rparr>) (sup_event ev u))"

definition admin_fails :: "admin_err \<Rightarrow> 'c proc \<Rightarrow> 'c proc" where
  "admin_fails e s = s\<lparr>pr_admin := AdmReturned (Some e), pr_stderr := pr_stderr s @ [AdminError e]\<rparr>"

definition exited :: "'c proc \<Rightarrow> bool" where
  "exited s \<longleftrightarrow> (case pr_main s of MExited n \<Rightarrow> True | _ \<Rightarrow> False)"

fun live_event :: "('y, 'c) pev \<Rightarrow> 'c proc \<Rightarrow> 'c proc option" where
  "live_event (PLoad env) s = (if pr_main s = MLoad then Some (main_load env s) else None)"
| "live_event (PStart env) s = (if pr_main s = MNew then Some (main_start env s) else None)"
| "live_event PSignal s = Some (proc_cancel s)"
| "live_event PExit s = (if pr_main s = MWait \<and> pr_ctx s then Some (main_exit s) else None)"
| "live_event (PAdminListen ok) s =
     (if pr_admin s = AdmStarting
      then Some (if pr_shut s then s\<lparr>pr_admin := AdmReturned None\<rparr>
                 else if ok then s\<lparr>pr_admin := AdmServing\<rparr> else admin_fails AdminListen s)
      else None)"
| "live_event (PAdminRequest path meth) s =
     (if pr_admin s = AdmServing \<and> \<not> pr_shut s
      then (case (admin_action path meth :: ('y, 'c) sev option) of
              None \<Rightarrow> Some s
            | Some SQuit \<Rightarrow> Some (proc_cancel s)
            | Some ev \<Rightarrow> on_sup ev s)
      else None)"
| "live_event PAdminShutdown s =
     (if pr_admin s \<noteq> AdmNone \<and> pr_ctx s then Some (s\<lparr>pr_shut := True\<rparr>) else None)"
| "live_event PAdminClosed s =
     (if pr_admin s = AdmServing \<and> pr_shut s then Some (s\<lparr>pr_admin := AdmReturned None\<rparr>) else None)"
| "live_event PAdminAcceptFails s =
     (if pr_admin s = AdmServing \<and> \<not> pr_shut s then Some (admin_fails AdminAccept s) else None)"
| "live_event (PSup ev) s = (if own_event ev then on_sup ev s else None)"

text \<open>Nothing happens in a process that has exited.\<close>

definition proc_event :: "('y, 'c) pev \<Rightarrow> 'c proc \<Rightarrow> 'c proc option" where
  "proc_event ev s = (if exited s then None else live_event ev s)"

abbreviation proc_run :: "('y, 'c) pev list \<Rightarrow> 'c proc \<Rightarrow> 'c proc option" where
  "proc_run \<equiv> run_all proc_event"

section \<open>The events of the process\<close>

text \<open>An event of the process does to its supervisor nothing, one event of the supervisor, or starts it.\<close>

lemma proc_event_sup:
  assumes "proc_event (ev :: ('y, 'c) pev) s = Some t" "pr_sup t = Some u"
  shows "pr_sup s = Some u \<or> (\<exists>v (e :: ('y, 'c) sev). pr_sup s = Some v \<and> sup_event e v = Some u) \<or>
    (\<exists>env :: ('y, 'c) sup_env. sup_Start env (if pr_ctx s then cancel_base (sup_New (pr_path s) (pr_reg s))
      else sup_New (pr_path s) (pr_reg s)) = (None, u))"
proof -
  have cancel: "(\<exists>v (e :: ('y, 'c) sev). pr_sup s = Some v \<and> sup_event e v = Some u)" if c: "map_option cancel_base (pr_sup s) = Some u"
  proof -
    obtain v where "pr_sup s = Some v" "u = cancel_base v" using c by auto
    moreover have "sup_event (SQuit :: ('y, 'c) sev) v = Some (cancel_base v)" by simp
    ultimately show ?thesis by blast
  qed
  have run: "(\<exists>v (e :: ('y, 'c) sev). pr_sup s = Some v \<and> sup_event e v = Some u)"
    if "on_sup (e :: ('y, 'c) sev) s = Some t" for e
    using that assms(2) by (auto simp: on_sup_def split: option.splits)
  show ?thesis
    using assms cancel run
    by (cases ev)
      (auto simp: proc_event_def main_load_def fails_def main_start_def main_exit_def proc_cancel_def admin_fails_def Let_def
        split: if_splits sum.splits option.splits prod.splits sev.splits)
qed

lemma proc_event_frame: "proc_event ev s = Some t \<Longrightarrow> pr_path t = pr_path s \<and> pr_reg t = pr_reg s"
  by (cases ev)
    (auto simp: proc_event_def main_load_def fails_def main_start_def main_exit_def proc_cancel_def admin_fails_def on_sup_def Let_def
      split: if_splits sum.splits option.splits prod.splits sev.splits)

text \<open>A run of the process contains a run of the supervisor.\<close>

lemma proc_run_sup:
  "proc_run (es :: ('y, 'c) pev list) (proc_init path r) = Some s \<Longrightarrow>
     pr_path s = path \<and> pr_reg s = r \<and>
     (\<forall>u. pr_sup s = Some u \<longrightarrow> (\<exists>evs :: ('y, 'c) sev list. sup_run evs (sup_New path r) = Some u))"
proof (induction es arbitrary: s rule: rev_induct)
  case Nil
  then show ?case by (auto simp: proc_init_def)
next
  case (snoc ev es)
  obtain t where t: "proc_run es (proc_init path r) = Some t" "proc_event ev t = Some s"
    using run_all_snoc [OF snoc.prems] by blast
  note ih = snoc.IH [OF t(1)]
  have "\<exists>evs :: ('y, 'c) sev list. sup_run evs (sup_New path r) = Some u" if u: "pr_sup s = Some u" for u
    using proc_event_sup [OF t(2) u]
  proof (elim disjE exE conjE)
    fix v and e :: "('y, 'c) sev"
    assume v: "pr_sup t = Some v" "sup_event e v = Some u"
    then obtain evs :: "('y, 'c) sev list" where "sup_run evs (sup_New path r) = Some v" using ih by blast
    then have "sup_run (evs @ [e]) (sup_New path r) = Some u" using v(2) by (simp add: run_all_append)
    then show ?thesis by blast
  next
    fix env :: "('y, 'c) sup_env"
    assume st: "sup_Start env (if pr_ctx t then cancel_base (sup_New (pr_path t) (pr_reg t)) else sup_New (pr_path t) (pr_reg t)) = (None, u)"
    have "sup_run (if pr_ctx t then [SQuit, SStart env] else [SStart env]) (sup_New path r) = Some u"
      using st ih by (simp split: if_splits)
    then show ?thesis by blast
  qed (use ih in blast)
  then show ?case using ih proc_event_frame [OF t(2)] by auto
qed

section \<open>What holds in every state\<close>

fun main_ok :: "main_phase \<Rightarrow> bool \<Rightarrow> bool \<Rightarrow> admin_phase \<Rightarrow> stderr_line list \<Rightarrow> bool" where
  "main_ok MLoad ctx started adm errs \<longleftrightarrow> \<not> started \<and> adm = AdmNone \<and> errs = []"
| "main_ok MNew ctx started adm errs \<longleftrightarrow> \<not> started \<and> adm = AdmNone \<and> errs = []"
| "main_ok MWait ctx started adm errs \<longleftrightarrow> started \<and> adm \<noteq> AdmNone \<and> set errs \<subseteq> range AdminError"
| "main_ok (MExited n) ctx started adm errs \<longleftrightarrow> n = 0 \<and> ctx \<and> started \<and> set errs \<subseteq> range AdminError \<or>
     n = 2 \<and> \<not> started \<and> ((\<exists>e. errs = [ConfigLoadError e]) \<or> (\<exists>e. errs = [StartError e]))"

fun admin_ok :: "admin_phase \<Rightarrow> bool \<Rightarrow> stderr_line list \<Rightarrow> bool" where
  "admin_ok (AdmReturned None) ctx errs \<longleftrightarrow> ctx"
| "admin_ok (AdmReturned (Some e)) ctx errs \<longleftrightarrow> AdminError e \<in> set errs"
| "admin_ok _ ctx errs \<longleftrightarrow> True"

definition proc_inv :: "'c proc \<Rightarrow> bool" where
  "proc_inv s \<longleftrightarrow>
     main_ok (pr_main s) (pr_ctx s) (pr_sup s \<noteq> None) (pr_admin s) (pr_stderr s) \<and>
     (\<forall>u. pr_sup s = Some u \<longrightarrow> su_base u = pr_ctx s) \<and> (pr_shut s \<longrightarrow> pr_ctx s) \<and>
     admin_ok (pr_admin s) (pr_ctx s) (pr_stderr s)"

lemma admin_ok_more: "admin_ok a ctx errs \<Longrightarrow> admin_ok a True errs" "admin_ok a ctx errs \<Longrightarrow> admin_ok a ctx (errs @ es)"
  by (cases "(a, ctx, errs)" rule: admin_ok.cases, simp_all)+

lemma admin_running: "proc_inv s \<Longrightarrow> \<not> exited s \<Longrightarrow> pr_admin s \<noteq> AdmNone \<Longrightarrow> pr_main s = MWait"
  by (cases "pr_main s") (auto simp: proc_inv_def exited_def)

lemma install_base: "su_base (snd (install env u)) = su_base u"
  by (simp add: install_def split: sum.splits)

lemma install_base_eq: "install env u = (e, v) \<Longrightarrow> su_base v = su_base u"
  by (metis install_base snd_conv)

lemma on_cur_base: "on_cur ev j u = Some v \<Longrightarrow> su_base v = su_base u"
  by (auto simp: on_cur_def dest: rt_event_frame(4) split: option.splits)

lemma sup_event_base: "sup_event ev u = Some v \<Longrightarrow> ev \<noteq> SQuit \<Longrightarrow> su_base v = su_base u"
proof (cases ev)
  case (SCall i pt)
  assume "sup_event ev u = Some v"
  then have "reload_part i pt (su_reloads u ! i) u = Some v" using SCall by (simp split: if_splits)
  then show ?thesis
    by (cases rule: reload_part_cases)
      (auto simp: set_phase_def dest: on_cur_base install_base_eq rt_event_frame(4))
qed (auto simp: sup_Start_def DrainStart_def install_base dest: on_cur_base rt_event_frame(4) split: if_splits)

lemma proc_inv_init: "proc_inv (proc_init path r)"
  by (simp add: proc_inv_def proc_init_def)

lemma proc_inv_sup:
  assumes "proc_inv s" "\<not> exited s" "on_sup e s = Some t" "e \<noteq> SQuit"
  shows "proc_inv t"
proof -
  obtain u v where "pr_sup s = Some u" "sup_event e u = Some v" "t = s\<lparr>pr_sup := Some v\<rparr>"
    using assms(3) by (auto simp: on_sup_def split: option.splits)
  with assms sup_event_base [of e u v] show ?thesis
    by (auto simp: proc_inv_def)
qed

lemma proc_inv_cancel: "proc_inv s \<Longrightarrow> \<not> exited s \<Longrightarrow> proc_inv (proc_cancel s)"
  by (cases "pr_main s") (auto simp: proc_inv_def proc_cancel_def exited_def cancel_base_def admin_ok_more)

lemma proc_inv_start:
  assumes "proc_inv s" "pr_main s = MNew"
  shows "proc_inv (main_start env s)"
proof -
  let ?u = "if pr_ctx s then cancel_base (sup_New (pr_path s) (pr_reg s)) else sup_New (pr_path s) (pr_reg s)"
  obtain e v where st: "sup_Start env ?u = (e, v)" by force
  have "su_base v = pr_ctx s"
    using install_base [of env ?u] st by (simp add: sup_Start_def) (simp add: sup_New_def cancel_base_def split: if_splits)
  with assms st show ?thesis
    by (cases e) (auto simp: proc_inv_def main_start_def fails_def Let_def)
qed

lemma proc_inv_event:
  assumes "proc_inv s" "proc_event ev s = Some t"
  shows "proc_inv t"
proof -
  have live: "\<not> exited s" "live_event ev s = Some t" using assms(2) by (auto simp: proc_event_def split: if_splits)
  show ?thesis
  proof (cases ev)
    case (PStart env)
    then show ?thesis using live assms(1) proc_inv_start by (auto split: if_splits)
  next
    case PSignal
    then show ?thesis using live assms(1) proc_inv_cancel by auto
  next
    case (PSup e)
    then show ?thesis using live assms(1) proc_inv_sup [of s e t] by (cases e) (auto split: if_splits)
  next
    case (PAdminRequest path meth)
    then show ?thesis
      using live assms(1) proc_inv_sup [of s _ t] proc_inv_cancel [of s]
      by (auto simp: admin_action_def split: if_splits)
  next
    case (PLoad env)
    then show ?thesis using live assms(1) by (auto simp: proc_inv_def main_load_def fails_def split: if_splits sum.splits)
  next
    case (PAdminListen ok)
    with live have "pr_main s = MWait" using admin_running [OF assms(1)] by (auto split: if_splits)
    with PAdminListen live assms(1) show ?thesis by (auto simp: proc_inv_def admin_fails_def split: if_splits)
  next
    case PAdminAcceptFails
    with live have "pr_main s = MWait" using admin_running [OF assms(1)] by (auto split: if_splits)
    with PAdminAcceptFails live assms(1) show ?thesis by (auto simp: proc_inv_def admin_fails_def split: if_splits)
  next
    case PAdminClosed
    with live have "pr_main s = MWait" using admin_running [OF assms(1)] by (auto split: if_splits)
    with PAdminClosed live assms(1) show ?thesis by (auto simp: proc_inv_def split: if_splits)
  qed (use live assms(1) in \<open>auto simp: proc_inv_def main_exit_def split: if_splits\<close>)
qed

interpretation process: event_system proc_event proc_inv
  by unfold_locales (rule proc_inv_event)

lemma proc_reached: "proc_run es (proc_init path r) = Some s \<Longrightarrow> proc_inv s"
  using process.run_inv proc_inv_init by blast

text \<open>The handlers of the admin server do to the supervisor what \<open>admin_action\<close> says.\<close>

lemma admin_action_handle:
  assumes "admin_handle rng (sup_deps reload rng now) path meth u = Ret (resp, v)" "sup_inv u"
  shows "case (admin_action path meth :: ('y, 'c) sev option) of
      None \<Rightarrow> v = u | Some SReload \<Rightarrow> v = snd (reload u) | Some ev \<Rightarrow> sup_event ev u = Some v"
proof -
  have "\<exists>w. DrainStart u = Some w"
    using assms(2) by (auto simp: DrainStart_def on_cur_def rt_event_def sup_inv_def split: option.splits)
  with assms(1) show ?thesis
    by (auto simp: admin_handle_def admin_action_def sup_deps_def reload_handler_def drain_handler_def quit_handler_def
        go_bind_eq_Ret split: if_splits prod.splits option.splits)
qed

end
