(* ===== verification/GP_RuntimeProps.thy ===== *)
theory GP_RuntimeProps
  imports GP_Admin
begin

text \<open>
  What the process as a whole guarantees: a validated configuration can be started, listeners drain
  and shut down, reloads replace one runtime by another, and the admin server shows the metrics
  and changes nothing unless asked to.
\<close>

section \<open>Starting\<close>

text \<open>
  The cluster manager is built with exactly the configured clusters, every route leads to one of
  them, and every filter of every chain of every listener is in the registry.
\<close>
lemma validated_config_starts:
  assumes "Validate stat cfg = None"
  shows "\<exists>cm. NewManager (Clusters cfg) = Inr cm \<and> fmdom' cm = cs_Name ` set (Clusters cfg) \<and>
    (\<forall>r \<in> set (Routes cfg). \<exists>c. fmlookup cm (rr_Cluster r) = Some c) \<and>
    (\<forall>l \<in> set (Listeners cfg). \<forall>fc \<in> set (ls_FilterChains l). \<forall>fn \<in> set (fc_Filters fc).
       Resolve (fst (NewRegistry fl now cfg)) fn \<noteq> None)"
proof -
  have v: "valid_config stat cfg" using assms by (simp add: Validate_valid)
  then have "\<forall>s \<in> set (Clusters cfg). cs_Name s \<noteq> [] \<and> cs_Endpoints s \<noteq> []"
    by (auto simp: valid_config_def valid_cluster_def)
  then obtain cm where cm: "new_manager fmempty (Clusters cfg) = Inr cm" using new_manager_ok by blast
  have dom: "fmdom' cm = cs_Name ` set (Clusters cfg)" using new_manager_dom [OF cm] by simp
  have "\<exists>c. fmlookup cm (rr_Cluster r) = Some c" if "r \<in> set (Routes cfg)" for r
  proof -
    have "rr_Cluster r \<in> fmdom' cm" using v that dom by (auto simp: valid_config_def valid_route_def)
    then show ?thesis by (simp add: fmlookup_dom'_iff)
  qed
  moreover have "Resolve (fst (NewRegistry fl now cfg)) fn \<noteq> None" if "fn \<in> known_filters" for fn
    using that by (auto simp: known_filters_def Resolve_def NewRegistry_def Let_def)
  moreover have "fn \<in> known_filters"
    if "l \<in> set (Listeners cfg)" "fc \<in> set (ls_FilterChains l)" "fn \<in> set (fc_Filters fc)" for l fc fn
  proof -
    have "valid_listener stat l" using v that(1) by (simp add: valid_config_def)
    then have "valid_chain fc" using that(2) by (simp add: valid_listener_def)
    then show ?thesis using that(3) by (auto simp: valid_chain_def)
  qed
  ultimately show ?thesis using cm dom by (auto simp: NewManager_def)
qed

text \<open>Its listeners are built when their certificate files can be loaded.\<close>

lemma listeners_build:
  assumes "Validate stat cfg = None" "\<forall>l \<in> set (Listeners cfg). \<forall>t. ls_TLS l = Some t \<longrightarrow> files_load te t"
  shows "\<exists>ls. listener_NewManager te cfg (full_registry fl now now' cfg) = Inr ls \<and> length ls = length (Listeners cfg)"
proof -
  have "\<exists>l. newListener te spec (full_registry fl now now' cfg) = Inr l" if "spec \<in> set (Listeners cfg)" for spec
  proof -
    have "valid_listener stat spec" using assms(1) that by (simp add: Validate_valid valid_config_def)
    then show ?thesis
      using newListener_ok [of stat spec te "full_registry fl now now' cfg"] full_registry_resolves assms(2) that by blast
  qed
  then show ?thesis using new_listeners_ok [of "Listeners cfg"] unfolding listener_NewManager_def by blast
qed

text \<open>
  A configuration that is loaded and validated, and whose certificate files can be loaded, is built into
  a runtime with one listener for each configured listener, whose cluster manager has exactly the
  configured clusters, so that every route leads to one of them.
\<close>
lemma valid_config_builds:
  assumes "Load (se_load env) path = Inr cfg" "Validate (se_stat env) cfg = None" "map_range (se_rng env)"
    and "\<forall>l \<in> set (Listeners cfg). \<forall>t. ls_TLS l = Some t \<longrightarrow> files_load (se_tls env) t"
  shows "\<exists>rt. build_runtime env path base ctx r = Inr rt \<and> rt_cfg rt = cfg \<and>
    length (rt_listeners rt) = length (Listeners cfg) \<and> fmdom' (rt_cm rt) = cs_Name ` set (Clusters cfg) \<and>
    (\<forall>rr \<in> set (Routes cfg). fmlookup (rt_cm rt) (rr_Cluster rr) \<noteq> None)"
proof -
  let ?sreg = "full_registry (se_fl env) (se_now env) (se_now2 env) cfg"
  obtain cm where cm: "NewManager (Clusters cfg) = Inr cm" "fmdom' cm = cs_Name ` set (Clusters cfg)"
    using validated_config_starts [OF assms(2)] by blast
  have dom: "fmdom' (fst (Start (se_rng env) ctx cm)) = cs_Name ` set (Clusters cfg)"
    using Start_dom [of "se_rng env" ctx cm] cm(2) by simp
  have v: "valid_config (se_stat env) cfg" using assms(2) by (simp add: Validate_valid)
  obtain ls where ls: "listener_NewManager (se_tls env) cfg ?sreg = Inr ls" "length ls = length (Listeners cfg)"
    using listeners_build [OF assms(2,4)] by blast
  have "fmlookup (fst (Start (se_rng env) ctx cm)) (rr_Cluster rr) \<noteq> None" if "rr \<in> set (Routes cfg)" for rr
  proof -
    have "rr_Cluster rr \<in> cs_Name ` set (Clusters cfg)" using v that by (auto simp: valid_config_def valid_route_def)
    then show ?thesis using dom by (metis fmlookup_dom'_iff option.distinct(1))
  qed
  then show ?thesis using assms(1,2) cm(1) ls dom by (simp add: build_runtime_def Let_def)
qed

definition ex_listener :: ListenerSpec where
  "ex_listener = \<lparr>ls_Name = ''main'', ls_Address = ''a:1'', ls_TLS = None,
     ls_FilterChains = [\<lparr>fc_Name = ''default'', fc_Filters = [''hcm''], fc_SNIHosts = []\<rparr>]\<rparr>"

definition ex_proxy :: ProxyConfig where
  "ex_proxy = \<lparr>Listeners = [ex_listener], Routes = [], Clusters = [], RateLimit = None\<rparr>"

definition ex_senv :: "(unit, unit) sup_env" where
  "ex_senv = \<lparr>se_load = \<lparr>ld_read = (\<lambda>_. Some []), ld_yaml = (\<lambda>_. None), ld_marshal = (\<lambda>_. None), ld_json = (\<lambda>_. Some ex_proxy)\<rparr>,
     se_stat = (\<lambda>_. True), se_rng = sorted_range, se_fl = ideal, se_now = 0, se_now2 = 0,
     se_tls = \<lparr>te_pair = (\<lambda>_ _. None), te_read = (\<lambda>_. None), te_pem = (\<lambda>_. False)\<rparr>\<rparr>"

lemma ex_load: "Load (se_load ex_senv) ''p.json'' = Inr ex_proxy"
proof -
  have "Ext ''p.json'' \<notin> {''.yaml'', ''.yml''}" by code_simp
  then show ?thesis by (simp add: Load_def ex_senv_def)
qed

lemma ex_valid: "Validate (se_stat ex_senv) ex_proxy = None"
proof -
  have "SplitHostPort ''a:1'' = Inr (''a'', ''1'')" by code_simp
  then show ?thesis
    by (simp add: Validate_valid valid_config_def ex_proxy_def ex_listener_def valid_listener_def valid_chain_def known_filters_def)
qed

section \<open>Connections\<close>

text \<open>
  C30. Which certificate and which filter chain a TLS connection gets: the certificate of the last entry
  that lists the server name, whatever its case, and the default one otherwise; the chain of the first
  entry that lists exactly the trimmed name, and otherwise the first chain of the listener.
\<close>
theorem tls_choice:
  assumes "new_tls env t = Inr tc" "tls_Certs t \<noteq> []" "name \<noteq> []" "chs \<noteq> []" "TrimSpace name \<noteq> []"
  shows "Some (GetCertificate tc name) =
      (case find (lists_name (ToLower name)) (rev (tls_Certs t)) of
         Some ce \<Rightarrow> te_pair env (ce_CertPath ce) (ce_KeyPath ce)
       | None \<Rightarrow> te_pair env (tls_CertPath t) (tls_KeyPath t)) \<and>
    choose_chain chs (TLSConn proto name) =
      (case find (\<lambda>ce. TrimSpace name \<in> ch_sniHosts ce) chs of Some ce \<Rightarrow> ch_chain ce | None \<Rightarrow> ch_chain (hd chs))"
proof -
  obtain m where m: "cert_map env (tls_Certs t) fmempty = Inr m" "tc_certMap tc = Some m"
    "te_pair env (tls_CertPath t) (tls_KeyPath t) = Some (tc_Certificate tc)"
    using assms(1,2) by (auto simp: new_tls_def split: option.splits sum.splits if_splits)
  have pair: "te_pair env (ce_CertPath ce) (ce_KeyPath ce) \<noteq> None" if "ce \<in> set (tls_Certs t)" for ce
  proof -
    have "cert_map env ces m0 = Inr m1 \<Longrightarrow> ce \<in> set ces \<Longrightarrow> te_pair env (ce_CertPath ce) (ce_KeyPath ce) \<noteq> None" for ces m0 m1
      by (induction ces arbitrary: m0) (auto split: option.splits)
    then show ?thesis using m(1) that by blast
  qed
  have "Some (GetCertificate tc name) =
      (case find (lists_name (ToLower name)) (rev (tls_Certs t)) of
         Some ce \<Rightarrow> te_pair env (ce_CertPath ce) (ce_KeyPath ce)
       | None \<Rightarrow> te_pair env (tls_CertPath t) (tls_KeyPath t))"
  proof (cases "find (lists_name (ToLower name)) (rev (tls_Certs t))")
    case None
    then show ?thesis using m assms(3) cert_map_lookup [OF m(1), of "ToLower name"] by (simp add: GetCertificate_def)
  next
    case (Some ce)
    then have "ce \<in> set (rev (tls_Certs t))" unfolding find_Some_iff by (metis nth_mem)
    then obtain c where "te_pair env (ce_CertPath ce) (ce_KeyPath ce) = Some c" using pair by auto
    then show ?thesis using m assms(3) cert_map_lookup [OF m(1), of "ToLower name"] Some by (simp add: GetCertificate_def)
  qed
  then show ?thesis using choose_chain_spec(1) [OF assms(4), of proto name] assms(5)
    by (simp split: option.split)
qed

definition ex_tls :: TLSConfig where
  "ex_tls = \<lparr>tls_CertPath = ''d'', tls_KeyPath = ''k'', tls_MinVersion = [], tls_ClientCAPath = [], tls_RequireClientCert = False,
     tls_Certs = [\<lparr>ce_CertPath = ''c'', ce_KeyPath = ''k'', ce_SNIHosts = ['' App.example '']\<rparr>]\<rparr>"

definition ex_tenv :: "string tls_env" where
  "ex_tenv = \<lparr>te_pair = (\<lambda>c k. Some c), te_read = (\<lambda>_. None), te_pem = (\<lambda>_. False)\<rparr>"

theorem tls_choice_witness:
  "\<exists>tc. new_tls ex_tenv ex_tls = Inr tc \<and> GetCertificate tc ''APP.example'' = ''c''"
proof -
  obtain tc where tc: "new_tls ex_tenv ex_tls = Inr tc"
    using new_tls_ok [of ex_tenv ex_tls] by (auto simp: files_load_def ex_tenv_def ex_tls_def)
  let ?ch = "[\<lparr>ch_chain = [], ch_sniHosts = {}, ch_isDefault = True\<rparr>]"
  have f: "find (lists_name (ToLower ''APP.example'')) (rev (tls_Certs ex_tls)) =
      Some \<lparr>ce_CertPath = ''c'', ce_KeyPath = ''k'', ce_SNIHosts = ['' App.example '']\<rparr>"
    by code_simp
  have tr: "TrimSpace ''APP.example'' \<noteq> []" by code_simp
  have "tls_Certs ex_tls \<noteq> []" by (simp add: ex_tls_def)
  from tls_choice [OF tc this _ _ tr, of ?ch] f show ?thesis using tc by (auto simp: ex_tenv_def)
qed

section \<open>Serving and draining\<close>

text \<open>
  C10. In every reachable state of the listeners of a runtime, whatever the order of its goroutines: the
  gauge of active connections is the number of connections being served; a listener that ended other
  than by an accept error has no connection left; and the manager's \<^verbatim>\<open>Start\<close> has returned only
  after a cancellation or the failure of a listener.
\<close>
theorem serving_invariant:
  assumes "reach mgr_init mgr_step s" "serving s < 2 ^ 63"
  shows "gauge_val (m_reg s) active_gauge = serving s \<and>
    (\<forall>l \<in> set (m_listeners s). has_returned l \<longrightarrow> l_phase l \<noteq> Returned (Some AcceptErr) \<longrightarrow> l_wg l = 0) \<and>
    (start_done s \<longrightarrow> m_ctx s \<or> (\<exists>l \<in> set (m_listeners s). failed l))"
proof -
  have inv: "mgr_inv s" using serve.reach_inv [OF assms(1)] .
  have "0 \<le> serving s" by (auto simp: serving_def intro!: sum_list_nonneg)
  then have "wrap64 (serving s) = serving s" using assms(2) by (simp add: in_i64_def)
  moreover have "l_wg l = 0" if "l \<in> set (m_listeners s)" "has_returned l" "l_phase l \<noteq> Returned (Some AcceptErr)" for l
  proof -
    have "listener_inv l" using inv that(1) by (simp add: mgr_inv_def mgr_core_def list_all_iff)
    then show ?thesis
      using that(2,3) by (auto simp: has_returned_def listener_inv_def split: lphase.splits option.splits run_err.splits)
  qed
  ultimately show ?thesis using inv start_done_cause [of s] by (auto simp: mgr_inv_def)
qed

lemma reach_run: "mgr_run evs s = Some t \<Longrightarrow> reach mgr_init mgr_step s \<Longrightarrow> reach mgr_init mgr_step t"
proof (induction evs arbitrary: s)
  case (Cons ev evs)
  then obtain u where u: "mgr_event ev s = Some u" "mgr_run evs u = Some t" by (auto split: option.splits)
  then have "mgr_step s u" by (auto simp: mgr_step_def)
  then show ?case using Cons u(2) reach_step by metis
qed simp

lemma reach_new: "reach mgr_init mgr_step (new_mgr n empty_registry)"
  by (rule reach_init) (auto simp: mgr_init_def gauge_val_def empty_registry_def intro!: exI [of _ n] exI [of _ empty_registry])

theorem serving_invariant_witness:
  "\<exists>s. mgr_run [Run 0 (Listened True), Run 0 AcceptConn, Run 0 HandleBegin] (new_mgr 1 empty_registry) = Some s \<and>
     gauge_val (m_reg s) active_gauge = 1"
proof -
  obtain s where s: "mgr_run [Run 0 (Listened True), Run 0 AcceptConn, Run 0 HandleBegin] (new_mgr 1 empty_registry) = Some s"
    "serving s = 1"
    by (auto simp: new_mgr_def fresh_listener_def serving_def)
  from serving_invariant [OF reach_run [OF s(1) reach_new]] s show ?thesis by simp
qed

text \<open>
  C37. Draining never ends the wait: as long as the context is not cancelled and no listener has failed,
  \<^verbatim>\<open>Start\<close> is still in its select, even when every listener is closed and every connection has
  ended. So a reload always waits for its full drain timeout and then cancels.
\<close>
theorem drain_never_completes:
  assumes "reach mgr_init mgr_step s" "\<not> m_ctx s" "\<forall>l \<in> set (m_listeners s). \<not> failed l"
  shows "m_start s = Selecting"
proof -
  have "mgr_core s" using serve.reach_inv [OF assms(1)] by (simp add: mgr_inv_def)
  then show ?thesis
    using assms(2,3) by (auto simp: mgr_core_def split: startPhase.splits option.splits)
qed

theorem drain_never_completes_witness:
  "\<exists>s. mgr_run [Run 0 (Listened True), StopAccept, Run 0 AcceptClosed, Run 0 WaitDone] (new_mgr 1 empty_registry) = Some s \<and>
     list_all has_returned (m_listeners s) \<and> m_start s = Selecting"
proof -
  obtain s where s: "mgr_run [Run 0 (Listened True), StopAccept, Run 0 AcceptClosed, Run 0 WaitDone] (new_mgr 1 empty_registry) = Some s"
    "list_all has_returned (m_listeners s)" "\<not> m_ctx s" "\<forall>l \<in> set (m_listeners s). \<not> failed l"
    by (simp add: new_mgr_def fresh_listener_def Listener_StopAccept_def l_wg_def has_returned_def failed_def reported_def)
  from drain_never_completes [OF reach_run [OF s(1) reach_new] s(3,4)] s show ?thesis by blast
qed



section \<open>Reloading\<close>

lemma seq_inv_New: "gauge_val r active_gauge = 0 \<Longrightarrow> seq_inv (sup_New path r)"
  by (auto simp: seq_inv_def sup_inv_New) (simp_all add: sup_New_def)

lemma seq_reached: "run_all seq_event evs (sup_New path r) = Some s \<Longrightarrow> gauge_val r active_gauge = 0 \<Longrightarrow> seq_inv s"
  using one_reload.run_inv seq_inv_New by blast

lemma done_quiet:
  assumes "sup_inv s" "rt \<in> set (su_rts s)" "start_done (rt_mgr rt)" "\<forall>l \<in> set (m_listeners (rt_mgr rt)). \<not> failed l"
  shows "\<forall>l \<in> set (m_listeners (rt_mgr rt)). has_returned l \<and> l_wg l = 0"
  using assms start_done_quiet [of "rt_mgr rt"] by (auto simp: sup_inv_def runtime_ok_def)

text \<open>A reload that builds has seen every runtime end.\<close>

lemma build_after_end:
  assumes "seq_inv s" "i < length (su_reloads s)" "su_reloads s ! i = RBuild" "j < length (su_rts s)"
  shows "rt_done s j"
proof -
  obtain i' where i': "\<forall>k < length (su_reloads s). k \<noteq> i' \<longrightarrow> returned (su_reloads s ! k)"
      "i' < length (su_reloads s) \<longrightarrow> phase_ok s (su_reloads s ! i')"
    using assms(1) unfolding seq_inv_def by blast
  have "\<not> returned (su_reloads s ! i)" using assms(3) by (simp add: returned_def)
  then have "i' = i" using i'(1) assms(2) by blast
  then have "phase_ok s RBuild" using i'(2) assms(2,3) by simp
  then show ?thesis using assms(1,4) by (auto simp: seq_inv_def phase_ok_def)
qed



text \<open>A run: start, listen, reload, drain in vain, cancel, end.\<close>

lemma ex_build: "\<exists>rt. build_runtime ex_senv ''p.json'' b k r = Inr rt \<and> rt_mgr rt = (new_mgr 1 r)\<lparr>m_ctx := b\<rparr> \<and> rt_cfg rt = ex_proxy"
proof -
  have "\<forall>l \<in> set (Listeners ex_proxy). \<forall>t. ls_TLS l = Some t \<longrightarrow> files_load (se_tls ex_senv) t"
    by (simp add: ex_proxy_def ex_listener_def)
  from listeners_build [OF ex_valid this, of "se_fl ex_senv" "se_now ex_senv" "se_now2 ex_senv"] obtain ls where
    "listener_NewManager (se_tls ex_senv) ex_proxy (full_registry (se_fl ex_senv) (se_now ex_senv) (se_now2 ex_senv) ex_proxy) = Inr ls"
    "length ls = 1"
    by (auto simp: ex_proxy_def)
  moreover have "NewManager (Clusters ex_proxy) = Inr fmempty" by (simp add: NewManager_def ex_proxy_def)
  ultimately show ?thesis by (simp add: build_runtime_def ex_load ex_valid Let_def)
qed

definition ex_reload :: "(unit, unit) sev list" where
  "ex_reload = [SStart ex_senv, SRun 0 (Run 0 (Listened True)), SReload, SCall 0 Stop, SCall 0 Timeout,
     SRun 0 (Run 0 AcceptClosed), SRun 0 (Run 0 WaitDone), SRun 0 SelectCtx, SRun 0 AllReturned, SCall 0 Forced]"

lemma ex_reload_run:
  "\<exists>s. run_all seq_event ex_reload (sup_New ''p.json'' empty_registry) = Some s \<and> su_reloads s = [RBuild] \<and>
     su_cur s = Some 0 \<and> length (su_rts s) = 1 \<and> su_path s = ''p.json'' \<and> \<not> su_base s \<and> CurrentConfig s = ex_proxy \<and>
     (\<forall>rt \<in> set (su_rts s). \<forall>l \<in> set (m_listeners (rt_mgr rt)). \<not> failed l)"
proof -
  obtain rt where "build_runtime ex_senv ''p.json'' False 0 empty_registry = Inr rt" "rt_mgr rt = new_mgr 1 empty_registry"
      "rt_cfg rt = ex_proxy"
    using ex_build [of False 0 empty_registry] by (auto simp: new_mgr_def)
  then show ?thesis
    by (simp add: ex_reload_def seq_event_def sup_New_def sup_Start_def install_def rt_event_def on_cur_def set_phase_def
        rt_done_def start_done_def new_mgr_def fresh_listener_def Listener_StopAccept_def l_wg_def has_returned_def
        failed_def reported_def internal_def CurrentConfig_def)
qed

lemma gauge_empty: "gauge_val empty_registry active_gauge = 0"
  by (simp add: gauge_val_def empty_registry_def)


definition ex_broken :: "(unit, unit) sup_env" where
  "ex_broken = ex_senv\<lparr>se_load := (se_load ex_senv)\<lparr>ld_read := (\<lambda>_. None)\<rparr>\<rparr>"


text \<open>
  C38. Two reloads at the same time, which nothing prevents, lose a runtime: both capture the current one,
  both see it end, and both build; the runtime of the first is neither current nor ever ended by a
  later reload, and its context is not cancelled, so it keeps its listeners and its health checks.
\<close>
theorem concurrent_reloads_orphan:
  fixes env :: "('y, 'c) sup_env"
  assumes "run_all (sup_event :: ('y, 'c) sev \<Rightarrow> _) evs (sup_New path r) = Some s" "gauge_val r active_gauge = 0"
    and "su_cur s = Some j" "\<not> su_base s" "\<forall>b ctx m. \<exists>rt. build_runtime env (su_path s) b ctx m = Inr rt"
  shows "\<exists>evs' t a. run_all (sup_event :: ('y, 'c) sev \<Rightarrow> _) evs' s = Some t \<and> a < length (su_rts t) \<and>
    su_cur t \<noteq> Some a \<and> \<not> rt_done t a \<and> \<not> m_ctx (rt_mgr (su_rts t ! a))"
proof -
  let ?ev = "sup_event :: ('y, 'c) sev \<Rightarrow> 'c Supervisor \<Rightarrow> 'c Supervisor option"
  let ?n = "length (su_reloads s)" and ?a = "length (su_rts s)"
  have "sup_inv s" using supervision.run_inv [OF assms(1)] sup_inv_New [OF assms(2)] by blast
  then obtain evs' u where u: "run_all ?ev evs' s = Some u" "su_reloads u = su_reloads s @ [RBuild, RBuild]"
      "length (su_rts u) = ?a" "su_base u = su_base s" "su_path u = su_path s"
    using both_build [OF _ assms(3)] by blast
  obtain rt where rt: "build_runtime env (su_path s) False ?a (su_reg u) = Inr rt" using assms(5) by blast
  obtain rt' where rt': "build_runtime env (su_path s) False (Suc ?a) (su_reg u) = Inr rt'" using assms(5) by blast
  let ?v = "set_phase ?n (RReturned None) (u\<lparr>su_rts := su_rts u @ [rt], su_cur := Some ?a\<rparr>)"
  let ?w = "set_phase (Suc ?n) (RReturned None) (?v\<lparr>su_rts := su_rts ?v @ [rt'], su_cur := Some (Suc ?a)\<rparr>)"
  have "run_all ?ev [SCall ?n (Build env), SCall (Suc ?n) (Build env)] u = Some ?w"
    using u rt rt' assms(4) by (simp add: nth_append install_def set_phase_def list_update_append)
  then have "run_all ?ev (evs' @ [SCall ?n (Build env), SCall (Suc ?n) (Build env)]) s = Some ?w"
    using run_all_append [OF u(1)] by metis
  moreover have "\<not> rt_done ?w ?a" using build_runtime_ok(3) [OF rt] u(3) by (simp add: rt_done_def set_phase_def nth_append)
  moreover have "\<not> m_ctx (rt_mgr rt)" using rt by (auto simp: build_runtime_def Let_def split: sum.splits option.splits)
  then have "\<not> m_ctx (rt_mgr (su_rts ?w ! ?a))" using u(3) by (simp add: set_phase_def nth_append)
  ultimately show ?thesis
    using u(3) by (intro exI [of _ "evs' @ [SCall ?n (Build env), SCall (Suc ?n) (Build env)]"] exI [of _ ?w] exI [of _ ?a])
      (simp add: set_phase_def)
qed

theorem concurrent_reloads_orphan_witness:
  "\<exists>s evs' t a. run_all (sup_event :: (unit, unit) sev \<Rightarrow> _) [SStart ex_senv] (sup_New ''p.json'' empty_registry) = Some s \<and>
     run_all (sup_event :: (unit, unit) sev \<Rightarrow> _) evs' s = Some t \<and> su_cur t \<noteq> Some a \<and> \<not> rt_done t a"
proof -
  obtain rt where "build_runtime ex_senv ''p.json'' False 0 empty_registry = Inr rt" using ex_build by blast
  then have s: "run_all (sup_event :: (unit, unit) sev \<Rightarrow> _) [SStart ex_senv] (sup_New ''p.json'' empty_registry) =
      Some ((sup_New ''p.json'' empty_registry)\<lparr>su_rts := [rt], su_cur := Some 0\<rparr>)"
    by (simp add: sup_Start_def install_def sup_New_def)
  have b: "\<forall>b ctx m. \<exists>rt. build_runtime ex_senv ''p.json'' b ctx m = Inr rt" using ex_build by blast
  from concurrent_reloads_orphan [OF s gauge_empty, of 0 ex_senv] b s show ?thesis by (auto simp: sup_New_def)
qed

end
