(* ===== verification/GP_Echo.thy ===== *)
theory GP_Echo
  imports GP_H2
begin

text \<open>
  The echo server (\<^verbatim>\<open>cmd/echo/main.go\<close>), the upstream that the proxy is tried with: its handler
  writes the request back as text, the headers in sorted order. It uses the response writer of
  \<open>GP_H2\<close> and \<^verbatim>\<open>URL.RequestURI\<close> of package \<^verbatim>\<open>net/url\<close>, whose escaping of paths is
  modelled here. Its \<^verbatim>\<open>main\<close> prints two lines with package \<^verbatim>\<open>log\<close>, before the server
  starts and when it failed.
\<close>

section \<open>Request URIs\<close>

text \<open>The bytes that \<^verbatim>\<open>escape\<close> leaves alone in a path.\<close>

definition path_byte :: "char \<Rightarrow> bool" where
  "path_byte c \<longleftrightarrow>
     (let n = (of_char c :: nat) in
      (48 \<le> n \<and> n \<le> 57) \<or> (65 \<le> n \<and> n \<le> 90) \<or> (97 \<le> n \<and> n \<le> 122)) \<or>
     c \<in> set ''-_.~$&+,/:;=@''"

definition upper_hex :: "nat \<Rightarrow> char" where
  "upper_hex d = char_of (if d < 10 then 48 + d else 55 + d)"

definition escape_byte :: "char \<Rightarrow> string" where
  "escape_byte c =
     (if path_byte c then [c]
      else (let n = (of_char c :: nat) in [CHR ''%'', upper_hex (n div 16), upper_hex (n mod 16)]))"

definition escape_path :: "string \<Rightarrow> string" where
  "escape_path s = concat (map escape_byte s)"

definition hex_value :: "char \<Rightarrow> nat option" where
  "hex_value c =
     (let n = (of_char c :: nat) in
      if 48 \<le> n \<and> n \<le> 57 then Some (n - 48)
      else if 97 \<le> n \<and> n \<le> 102 then Some (n - 87)
      else if 65 \<le> n \<and> n \<le> 70 then Some (n - 55)
      else None)"

text \<open>\<^verbatim>\<open>unescape\<close> of a path fails on a percent sign without two hexadecimal digits after it.\<close>

fun unescape_path :: "string \<Rightarrow> string option" where
  "unescape_path [] = Some []"
| "unescape_path (c # cs) =
     (if c = CHR ''%'' then
        (case cs of
           a # b # rest \<Rightarrow>
             (case (hex_value a, hex_value b) of
                (Some h, Some l) \<Rightarrow> map_option (\<lambda>r. char_of (16 * h + l) # r) (unescape_path rest)
              | _ \<Rightarrow> None)
         | _ \<Rightarrow> None)
      else map_option (\<lambda>r. c # r) (unescape_path cs))"

text \<open>What \<^verbatim>\<open>validEncoded\<close> accepts in the raw path of a request.\<close>

definition raw_byte :: "char \<Rightarrow> bool" where
  "raw_byte c \<longleftrightarrow> path_byte c \<or> c \<in> set ''!()*[]%'' \<or> c = CHR 0x27"

text \<open>The raw path is empty when the default encoding of the path is the one that was sent.\<close>

definition EscapedPath :: "string \<Rightarrow> string \<Rightarrow> string" where
  "EscapedPath raw path =
     (if raw \<noteq> [] \<and> list_all raw_byte raw \<and> unescape_path raw = Some path then raw
      else if path = ''*'' then ''*'' else escape_path path)"

text \<open>
  The URI of a request with a path; \<open>force\<close> says that it was sent with a question mark and nothing
  after it.
\<close>

definition RequestURI :: "string \<Rightarrow> bool \<Rightarrow> Request \<Rightarrow> string" where
  "RequestURI raw force req =
     (let result = EscapedPath raw (rq_Path req);
          result = (if result = [] then ''/'' else result)
      in if force \<or> rq_RawQuery req \<noteq> [] then result @ ''?'' @ rq_RawQuery req else result)"

section \<open>The handler\<close>

definition field_text :: "string \<Rightarrow> string \<Rightarrow> string" where
  "field_text k v = k @ '': '' @ v @ newline"

definition header_lines :: "string \<Rightarrow> string list \<Rightarrow> string" where
  "header_lines k vs = concat (map (field_text k) vs)"

definition echoHandler :: "key_order \<Rightarrow> string \<Rightarrow> bool \<Rightarrow> string \<Rightarrow> Request \<Rightarrow> RespWriter \<Rightarrow> RespWriter" where
  "echoHandler rng raw force remoteAddr req w =
     (let w = w\<lparr>rw_header := hdr_set ''Content-Type'' ''text/plain; charset=utf-8'' (rw_header w)\<rparr>;
          w = rw_Write (''method='' @ rq_Method req @ newline) w;
          w = rw_Write (''path='' @ RequestURI raw force req @ newline) w;
          w = rw_Write (''remote='' @ remoteAddr @ newline @ newline) w;
          keys = sort (rng 0 (fmdom' (rq_Header req)))
      in foldl (\<lambda>w k.
           foldl (\<lambda>w v. rw_Write (field_text k v) w) w
             (case fmlookup (rq_Header req) k of None \<Rightarrow> [] | Some vs \<Rightarrow> vs)) w keys)"

section \<open>The process\<close>

text \<open>A line of the standard logger: date and time of day, the message, and a line end unless it has one.\<close>

definition log_text :: "(Time \<Rightarrow> int) \<Rightarrow> Time \<Rightarrow> string \<Rightarrow> string" where
  "log_text zone t msg =
     (let w = wall_clock zone t; (y, m, d) = wl_date w
      in appendInt y 4 @ ''/'' @ appendInt m 2 @ ''/'' @ appendInt d 2 @ '' '' @ hms w @ '' '' @ msg @
         (if msg \<noteq> [] \<and> last msg = CHR 0x0A then [] else newline))"

text \<open>
  What is printed and the exit code: \<open>addr\<close> is the flag of the command line, if it is there, and \<open>err\<close> the
  error with which \<^verbatim>\<open>ListenAndServe\<close> ends, printed by \<^verbatim>\<open>log.Fatal\<close>.
\<close>

definition echo_main :: "(Time \<Rightarrow> int) \<Rightarrow> string option \<Rightarrow> Time \<Rightarrow> Time \<Rightarrow> string \<Rightarrow> string \<times> int" where
  "echo_main zone addr t u err =
     (let a = (case addr of None \<Rightarrow> ''127.0.0.1:9004'' | Some a \<Rightarrow> a)
      in (log_text zone t (''echo server listening on '' @ a) @ log_text zone u err, 1))"

section \<open>What it writes\<close>

lemma rw_Write_sent [simp]: "rw_sent w \<noteq> None \<Longrightarrow> rw_Write p w = w\<lparr>rw_body := rw_body w @ p\<rparr>"
  by (simp add: rw_Write_def)

lemma write_values:
  "rw_sent w \<noteq> None \<Longrightarrow> foldl (\<lambda>w v. rw_Write (field_text k v) w) w vs = w\<lparr>rw_body := rw_body w @ header_lines k vs\<rparr>"
  by (induction vs arbitrary: w) (simp_all add: header_lines_def)

lemma write_headers:
  "rw_sent w \<noteq> None \<Longrightarrow> foldl (\<lambda>w k. foldl (\<lambda>w v. rw_Write (field_text k v) w) w (f k)) w ks =
     w\<lparr>rw_body := rw_body w @ concat (map (\<lambda>k. header_lines k (f k)) ks)\<rparr>"
  by (induction ks arbitrary: w) (simp_all add: write_values)

lemma echo_writes:
  assumes "map_range rng"
  shows "echoHandler rng raw force remoteAddr req new_writer =
    (let h = hdr_set ''Content-Type'' ''text/plain; charset=utf-8'' fmempty in
     \<lparr>rw_header = h, rw_sent = Some (200, h),
      rw_body = ''method='' @ rq_Method req @ newline @ ''path='' @ RequestURI raw force req @ newline @
        ''remote='' @ remoteAddr @ newline @ newline @
        concat (map (\<lambda>k. header_lines k (case fmlookup (rq_Header req) k of None \<Rightarrow> [] | Some vs \<Rightarrow> vs))
          (sorted_list_of_set (fmdom' (rq_Header req))))\<rparr>)"
proof -
  have keys: "sort (rng 0 (fmdom' (rq_Header req))) = sorted_list_of_set (fmdom' (rq_Header req))"
    by (rule map_range.rng_sort [OF assms]) simp
  show ?thesis unfolding echoHandler_def keys
    by (simp add: Let_def write_headers rw_Write_def [of _ "\<lparr>rw_header = _, rw_sent = None, rw_body = _\<rparr>"] new_writer_def)
qed

section \<open>Escaping can be undone\<close>

lemma hex_value_upper: "d < 16 \<Longrightarrow> hex_value (upper_hex d) = Some d"
proof -
  assume "d < 16"
  then have "(of_char (upper_hex d) :: nat) = (if d < 10 then 48 + d else 55 + d)" by (simp add: upper_hex_def)
  with \<open>d < 16\<close> show ?thesis by (simp add: hex_value_def Let_def)
qed

lemma unescape_byte: "unescape_path (escape_byte c @ s) = map_option (\<lambda>r. c # r) (unescape_path s)"
proof (cases "path_byte c")
  case True
  moreover have "\<not> path_byte CHR ''%''" by (simp add: path_byte_def)
  ultimately show ?thesis by (auto simp: escape_byte_def)
next
  case False
  have "(of_char c :: nat) < 16 * 16" using nat_of_char_less_256 [of c] by linarith
  then have "(of_char c :: nat) div 16 < 16" "(of_char c :: nat) mod 16 < 16"
    by (rule less_mult_imp_div_less) simp
  note hex = hex_value_upper [OF this(1)] hex_value_upper [OF this(2)]
  have "char_of (16 * ((of_char c :: nat) div 16) + of_char c mod 16) = c" by simp
  with False show ?thesis by (simp add: escape_byte_def Let_def hex)
qed

lemma unescape_escape: "unescape_path (escape_path s) = Some s"
  by (induction s) (simp_all add: escape_path_def unescape_byte)

end
