(* ===== verification/GP_ProcessProps.thy ===== *)
theory GP_ProcessProps
  imports GP_Process GP_RuntimeProps GP_Echo
begin

text \<open>
  What the process guarantees: how it starts, when it exits and with which code, that its supervisor
  is one of the runs the supervisor is verified for, and that it does not wait for its connections.
\<close>

section \<open>Starting\<close>

text \<open>
  C12. Start-up: when the configuration file can be loaded, and is loaded again by the supervisor as a valid
  configuration whose certificate files can be loaded, the process gets to its wait with one runtime, of
  that configuration: one listener for each configured one, exactly the configured clusters, and a
  cluster for every route; the admin server is started and nothing is reported on standard error.
\<close>
theorem process_starts:
  assumes "Load lenv path = Inr first" "Load (se_load env) path = Inr cfg" "Validate (se_stat env) cfg = None"
    and "map_range (se_rng env)" "\<forall>l \<in> set (Listeners cfg). \<forall>t. ls_TLS l = Some t \<longrightarrow> files_load (se_tls env) t"
  shows "\<exists>s u rt. proc_run [PLoad lenv, PStart env] (proc_init path r) = Some s \<and> pr_main s = MWait \<and>
    pr_sup s = Some u \<and> su_rts u = [rt] \<and> su_cur u = Some 0 \<and> CurrentConfig u = cfg \<and>
    length (rt_listeners rt) = length (Listeners cfg) \<and> fmdom' (rt_cm rt) = cs_Name ` set (Clusters cfg) \<and>
    (\<forall>rr \<in> set (Routes cfg). fmlookup (rt_cm rt) (rr_Cluster rr) \<noteq> None) \<and>
    pr_admin s = AdmStarting \<and> pr_stderr s = [] \<and>
    pr_stdout s = [''loaded '' @ FormatInt (int (length (Listeners first))) @ '' listener(s)'' @ newline]"
proof -
  obtain rt where rt: "build_runtime env path False 0 r = Inr rt" "rt_cfg rt = cfg"
      "length (rt_listeners rt) = length (Listeners cfg)" "fmdom' (rt_cm rt) = cs_Name ` set (Clusters cfg)"
      "\<forall>rr \<in> set (Routes cfg). fmlookup (rt_cm rt) (rr_Cluster rr) \<noteq> None"
    using valid_config_builds [OF assms(2-5)] by blast
  show ?thesis
    by (simp add: proc_event_def exited_def proc_init_def main_load_def main_start_def assms(1) sup_Start_def
        sup_New_def install_def rt(1-4) CurrentConfig_def) (use rt(5) in blast)
qed

definition ex_started :: "(unit, unit) pev list" where
  "ex_started = [PLoad (se_load ex_senv), PStart ex_senv]"

theorem process_starts_witness:
  "\<exists>s u. proc_run ex_started (proc_init ''p.json'' empty_registry) = Some s \<and> pr_main s = MWait \<and>
     pr_sup s = Some u \<and> CurrentConfig u = ex_proxy \<and> length (su_rts u) = 1"
proof -
  have files: "\<forall>l \<in> set (Listeners ex_proxy). \<forall>t. ls_TLS l = Some t \<longrightarrow> files_load (se_tls ex_senv) t"
    by (simp add: ex_proxy_def ex_listener_def)
  have rng: "map_range (se_rng ex_senv)" by (simp add: ex_senv_def sorted_range.map_range_axioms)
  from process_starts [OF ex_load ex_load ex_valid rng files, of empty_registry] show ?thesis
    by (auto simp: ex_started_def)
qed

section \<open>The supervisor in the process\<close>

text \<open>
  C11. The process refines the supervisor: whatever the signals, admin requests and goroutines of a run
  of the process do, its supervisor is in a state that a run of the supervisor alone reaches, so that
  what holds of every run of the supervisor holds in the process; and its base context is
  cancelled exactly when the context of the process is.
\<close>
theorem process_runs_supervisor:
  assumes "proc_run (es :: ('y, 'c) pev list) (proc_init path r) = Some s" "pr_sup s = Some u"
  shows "(\<exists>evs :: ('y, 'c) sev list. run_all sup_event evs (sup_New path r) = Some u) \<and> su_base u = pr_ctx s"
  using proc_run_sup [OF assms(1)] proc_reached [OF assms(1)] assms(2) by (auto simp: proc_inv_def)

text \<open>A run of the process that serves a connection.\<close>

definition ex_serving :: "(unit, unit) pev list" where
  "ex_serving = ex_started @ [PSup (SRun 0 (Run 0 (Listened True))), PSup (SRun 0 (Run 0 AcceptConn)), PSup (SRun 0 (Run 0 HandleBegin))]"

lemma ex_serving_run:
  "\<exists>s u. proc_run ex_serving (proc_init ''p.json'' empty_registry) = Some s \<and> pr_main s = MWait \<and> \<not> pr_ctx s \<and>
     pr_sup s = Some u \<and> served u = 1"
proof -
  obtain rt where "build_runtime ex_senv ''p.json'' False 0 empty_registry = Inr rt" "rt_mgr rt = new_mgr 1 empty_registry"
    using ex_build [of False 0 empty_registry] by (auto simp: new_mgr_def)
  then show ?thesis
    by (simp add: ex_serving_def ex_started_def proc_event_def exited_def proc_init_def main_load_def main_start_def ex_load
        sup_Start_def sup_New_def install_def on_sup_def rt_event_def new_mgr_def fresh_listener_def reported_def internal_def
        served_def serving_def)
qed

theorem process_runs_supervisor_witness:
  "\<exists>s u evs. proc_run ex_serving (proc_init ''p.json'' empty_registry) = Some s \<and> pr_sup s = Some u \<and> served u = 1 \<and>
     run_all (sup_event :: (unit, unit) sev \<Rightarrow> _) evs (sup_New ''p.json'' empty_registry) = Some u \<and> \<not> su_base u"
proof -
  obtain s u where s: "proc_run ex_serving (proc_init ''p.json'' empty_registry) = Some s" "\<not> pr_ctx s"
      "pr_sup s = Some u" "served u = 1"
    using ex_serving_run by blast
  from process_runs_supervisor [OF s(1,3)] s show ?thesis by blast
qed

section \<open>Exiting\<close>



text \<open>
  C39. The process does not wait for its connections: from every state in which it waits, a signal, or
  a request to \<^verbatim>\<open>/quitquitquit\<close> while the admin server serves, and then the main goroutine alone end
  it with code 0, with as many connections served as before.
\<close>
theorem exit_without_drain:
  assumes "pr_main s = MWait" "pr_sup s = Some u"
  shows "(\<exists>t v. proc_run [PSignal, PExit] s = Some t \<and> pr_main t = MExited 0 \<and> pr_sup t = Some v \<and> served v = served u) \<and>
    (pr_admin s = AdmServing \<and> \<not> pr_shut s \<longrightarrow>
     (\<exists>t v. proc_run [PAdminRequest ''/quitquitquit'' ''POST'', PExit] s = Some t \<and> pr_main t = MExited 0 \<and> pr_sup t = Some v \<and>
        served v = served u))"
proof -
  have "served (cancel_base u) = served u" by (simp add: served_def cancel_base_def comp_def serving_def)
  with assms show ?thesis by (simp add: proc_event_def exited_def proc_cancel_def main_exit_def admin_action_def)
qed

theorem exit_without_drain_witness:
  "\<exists>s t v. proc_run ex_serving (proc_init ''p.json'' empty_registry) = Some s \<and>
     proc_run ([PSignal, PExit] :: (unit, unit) pev list) s = Some t \<and> pr_main t = MExited 0 \<and> pr_sup t = Some v \<and> served v = 1"
proof -
  obtain s u where s: "proc_run ex_serving (proc_init ''p.json'' empty_registry) = Some s" "pr_main s = MWait"
      "pr_sup s = Some u" "served u = 1"
    using ex_serving_run by blast
  from exit_without_drain [OF s(2,3)] s(1,4) show ?thesis by auto
qed

section \<open>The echo server\<close>

text \<open>
  The echo server answers every request with 200 and its text: method, request URI and remote address,
  then every value of every header, the headers in byte order, each value on a line of its own and
  the values of a header in their order, whatever order the map iterates in.
\<close>
theorem echo_response:
  assumes "map_range rng"
  shows "echoHandler rng raw force remoteAddr req new_writer =
    (let h = hdr_set ''Content-Type'' ''text/plain; charset=utf-8'' fmempty in
     \<lparr>rw_header = h, rw_sent = Some (200, h),
      rw_body = ''method='' @ rq_Method req @ newline @ ''path='' @ RequestURI raw force req @ newline @
        ''remote='' @ remoteAddr @ newline @ newline @
        concat (map (\<lambda>k. header_lines k (case fmlookup (rq_Header req) k of None \<Rightarrow> [] | Some vs \<Rightarrow> vs))
          (sorted_list_of_set (fmdom' (rq_Header req))))\<rparr>)"
  using echo_writes [OF assms] .

definition ex_echo :: Request where
  "ex_echo = \<lparr>rq_Method = ''GET'', rq_Path = ''/a b'', rq_RawQuery = ''q=1'', rq_Host = ''h'',
     rq_Header = fmap_of_list [(''X'', [''1'', ''2'']), (''A'', [''3''])], rq_Body = NoBody, rq_ProtoMajor = 1, rq_ProtoMinor = 1, rq_Close = False\<rparr>"

theorem echo_response_witness:
  "rw_body (echoHandler sorted_range [] False ''c:1'' ex_echo new_writer) =
     ''method=GET'' @ newline @ ''path=/a%20b?q=1'' @ newline @ ''remote=c:1'' @ newline @ newline @
     ''A: 3'' @ newline @ ''X: 1'' @ newline @ ''X: 2'' @ newline"
proof -
  have keys: "sorted_list_of_set (fmdom' (rq_Header ex_echo)) = [''A'', ''X'']" by code_simp
  have uri: "RequestURI [] False ex_echo = ''/a%20b?q=1''" by code_simp
  show ?thesis
    unfolding echo_response [OF sorted_range.map_range_axioms] Let_def keys uri
    by (simp add: ex_echo_def header_lines_def field_text_def)
qed

text \<open>
  The escaped path of a request can be unescaped to its path again: the encoding that was sent is used
  only when it decodes to the path.
\<close>

lemma escape_roundtrip: "unescape_path (EscapedPath raw path) = Some path"
proof -
  have "unescape_path ''*'' = Some ''*''" by code_simp
  then show ?thesis by (auto simp: EscapedPath_def unescape_escape)
qed

end
