(* ===== verification/GP_AdminProps.thy ===== *)
theory GP_AdminProps
  imports GP_Admin
begin

text \<open>What the admin server shows and changes: the Prometheus text, and the effects of its requests.\<close>

section \<open>The Prometheus text\<close>

text \<open>
  C27. The text has exactly one sample line for each counter and gauge, in the order of their keys, with
  the name and labels of its family and its decimal value; every type line comes once, before the
  first sample that needs it. Rendering never panics, and does not depend on the order in which the map of
  metrics is visited.
\<close>
theorem prom_exposition:
  assumes "map_range rng" "registry_ok m"
  shows "\<exists>its. RenderProm rng m = Ret (concat (map item_text its)) \<and> well_typed {} its \<and>
    filter is_sample its =
      map (\<lambda>k. case family k of (name, t, labels) \<Rightarrow> Sample name labels (decimal (fmget (Snapshot m) k)))
        (sorted_list_of_set (fmdom' (Snapshot m)))"
  using RenderProm_items [OF assms] unfolding sample_of_def by blast

theorem prom_exposition_witness:
  "\<exists>its. RenderProm sorted_range (Inc ''rate_limit_dropped_total'' empty_registry) = Ret (concat (map item_text its)) \<and>
     filter is_sample its = [Sample ''rate_limit_dropped_total'' [] ''1'']"
proof -
  let ?m = "Inc ''rate_limit_dropped_total'' empty_registry" and ?k = "''rate_limit_dropped_total''"
  have snap: "Snapshot ?m = fmupd ?k 1 fmempty"
    by (rule fmap_ext) (simp add: Snapshot_def Inc_def Add_def empty_registry_def wrap64_def)
  have fam: "family ?k = (?k, Some ''counter'', [])" by code_simp
  have dec: "decimal 1 = ''1''" by code_simp
  have "registry_ok ?m" by (simp add: Inc_def counter_reg.invar_add)
  from prom_exposition [OF sorted_range.map_range_axioms this] show ?thesis using snap fam dec by auto
qed

text \<open>
  The hand-written conversion of integers agrees with the standard one for every int64 and never
  runs out of its 20 bytes, except for the smallest int64, which it prints as a lone minus sign.
\<close>
theorem itoa_exact:
  assumes "in_i64 v"
  shows "itoa v = Ret (if v = - (2 ^ 63) then ''-'' else FormatInt v)"
  using itoa_decimal [OF assms] by (simp add: decimal_def)

theorem itoa_exact_witness: "itoa (- (2 ^ 63)) = Ret ''-''"
  using itoa_exact [of "- (2 ^ 63)"] by (simp add: in_i64_def)

definition labels_of :: "family \<Rightarrow> string \<times> (string \<times> string) list" where
  "labels_of f = (case f of (name, t, labels) \<Rightarrow> (name, map (\<lambda>(l, x). (l, unesc x)) labels))"


definition ex_cl :: Cluster where
  "ex_cl = \<lparr>c_Name = ''web'', Endpoints = [''a''], rr = 0, outlier = \<lparr>consecutive = 3, ejectFor = 30000000000\<rparr>,
      state = fmempty, hc = None, hcCancel = {}, hcRunning = [], cbMaxReqs = 0, inflight = 0, lbPolicy = ''random'',
      discovery = [], dnsRefresh = 5000000000, seeds = [''a''], staticSeeds = {''a''}, resolvedBySeed = fmempty,
      baseCtx = None, epMaxReqs = 1\<rparr>"


text \<open>
  A cluster name with a dot in it (nothing forbids one) is cut at the dot: the in-flight gauge of its
  endpoints is shown for a cluster and an endpoint that do not exist.
\<close>
theorem dotted_cluster_mislabelled:
  assumes "c_Name cl = a @ ''.'' @ b" "segment a" "list_all no_newline b" "list_all no_newline ep"
  shows "labels_of (family (ep_gauge cl ep)) =
    (''endpoint_inflight_requests'', [(''cluster'', a), (''endpoint'', b @ ''.'' @ ep)])"
proof -
  have "no_newline (CHR ''.'')" by (simp add: no_newline_def)
  then have "list_all no_newline (b @ ''.'' @ ep)" using assms(3,4) by simp
  from family_endpoint [OF assms(2) _ this] show ?thesis
    using assms(1) by (simp add: ep_gauge_def labels_of_def)
qed

theorem dotted_cluster_mislabelled_witness:
  "labels_of (family (ep_gauge (ex_cl\<lparr>c_Name := ''api.v2''\<rparr>) ''x:1'')) =
     (''endpoint_inflight_requests'', [(''cluster'', ''api''), (''endpoint'', ''v2.x:1'')])"
  using dotted_cluster_mislabelled [of "ex_cl\<lparr>c_Name := ''api.v2''\<rparr>" "''api''" "''v2''" "''x:1''"]
  by (simp add: segment_def no_dot_def no_newline_def)

section \<open>Requests\<close>

text \<open>
  C31. Every request to the admin server is answered without a panic, and the views (\<^verbatim>\<open>/healthz\<close>,
  \<^verbatim>\<open>/stats\<close>, \<^verbatim>\<open>/config\<close>, \<^verbatim>\<open>/metrics\<close>, \<^verbatim>\<open>/routes\<close>, \<^verbatim>\<open>/endpoints\<close> and unknown
  paths) change nothing: the proxy is reloaded only by a POST to \<^verbatim>\<open>/reload\<close>, drained only through
  \<^verbatim>\<open>/drain_start\<close> and stopped only through \<^verbatim>\<open>/quitquitquit\<close>, by POST or GET.
\<close>
theorem admin_requests:
  assumes "map_range rng" "registry_ok (su_reg s)"
  shows "\<exists>resp s'. admin_handle rng (sup_deps reload rng now) path meth s = Ret (resp, s') \<and>
    (s' = s \<or>
     path = ''/reload'' \<and> meth = ''POST'' \<and> s' = snd (reload s) \<or>
     path = ''/drain_start'' \<and> meth \<in> {''POST'', ''GET''} \<and> DrainStart s = Some s' \<or>
     path = ''/quitquitquit'' \<and> meth \<in> {''POST'', ''GET''} \<and> s' = cancel_base s)"
proof -
  have "registry_ok (d_metrics (sup_deps reload rng now) s)" using assms(2) by (simp add: sup_deps_def)
  from admin_handle_returns [OF assms(1) this, of path meth]
  obtain resp s' where run: "admin_handle rng (sup_deps reload rng now) path meth s = Ret (resp, s')" by auto
  from admin_handle_state [OF this] show ?thesis
    using run by (auto simp: sup_deps_def split: option.splits)
qed

theorem admin_requests_witness:
  "\<exists>resp s'. admin_handle sorted_range (sup_deps (\<lambda>s. (None, s)) sorted_range 0) ''/config'' ''DELETE''
       (sup_New ''p'' empty_registry :: unit Supervisor) = Ret (resp, s') \<and> s' = sup_New ''p'' empty_registry"
proof -
  have "registry_ok (su_reg (sup_New ''p'' empty_registry :: unit Supervisor))" by (simp add: sup_New_def)
  from admin_requests [OF sorted_range.map_range_axioms this, of "\<lambda>s. (None, s)" 0 "''/config''" "''DELETE''"]
  show ?thesis by auto
qed

end
