(* ===== verification/GP_HttpProps.thy ===== *)
theory GP_HttpProps
  imports GP_Hcm
begin

text \<open>
  What the HTTP side guarantees: routing and path rewriting, header rules, the rate limiter, the
  forwarded headers, the attempts of the upstream proxy, and the responses on a connection.
\<close>

section \<open>An example request\<close>

definition ex_req :: Request where
  "ex_req = \<lparr>rq_Method = ''POST'', rq_Path = ''/api/x'', rq_RawQuery = [], rq_Host = ''h'',
     rq_Header = fmempty, rq_Body = NoBody, rq_ProtoMajor = 1, rq_ProtoMinor = 1, rq_Close = False\<rparr>"

definition ex_rc :: RequestCtx where
  "ex_rc = new_rc ex_req (OtherAddr ''10.0.0.9:5000'') 0 False"

definition ex_route :: RouteRule where
  "ex_route = \<lparr>rr_Prefix = ''/api'', rr_Cluster = ''web'', rr_StripPrefix = False, rr_PrefixRewrite = ''/v1/'',
     rr_HostRewrite = ''inner'', rr_SetHeaders = fmupd ''X-A'' ''1'' fmempty, rr_RemoveHeaders = [''x-b''],
     rr_RetryPolicy = None\<rparr>"

text \<open>A cluster whose only endpoint is at its cap.\<close>

definition full_cluster :: Cluster where
  "full_cluster =
     \<lparr>c_Name = ''web'', Endpoints = [''a''], rr = 0, outlier = \<lparr>consecutive = 3, ejectFor = 30000000000\<rparr>,
      state = fmupd ''a'' (new_epState\<lparr>inFlight := 1\<rparr>) fmempty, hc = None, hcCancel = {}, hcRunning = [],
      cbMaxReqs = 0, inflight = 0, lbPolicy = ''random'', discovery = [], dnsRefresh = 5000000000,
      seeds = [''a''], staticSeeds = {''a''}, resolvedBySeed = fmempty, baseCtx = None, epMaxReqs = 1\<rparr>"

definition full_state :: ustate where
  "full_state = \<lparr>us_rc = ex_rc\<lparr>rc_UpstreamCluster := ''web''\<rparr>,
     us_w = \<lparr>w_cm = fmupd ''web'' full_cluster fmempty, w_reg = empty_registry, w_queue = fmempty\<rparr>, us_trace = [],
     us_sched = (\<lambda>_ w. w), us_clock = 0\<rparr>"

definition ex_up :: UpstreamProxy where
  "ex_up = \<lparr>up_cli = default_client, up_clients = fmempty, up_tlsEnabled = {}, up_retry = fmempty, up_pending = fmupd ''web'' 1 fmempty\<rparr>"

definition ex_env :: attempt_env where
  "ex_env = \<lparr>ae_wait = [], ae_wait_ok = True, ae_rnd = (\<lambda>n. 0), ae_now = 7, ae_cap_wait = [], ae_cap_ok = True,
     ae_build = True, ae_do = (\<lambda>_. Inl (ClientError False False)), ae_body = (\<lambda>b. b), ae_fail_now = 8,
     ae_write = None, ae_ms = 3, ae_int63n = (\<lambda>n. 0), ae_ctx = None\<rparr>"

lemmas ex_http_defs = ex_req_def ex_rc_def ex_route_def full_cluster_def full_state_def ex_up_def ex_env_def
  new_rc_def new_epState_def empty_registry_def

lemma wrap64_01: "wrap64 1 = 1" "wrap64 0 = 0"
  by (simp_all add: wrap64_def)

text \<open>The policy of a request to a cluster without one: a single attempt, for every method.\<close>

lemma ex_single: "max_attempts (request_policy ex_up (us_rc full_state)) (rc_Req (us_rc full_state)) = 1"
  by (simp add: ex_http_defs request_policy_def merge_retry_def zero_retry_def max_attempts_def wrap64_01)

text \<open>Pick finds the endpoint at its cap; the slot is released, acquired again while waiting, and kept.\<close>

lemma full_run:
  "\<exists>s'. Upstream_OnRequest sorted_range ex_up (\<lambda>_. ex_env) full_state = Ret (Some FailedWithoutError, s') \<and>
     us_trace s' = [Acquired, Released, Acquired, CapacityWait] \<and>
     cluster_inflight ''web'' (w_cm (us_w s'), w_reg (us_w s')) = 1"
proof -
  have c: "cluster_of full_state \<noteq> []" by (simp add: ex_http_defs cluster_of_def)
  show ?thesis
    unfolding Upstream_OnRequest_def Let_def ex_single if_not_P [OF c]
    by (subst attempt_loop.simps)
      (simp add: ex_http_defs one_attempt_def others_def picked_def acquire_def cluster_of_def TryAcquire_def set_inflight_def wrap64_01
        pick_and_try_def Pick_def snapshotEndpoints_def pick_random_def isAvailable_def underEndpointCap_def
        Before_def zeroTime_def release_slot_def call_def Release_def waitForCapacity_def queued_def tally_def
        set_queued_def leave_queue_def attempt_loop.simps [of _ _ _ 1 _ 1] final_error_def cluster_inflight_def)
qed

section \<open>Routing\<close>



text \<open>
  A route can never be chosen when an earlier route has a prefix of its prefix: the order of
  the routes, not the length of their prefixes, decides.
\<close>
theorem shadowed_route:
  assumes "i < j" "j < length routes" "HasPrefix (rr_Prefix (routes ! j)) (rr_Prefix (routes ! i))"
    and "rc_RouteID rc = 0"
  shows "rc_RouteID (Router_OnRequest routes rc) \<noteq> int j"
proof -
  have "first_match path routes \<noteq> Some j" for path
    using assms(1,3) by (auto simp: first_match_Some HasPrefix_iff)
  then show ?thesis
    using assms(1,4) by (auto simp: Router_OnRequest_def route_loop_spec split: option.splits)
qed

theorem shadowed_route_witness:
  "rc_RouteID (Router_OnRequest [ex_route, ex_route\<lparr>rr_Prefix := ''/api/x''\<rparr>] ex_rc) \<noteq> int 1"
  by (rule shadowed_route [of 0]) (simp_all add: ex_http_defs go_defs)

text \<open>
  When no route matches, the index of the request stays 0, the zero value, and not -1 as its
  comment says: the options filter then applies the host rewrite of the first route to a request that
  did not match it.
\<close>
theorem unmatched_gets_first_options:
  assumes "\<forall>rr \<in> set routes. \<not> HasPrefix (rq_Path req) (rr_Prefix rr)"
    and "routes \<noteq> []" "rr_HostRewrite (routes ! 0) \<noteq> []"
  shows "rq_Host (rc_Req (RouteOptions_OnRequest rng (NewRouteOptionsFilter routes)
      (Router_OnRequest routes (new_rc req remote start tls)))) = rr_HostRewrite (routes ! 0)"
proof -
  have "first_match (rq_Path req) routes = None" using assms(1) by (simp add: first_match_None)
  then have id: "rc_RouteID (Router_OnRequest routes (new_rc req remote start tls)) = 0"
    by (simp add: Router_OnRequest_def route_loop_spec new_rc_def)
  have "fmlookup (ro_hostRewrite (NewRouteOptionsFilter routes)) 0 = Some (rr_HostRewrite (routes ! 0))"
    using NewRouteOptionsFilter_at [of routes 0] assms(2,3) by (simp add: route_opts_at_def)
  then show ?thesis
    using id assms(3) by (simp add: RouteOptions_OnRequest_def Let_def split: option.splits)
qed

theorem unmatched_gets_first_options_witness:
  "rq_Host (rc_Req (RouteOptions_OnRequest sorted_range (NewRouteOptionsFilter [ex_route])
      (Router_OnRequest [ex_route] (new_rc (ex_req\<lparr>rq_Path := ''/other''\<rparr>) (OtherAddr []) 0 False)))) = ''inner''"
proof -
  have "rq_Host (rc_Req (RouteOptions_OnRequest sorted_range (NewRouteOptionsFilter [ex_route])
      (Router_OnRequest [ex_route] (new_rc (ex_req\<lparr>rq_Path := ''/other''\<rparr>) (OtherAddr []) 0 False)))) =
      rr_HostRewrite ([ex_route] ! 0)"
    by (rule unmatched_gets_first_options) (simp_all add: ex_http_defs go_defs)
  then show ?thesis by (simp add: ex_route_def)
qed

text \<open>
  The header rules of the route: a name on the remove list (in any case) is gone, even if it is set
  too; a name that is set has exactly the configured value; every other header keeps its
  values. Host and retry override are those of the route.
\<close>
theorem route_options_headers:
  assumes "map_range rng" "i < length routes" "rc_RouteID rc = int i" "hdr_ok (rq_Header (rc_Req rc))"
    and "inj_on canon (fmdom' (rr_SetHeaders (routes ! i)))"
    and "rc' = RouteOptions_OnRequest rng (NewRouteOptionsFilter routes) rc"
  shows "(ToLower k \<in> ToLower ` set (rr_RemoveHeaders (routes ! i)) \<longrightarrow> hdr_values (rq_Header (rc_Req rc')) k = []) \<and>
    (ToLower k \<notin> ToLower ` set (rr_RemoveHeaders (routes ! i)) \<longrightarrow>
      (\<forall>r v. fmlookup (rr_SetHeaders (routes ! i)) r = Some v \<and> canon r = canon k \<longrightarrow>
         hdr_values (rq_Header (rc_Req rc')) k = [v]) \<and>
      (canon k \<notin> canon ` fmdom' (rr_SetHeaders (routes ! i)) \<longrightarrow>
         hdr_values (rq_Header (rc_Req rc')) k = hdr_values (rq_Header (rc_Req rc)) k)) \<and>
    rc_RetryOverride rc' =
      (case rr_RetryPolicy (routes ! i) of Some p \<Rightarrow> Some (route_retry p) | None \<Rightarrow> rc_RetryOverride rc)"
proof -
  let ?rr = "routes ! i" and ?f = "NewRouteOptionsFilter routes" and ?h = "rq_Header (rc_Req rc)"
  define hs where "hs = (if rr_SetHeaders ?rr = fmempty then ?h else set_headers rng (rr_SetHeaders ?rr) ?h)"
  have at: "route_opts_at ?f i (Some ?rr)" using NewRouteOptionsFilter_at [of routes i] assms(2) by simp
  have h: "rq_Header (rc_Req rc') =
      (if rr_RemoveHeaders ?rr = [] then hs else drop_headers rng (ToLower ` set (rr_RemoveHeaders ?rr)) hs)"
    and ov: "rc_RetryOverride rc' =
      (case rr_RetryPolicy ?rr of Some p \<Rightarrow> Some (route_retry p) | None \<Rightarrow> rc_RetryOverride rc)"
    using at assms(3,6)
    by (simp_all add: RouteOptions_OnRequest_def route_opts_at_def Let_def hs_def split: option.splits)
  have "hdr_ok hs" using assms(4) by (simp add: hdr_ok_set_headers hs_def)
  then have dropped: "hdr_values (rq_Header (rc_Req rc')) k =
      (if ToLower k \<in> ToLower ` set (rr_RemoveHeaders ?rr) then [] else hdr_values hs k)"
    by (simp add: h drop_headers_values [OF assms(1)])
  have "hdr_values hs k = [v]" if "fmlookup (rr_SetHeaders ?rr) r = Some v" "canon r = canon k" for r v
    using set_headers_values(1) [OF assms(1,5), of r k ?h] that by (auto simp: fmdom'I hs_def)
  moreover have "hdr_values hs k = hdr_values ?h k" if "canon k \<notin> canon ` fmdom' (rr_SetHeaders ?rr)"
    using set_headers_values(2) [OF assms(1,5) that, of ?h] by (simp add: hs_def)
  ultimately show ?thesis using dropped ov by auto
qed

lemma lower_xab: "ToLower ''X-A'' \<noteq> ToLower ''x-b''"
  by code_simp

theorem route_options_headers_witness:
  "hdr_values (rq_Header (rc_Req (RouteOptions_OnRequest sorted_range (NewRouteOptionsFilter [ex_route]) ex_rc))) ''X-A'' = [''1'']"
proof -
  have pre: "0 < length [ex_route]" "rc_RouteID ex_rc = int 0" "hdr_ok (rq_Header (rc_Req ex_rc))"
    "inj_on canon (fmdom' (rr_SetHeaders ([ex_route] ! 0)))"
    by (simp_all add: ex_http_defs)
  have "ToLower ''X-A'' \<notin> ToLower ` set (rr_RemoveHeaders ([ex_route] ! 0))"
    "fmlookup (rr_SetHeaders ([ex_route] ! 0)) ''X-A'' = Some ''1''"
    using lower_xab by (simp_all add: ex_route_def)
  with route_options_headers [OF sorted_range.map_range_axioms pre refl, of "''X-A''"] show ?thesis by blast
qed

section \<open>Rate limiting\<close>



text \<open>
  C26. For every way of rounding that is monotone, idempotent and exact on 0 and 1, a limiter
  built from a configuration is well formed, and from a well-formed limiter every request is handled
  without a panic and leaves it well formed (tokens between 0 and the capacity, in every bucket).
\<close>
theorem limiter_total:
  assumes "rounding fl"
  shows "(\<forall>rl. NewRateLimiter fl start cfg = Some rl \<longrightarrow> limiter_ok fl rl) \<and>
    (\<forall>rl. limiter_ok fl rl \<longrightarrow> (\<exists>rl' rc' m'.
       RateLimiter_OnRequest fl created now ok (Some rl) (rc, m) = Ret (Some rl', rc', m') \<and> limiter_ok fl rl'))"
  using rounding.limiter_ok_new [OF assms] rounding.limiter_run [OF assms] by blast

theorem limiter_total_witness:
  "\<exists>rl rl' rc' m'. NewRateLimiter (grid 20) 0 (Some \<lparr>rl_RequestsPerSecond = 5, rl_Burst = 0, rl_Scope = []\<rparr>) = Some rl \<and>
    RateLimiter_OnRequest (grid 20) 1 1 True (Some rl) (ex_rc, empty_registry) = Ret (Some rl', rc', m') \<and>
    limiter_ok (grid 20) rl'"
proof -
  obtain rl where rl: "NewRateLimiter (grid 20) 0 (Some \<lparr>rl_RequestsPerSecond = 5, rl_Burst = 0, rl_Scope = []\<rparr>) = Some rl"
    by (simp add: NewRateLimiter_def Let_def)
  with limiter_total [OF grid.rounding_axioms, of 20 0 "Some \<lparr>rl_RequestsPerSecond = 5, rl_Burst = 0, rl_Scope = []\<rparr>"]
  have "limiter_ok (grid 20) rl" by blast
  with limiter_total [OF grid.rounding_axioms, of 20 0 None 1 1 True ex_rc empty_registry] rl show ?thesis by blast
qed

text \<open>
  A client that was idle long enough is admitted: once the bucket has had time to
  gain one token, the next request passes (in exact arithmetic).
\<close>
theorem idle_client_admitted:
  assumes "1 \<le> b_cap b" "0 \<le> b_tok b" "b_last b < now" "now - b_last b < 2 ^ 63"
    and "1000000000 \<le> b_rate b * of_int (now - b_last b)"
  shows "fst (allow ideal now b)"
  by (rule allow_after_idle [OF assms])

theorem idle_client_admitted_witness:
  "fst (allow ideal 500000000 \<lparr>b_cap = 3, b_rate = 2, b_tok = 0, b_last = 0\<rparr>)"
  by (rule idle_client_admitted) simp_all

text \<open>
  Addresses of HTTP/2 clients are strings, cut at the first colon: all IPv6 clients whose address
  starts with the same group are taken for the same client and share one bucket.
\<close>
theorem ipv6_clients_share_bucket:
  assumes "rl_scope rl = ''ip''" "CHR '':'' \<notin> set g"
    and "rc_Remote rc = OtherAddr (''['' @ g @ '':'' @ rest)" "rc_Remote rc' = OtherAddr (''['' @ g @ '':'' @ rest')"
  shows "limit_ip rl rc = limit_ip rl rc' \<and>
    getBucket (store_bucket rl (limit_ip rl rc) b) (limit_ip rl rc') t = Some b"
  using assms client_ip_v6 [OF assms(2)] by (simp add: limit_ip_def getBucket_def store_bucket_def)

theorem ipv6_clients_share_bucket_witness:
  "limit_ip (\<lparr>rl_scope = ''ip'', rl_global = None, rl_perIP = fmempty, rl_defCap = 1, rl_defRate = 1\<rparr>)
     (ex_rc\<lparr>rc_Remote := OtherAddr ''[2001:db8::1]:443''\<rparr>) =
   limit_ip (\<lparr>rl_scope = ''ip'', rl_global = None, rl_perIP = fmempty, rl_defCap = 1, rl_defRate = 1\<rparr>)
     (ex_rc\<lparr>rc_Remote := OtherAddr ''[2001:4860::8]:80''\<rparr>)"
  by (rule ipv6_clients_share_bucket [of _ "''2001''" _ "''db8::1]:443''" _ "''4860::8]:80''", THEN conjunct1]) simp_all

section \<open>Forwarded headers\<close>

text \<open>
  The forwarded-headers filter appends the client address to \<^verbatim>\<open>X-Forwarded-For\<close>, sets
  \<^verbatim>\<open>X-Forwarded-Proto\<close> from the downstream connection, keeps an incoming request id or puts a
  generated one of 32 characters, records it in the context, and leaves every header but these
  and \<^verbatim>\<open>Via\<close> alone.
\<close>
theorem forwarded_headers:
  assumes "remote_ip (rc_Remote rc) \<noteq> []" "\<forall>bs. rand = Some bs \<longrightarrow> length bs = 16"
    and "rc' = ForwardedHeaders_OnRequest name rand rc" "h = rq_Header (rc_Req rc)" "h' = rq_Header (rc_Req rc')"
  shows "hdr_get h' ''X-Forwarded-For'' =
      (if hdr_get h ''X-Forwarded-For'' = [] then [] else hdr_get h ''X-Forwarded-For'' @ '', '') @ remote_ip (rc_Remote rc) \<and>
    hdr_get h' ''X-Forwarded-Proto'' = (if rc_DownstreamTLS rc then ''https'' else ''http'') \<and>
    hdr_get h' ''X-Request-Id'' = rc_RequestID rc' \<and>
    (if hdr_get h ''X-Request-Id'' = [] then length (rc_RequestID rc') = 32
     else rc_RequestID rc' = hdr_get h ''X-Request-Id'') \<and>
    (\<forall>k. canon k \<notin> {''X-Forwarded-For'', ''X-Forwarded-Proto'', ''Via'', ''X-Request-Id''} \<longrightarrow>
       hdr_values h' k = hdr_values h k)"
  unfolding assms(3-5)
  using forwarded_for [OF assms(1)] forwarded_proto [of name rand rc] forwarded_id [of name rand rc]
    forwarded_others [of _ name rand rc] genID_length [of rand] assms(2)
  by simp

theorem forwarded_headers_witness:
  "hdr_get (rq_Header (rc_Req (ForwardedHeaders_OnRequest ''go-proxy'' None ex_rc))) ''X-Forwarded-For'' = ''10.0.0.9''"
proof -
  have ip: "remote_ip (rc_Remote ex_rc) = ''10.0.0.9''" by (simp add: ex_http_defs remote_ip_def)
  have "hdr_get (rq_Header (rc_Req ex_rc)) ''X-Forwarded-For'' = []"
    by (simp add: ex_http_defs hdr_get_def hdr_values_def)
  with forwarded_headers [of ex_rc None, OF _ _ refl refl refl, of "''go-proxy''"] ip show ?thesis by simp
qed

end
