(* ===== verification/GP_Returns.thy ===== *)
theory GP_Returns
  imports GP_Attempts
begin

text \<open>
  The upstream proxy returns, and what it does to the cluster manager are steps of
  \<open>manager_step\<close>. What can keep a request from being answered is: a wait for capacity that is never
  ended, by a free slot or by the context; a panic of \<^verbatim>\<open>Pick\<close> once the round-robin index or an
  in-flight count has left the signed range; and a panic of the back-off. The lemmas follow one attempt
  with total-correctness rules (\<open>ends\<close>) and a budget: the number of calls on the shared state the
  request may still make, each with up to \<open>p\<close> calls of other goroutines before it, such that no counter
  leaves its range.
\<close>

section \<open>Calls that return\<close>

definition ends :: "'a go \<Rightarrow> ('a \<Rightarrow> bool) \<Rightarrow> bool" where
  "ends g P \<longleftrightarrow> (\<exists>x. g = Ret x \<and> P x)"

lemma ends_Ret [simp]: "ends (Ret x) P \<longleftrightarrow> P x"
  by (simp add: ends_def)

lemma ends_bind: "ends g Q \<Longrightarrow> (\<And>x. Q x \<Longrightarrow> ends (f x) P) \<Longrightarrow> ends (go_bind g f) P"
  by (auto simp: ends_def)

lemma ends_mono: "ends g Q \<Longrightarrow> (\<And>x. Q x \<Longrightarrow> P x) \<Longrightarrow> ends g P"
  by (auto simp: ends_def)

section \<open>The budget\<close>

text \<open>Every counter of a cluster can still be advanced \<open>b\<close> times.\<close>

definition roomy :: "nat \<Rightarrow> Cluster \<Rightarrow> bool" where
  "roomy b c \<longleftrightarrow> uint (rr c) + int b < 2 ^ 63 \<and> 0 \<le> inflight c \<and> inflight c + int b < 2 ^ 63 \<and>
     (\<forall>a st. fmlookup (state c) a = Some st \<longrightarrow> 0 \<le> inFlight st \<and> inFlight st + int b < 2 ^ 63)"

definition headroom :: "nat \<Rightarrow> Manager \<Rightarrow> bool" where
  "headroom b cm \<longleftrightarrow> (\<forall>n c. fmlookup cm n = Some c \<longrightarrow> roomy b c)"

text \<open>The manager of a world is in a state that the transition system of the manager reaches.\<close>

definition manager_reachable :: "world \<Rightarrow> bool" where
  "manager_reachable w \<longleftrightarrow> (\<exists>pend. reach manager_init manager_step \<lparr>mgr = w_cm w, reg = w_reg w, pending = pend\<rparr>)"

definition safe :: "nat \<Rightarrow> world \<Rightarrow> bool" where
  "safe b w \<longleftrightarrow> headroom b (w_cm w) \<and> manager_reachable w"

definition in_queue :: "string \<Rightarrow> world \<Rightarrow> nat" where
  "in_queue n w = (case fmlookup (w_queue w) n of None \<Rightarrow> 0 | Some k \<Rightarrow> k)"

text \<open>
  What other goroutines do before a call of this one: they take the manager to another reachable
  state with at most \<open>p\<close> of the calls that count, and leave this request's own entry in its
  pending queue.
\<close>

definition others_ok :: "nat \<Rightarrow> (world \<Rightarrow> world) \<Rightarrow> bool" where
  "others_ok p f \<longleftrightarrow> (\<forall>b w. safe (b + p) w \<longrightarrow> safe b (f w)) \<and> (\<forall>n w. 0 < in_queue n w \<longrightarrow> 0 < in_queue n (f w))"

text \<open>A wait of at most \<open>l\<close> ticks, ended by the context if no slot becomes free before.\<close>

definition wait_ends :: "nat \<Rightarrow> tick list \<Rightarrow> bool" where
  "wait_ends l ts \<longleftrightarrow> length ts \<le> l \<and> CtxDone \<in> set ts"

definition env_ok :: "nat \<Rightarrow> attempt_env \<Rightarrow> bool" where
  "env_ok l e \<longleftrightarrow> wait_ends l (ae_wait e) \<and> wait_ends l (ae_cap_wait e) \<and> rnd_ok (ae_rnd e) \<and> int63n_ok (ae_int63n e)"

text \<open>The calls of one attempt at most: two waits, and acquire, pick, increment, report, decrement, release.\<close>

definition attempt_calls :: "nat \<Rightarrow> nat" where
  "attempt_calls l = 2 * l + 8"

text \<open>A request that may make \<open>k\<close> more calls.\<close>

definition fine :: "nat \<Rightarrow> nat \<Rightarrow> ustate \<Rightarrow> bool" where
  "fine p k s \<longleftrightarrow> safe (k * Suc p) (us_w s) \<and> (\<forall>i. others_ok p (us_sched s i))"

lemma roomy_mono: "roomy b c \<Longrightarrow> b' \<le> b \<Longrightarrow> roomy b' c"
  by (fastforce simp: roomy_def)

lemma headroom_mono: "headroom b cm \<Longrightarrow> b' \<le> b \<Longrightarrow> headroom b' cm"
  unfolding headroom_def by (blast intro: roomy_mono)

lemma safe_mono: "safe b w \<Longrightarrow> b' \<le> b \<Longrightarrow> safe b' w"
  unfolding safe_def by (blast intro: headroom_mono)

lemma fine_mono: "fine p k s \<Longrightarrow> k' \<le> k \<Longrightarrow> fine p k' s"
  unfolding fine_def by (blast intro: safe_mono mult_le_mono1)

lemma roomy_ok: "roomy b c \<Longrightarrow> rr_small c \<and> loads_ok c"
  by (auto simp: roomy_def rr_small_def loads_ok_def)

lemma roomy_set_st:
  "roomy b c \<Longrightarrow> 0 \<le> inFlight st \<Longrightarrow> inFlight st + int b < 2 ^ 63 \<Longrightarrow> roomy b (set_st a st c)"
  by (auto simp: roomy_def set_st_def)

lemma roomy_st_of: "roomy b c \<Longrightarrow> 0 \<le> inFlight (st_of c a) \<and> inFlight (st_of c a) + int b < 2 ^ 63"
proof (cases "fmlookup (state c) a")
  case None
  assume "roomy b c"
  then have "int b < 2 ^ 63" using uint_ge_0 [of "rr c"] unfolding roomy_def by linarith
  with None show ?thesis by (simp add: st_of_def new_epState_def)
qed (auto simp: roomy_def st_of_def)

lemma roomy_advance:
  assumes "roomy (Suc b) c"
  shows "roomy b (advance_rr c)"
proof -
  have "uint (rr c + 1) \<le> uint (rr c) + 1" using uint_add_le [of "rr c" 1] by simp
  with assms show ?thesis by (fastforce simp: roomy_def)
qed

lemma roomy_room: "headroom (Suc b) cm \<Longrightarrow> room cm n a"
  by (fastforce simp: headroom_def roomy_def room_def split: option.splits)

lemma headroom_upd: "headroom b cm \<Longrightarrow> roomy b c \<Longrightarrow> headroom b (fmupd n c cm)"
  by (auto simp: headroom_def)

section \<open>Steps of the manager\<close>

lemma reachable_step:
  assumes "manager_reachable w" "\<And>pend. manager_step \<lparr>mgr = w_cm w, reg = w_reg w, pending = pend\<rparr> \<lparr>mgr = cm, reg = m, pending = pend\<rparr>"
  shows "manager_reachable (w\<lparr>w_cm := cm, w_reg := m\<rparr>)"
  using assms by (auto simp: manager_reachable_def intro: reach_step)

lemma reachable_reg [simp]: "manager_reachable (w\<lparr>w_reg := m\<rparr>) = manager_reachable w"
proof -
  have "manager_reachable w \<Longrightarrow> manager_reachable (w\<lparr>w_reg := m\<rparr>)" for w m
    using reachable_step [of w "w_cm w" m] manager_step.metric [of "\<lparr>mgr = w_cm w, reg = w_reg w, pending = _\<rparr>" m]
    by simp
  from this [of w m] this [of "w\<lparr>w_reg := m\<rparr>" "w_reg w"] show ?thesis by auto
qed

lemma reachable_queue [simp]: "manager_reachable (w\<lparr>w_queue := q\<rparr>) = manager_reachable w"
  by (simp add: manager_reachable_def)

lemma safe_frame [simp]: "safe b (w\<lparr>w_reg := m\<rparr>) = safe b w" "safe b (w\<lparr>w_queue := q\<rparr>) = safe b w"
  by (simp_all add: safe_def)

text \<open>An operation on the manager that counts once.\<close>

definition counts_once :: "(Manager \<times> registry \<Rightarrow> Manager \<times> registry) \<Rightarrow> bool" where
  "counts_once f \<longleftrightarrow> (\<forall>b cm m cm' m' pend. headroom (Suc b) cm \<longrightarrow> f (cm, m) = (cm', m') \<longrightarrow>
     headroom b cm' \<and> manager_step \<lparr>mgr = cm, reg = m, pending = pend\<rparr> \<lparr>mgr = cm', reg = m', pending = pend\<rparr>)"

lemma counts_onceI:
  assumes "\<And>cm m. fst (f (cm, m)) = (case fmlookup cm n of None \<Rightarrow> cm | Some c \<Rightarrow> fmupd n (g c) cm)"
    and "\<And>b c. roomy (Suc b) c \<Longrightarrow> roomy b c \<Longrightarrow> roomy b (g c)"
    and "\<And>b s cm m. headroom (Suc b) (mgr s) \<Longrightarrow> f (mgr s, reg s) = (cm, m) \<Longrightarrow> manager_step s (s\<lparr>mgr := cm, reg := m\<rparr>)"
  shows "counts_once f"
  unfolding counts_once_def
proof (intro allI impI conjI)
  fix b cm m cm' m' and pend :: "(string \<times> string set) list"
  assume h: "headroom (Suc b) cm" "f (cm, m) = (cm', m')"
  then have "cm' = (case fmlookup cm n of None \<Rightarrow> cm | Some c \<Rightarrow> fmupd n (g c) cm)" using assms(1) [of cm m] by simp
  then show "headroom b cm'"
    using h(1) headroom_mono [OF h(1), of b] assms(2) by (auto simp: headroom_def split: option.splits if_splits)
  show "manager_step \<lparr>mgr = cm, reg = m, pending = pend\<rparr> \<lparr>mgr = cm', reg = m', pending = pend\<rparr>"
    using assms(3) [of b "\<lparr>mgr = cm, reg = m, pending = pend\<rparr>" cm' m'] h by simp
qed

lemma same_fmupd: "fmlookup m k = Some v \<Longrightarrow> fmupd k v m = m"
  by (rule fmap_ext) auto

lemma roomy_inc:
  assumes "roomy (Suc b) c" "fmlookup (state c) ep = Some st"
  shows "roomy b (set_st ep (st\<lparr>inFlight := wrap64 (inFlight st + 1)\<rparr>) c)"
proof -
  have st: "0 \<le> inFlight st" "inFlight st + int (Suc b) < 2 ^ 63" using assms unfolding roomy_def by blast+
  then have "wrap64 (inFlight st + 1) = inFlight st + 1" by (intro wrap64_id) (simp add: in_i64_def)
  with st roomy_mono [OF assms(1), of b] show ?thesis by (intro roomy_set_st) simp_all
qed

lemma roomy_dec:
  assumes "roomy b c" "fmlookup (state c) ep = Some st"
  shows "roomy b (set_st ep (st\<lparr>inFlight := max 0 (wrap64 (inFlight st - 1))\<rparr>) c)"
proof -
  have st: "0 \<le> inFlight st" "inFlight st + int b < 2 ^ 63" using assms unfolding roomy_def by blast+
  then have "wrap64 (inFlight st - 1) = inFlight st - 1" by (intro wrap64_id) (simp add: in_i64_def)
  with st assms(1) show ?thesis by (intro roomy_set_st) simp_all
qed

lemma roomy_release: "roomy b c \<Longrightarrow> roomy b (c\<lparr>inflight := max 0 (wrap64 (inflight c - 1))\<rparr>)"
proof -
  assume c: "roomy b c"
  then have "wrap64 (inflight c - 1) = inflight c - 1" by (intro wrap64_id) (simp add: in_i64_def roomy_def)
  with c show ?thesis by (auto simp: roomy_def max_def)
qed

lemma once_inc: "counts_once (IncEndpointInFlight n ep)"
proof (rule counts_onceI)
  show "fst (IncEndpointInFlight n ep (cm, m)) = (case fmlookup cm n of None \<Rightarrow> cm
      | Some c \<Rightarrow> fmupd n (case fmlookup (state c) ep of None \<Rightarrow> c
          | Some st \<Rightarrow> set_st ep (st\<lparr>inFlight := wrap64 (inFlight st + 1)\<rparr>) c) cm)" for cm m
    by (auto simp: IncEndpointInFlight_def Let_def same_fmupd split: option.splits)
qed (auto intro: roomy_inc manager_step.inc roomy_room split: option.splits)

lemma once_dec: "counts_once (DecEndpointInFlight n ep)"
proof (rule counts_onceI)
  show "fst (DecEndpointInFlight n ep (cm, m)) = (case fmlookup cm n of None \<Rightarrow> cm
      | Some c \<Rightarrow> fmupd n (case fmlookup (state c) ep of None \<Rightarrow> c
          | Some st \<Rightarrow> set_st ep (st\<lparr>inFlight := max 0 (wrap64 (inFlight st - 1))\<rparr>) c) cm)" for cm m
    by (auto simp: DecEndpointInFlight_def Let_def same_fmupd max_def split: option.splits)
qed (auto intro: roomy_dec manager_step.dec split: option.splits)

lemma once_release: "counts_once (Release n)"
proof (rule counts_onceI)
  show "fst (Release n (cm, m)) = (case fmlookup cm n of None \<Rightarrow> cm
      | Some c \<Rightarrow> fmupd n (c\<lparr>inflight := max 0 (wrap64 (inflight c - 1))\<rparr>) cm)" for cm m
    by (auto simp: Release_def set_inflight_def Let_def max_def split: option.splits)
qed (auto intro: roomy_release manager_step.release)

lemma once_failure: "counts_once (ReportFailure n ep now)"
proof (rule counts_onceI)
  show "fst (ReportFailure n ep now (cm, m)) = (case fmlookup cm n of None \<Rightarrow> cm
      | Some c \<Rightarrow> fmupd n (fst (markFailure ep now (c, empty_registry))) cm)" for cm m
    by (auto simp: ReportFailure_def markFailure_def Let_def split: option.splits)
  show "roomy b c \<Longrightarrow> roomy b (fst (markFailure ep now (c, empty_registry)))" for b c
    by (auto simp: markFailure_def Let_def dest: roomy_st_of intro!: roomy_set_st)
qed (auto intro: manager_step.failure)

lemma once_success: "counts_once (\<lambda>(cm, m). (ReportSuccess n ep cm, m))"
proof (rule counts_onceI)
  show "fst (case (cm, m) of (cm, m) \<Rightarrow> (ReportSuccess n ep cm, m)) = (case fmlookup cm n of None \<Rightarrow> cm
      | Some c \<Rightarrow> fmupd n (markSuccess ep c) cm)" for cm and m :: registry
    by (auto simp: ReportSuccess_def split: option.splits)
  show "roomy b c \<Longrightarrow> roomy b (markSuccess ep c)" for b c
    by (auto simp: markSuccess_def dest: roomy_st_of intro!: roomy_set_st)
  show "manager_step s (s\<lparr>mgr := cm, reg := m\<rparr>)"
    if "(case (mgr s, reg s) of (cm, m) \<Rightarrow> (ReportSuccess n ep cm, m)) = (cm, m)" for s cm m
    using that manager_step.success [of s n ep] by (cases s) auto
qed

lemma roomy_acquire:
  assumes "roomy (Suc b) c"
  shows "roomy b (c\<lparr>inflight := wrap64 (inflight c + 1)\<rparr>)" "roomy b (c\<lparr>inflight := wrap64 (wrap64 (inflight c + 1) - 1)\<rparr>)"
proof -
  have "wrap64 (inflight c + 1) = inflight c + 1" using assms by (intro wrap64_id) (simp add: in_i64_def roomy_def)
  moreover have "wrap64 (inflight c) = inflight c" using assms by (intro wrap64_id) (simp add: in_i64_def roomy_def)
  ultimately show "roomy b (c\<lparr>inflight := wrap64 (inflight c + 1)\<rparr>)"
    "roomy b (c\<lparr>inflight := wrap64 (wrap64 (inflight c + 1) - 1)\<rparr>)"
    using assms roomy_mono [OF assms, of b] by (auto simp: roomy_def)
qed

lemma once_acquire: "counts_once (\<lambda>x. snd (TryAcquire n x))"
proof (rule counts_onceI)
  show "fst (snd (TryAcquire n (cm, m))) = (case fmlookup cm n of None \<Rightarrow> cm
      | Some c \<Rightarrow> fmupd n (c\<lparr>inflight := if 0 < cbMaxReqs c \<and> cbMaxReqs c < wrap64 (inflight c + 1)
          then wrap64 (wrap64 (inflight c + 1) - 1) else wrap64 (inflight c + 1)\<rparr>) cm)" for cm m
    by (auto simp: TryAcquire_def set_inflight_def Let_def split: option.splits)
  show "manager_step s (s\<lparr>mgr := cm, reg := m\<rparr>)"
    if "headroom (Suc b) (mgr s)" "snd (TryAcquire n (mgr s, reg s)) = (cm, m)" for b s cm m
    using that manager_step.acquire [OF roomy_room [OF that(1), of n undefined]] by (metis prod.collapse)
qed (auto intro: roomy_acquire)

section \<open>Calls of a request\<close>

lemma fine_tally [simp]: "fine p k (tally f s) = fine p k s"
  by (simp add: fine_def tally_def)

lemma fine_set_queued [simp]: "fine p k (set_queued j s) = fine p k s"
  by (simp add: fine_def set_queued_def)

lemma fine_rc [simp]: "fine p k (s\<lparr>us_rc := rc\<rparr>) = fine p k s" "fine p k (s\<lparr>us_trace := t\<rparr>) = fine p k s"
  "fine p k (s\<lparr>us_trace := t, us_rc := rc\<rparr>) = fine p k s"
  by (simp_all add: fine_def)

lemma fine_reply [simp]: "fine p k (reply ok st t s) = fine p k s" "fine p k (open_reply ok s) = fine p k s"
  by (simp_all add: reply_def open_reply_def)

lemma others_safe: "fine p (Suc k) s \<Longrightarrow> safe (Suc (k * Suc p)) (us_w (others s))"
proof -
  assume s: "fine p (Suc k) s"
  then have "safe (Suc (k * Suc p) + p) (us_w s)" by (simp add: fine_def algebra_simps)
  then show ?thesis using s unfolding fine_def others_ok_def others_def by simp
qed

lemma others_fine: "fine p (Suc k) s \<Longrightarrow> fine p k (others s)"
  using safe_mono [OF others_safe, of p k s "k * Suc p"] by (simp add: fine_def others_def)

lemma safe_once:
  assumes "safe (Suc b) w" "counts_once f" "f (w_cm w, w_reg w) = (cm, m)"
  shows "safe b (w\<lparr>w_cm := cm, w_reg := m\<rparr>)"
  using assms reachable_step [of w cm m] unfolding safe_def counts_once_def by (metis world.select_convs(1) world.update_convs(1,2) world.surjective)

lemma fine_call:
  assumes "fine p (Suc k) s" "counts_once f"
  shows "fine p k (call a f s)"
proof -
  obtain cm m where f: "f (w_cm (us_w (others s)), w_reg (us_w (others s))) = (cm, m)" by force
  have "\<forall>i. others_ok p (us_sched (others s) i)" using assms(1) by (simp add: fine_def others_def)
  with safe_once [OF others_safe [OF assms(1)] assms(2) f] f show ?thesis by (simp add: fine_def call_def Let_def)
qed

lemma fine_release: "fine p (Suc k) s \<Longrightarrow> fine p k (release_slot s)"
  by (simp add: release_slot_def fine_call once_release)

lemma others_queue: "fine p k s \<Longrightarrow> 0 < in_queue n (us_w s) \<Longrightarrow> 0 < in_queue n (us_w (others s))"
  by (simp add: fine_def others_ok_def others_def)

lemma acquire_fine:
  assumes "acquire s = (ok, s')" "fine p (Suc k) s"
  shows "fine p k s'" "cluster_of s' = cluster_of s" "0 < in_queue n (us_w s) \<Longrightarrow> 0 < in_queue n (us_w s')"
proof -
  obtain cm m where t: "TryAcquire (cluster_of s) (w_cm (us_w (others s)), w_reg (us_w (others s))) = (ok, cm, m)"
    and s': "us_w s' = (us_w (others s))\<lparr>w_cm := cm, w_reg := m\<rparr>" "us_sched s' = us_sched s" "us_rc s' = us_rc s"
    using assms(1) by (auto simp: acquire_def others_def cluster_of_def Let_def split: prod.splits)
  have "safe (k * Suc p) ((us_w (others s))\<lparr>w_cm := cm, w_reg := m\<rparr>)"
    by (rule safe_once [OF others_safe [OF assms(2)] once_acquire [of "cluster_of s"]]) (simp add: t)
  then show "fine p k s'" using assms(2) by (simp add: fine_def s')
  show "cluster_of s' = cluster_of s" by (simp add: cluster_of_def s')
  show "0 < in_queue n (us_w s) \<Longrightarrow> 0 < in_queue n (us_w s')"
    using others_queue [OF assms(2), of n] by (simp add: s' in_queue_def)
qed

lemma leave_ends:
  assumes "fine p (Suc k) s" "0 < in_queue (cluster_of s) (us_w s)"
  shows "ends (leave_queue s) (fine p k)"
proof -
  have "queued (others s) \<noteq> 0" using others_queue [OF assms] by (simp add: queued_def in_queue_def)
  then show ?thesis using others_fine [OF assms(1)] by (simp add: leave_queue_def Let_def)
qed

lemma picked_ends:
  assumes "fine p (Suc k) s" "rnd_ok rnd"
  shows "ends (picked rnd now s) (\<lambda>(r, s'). fine p k s')"
proof -
  let ?s = "others s"
  let ?w = "us_w (others s)" and ?n = "cluster_of (others s)" and ?b = "k * Suc p"
  have safe: "safe (Suc ?b) ?w" by (rule others_safe [OF assms(1)])
  have "\<exists>r cm. Pick rnd now ?n (w_cm ?w) = Ret (r, cm) \<and> headroom ?b cm"
  proof (cases "\<exists>c. fmlookup (w_cm ?w) ?n = Some c \<and> Endpoints c \<noteq> []")
    case True
    then obtain c where c: "fmlookup (w_cm ?w) ?n = Some c" "Endpoints c \<noteq> []" by blast
    have room: "roomy (Suc ?b) c" using safe c(1) unfolding safe_def headroom_def by blast
    then have "rnd_ok rnd \<and> rr_small c \<and> loads_ok c" using roomy_ok assms(2) by blast
    from policy_sel.sel_total [OF this c(2)] obtain r where r: "pick_policy rnd c now = Ret r" by blast
    obtain c' where c': "c' = c \<or> c' = advance_rr c" "Pick rnd now ?n (w_cm ?w) = Ret (r, fmupd ?n c' (w_cm ?w))"
      using Pick_policy [OF c, of rnd now] r by auto
    have "roomy ?b c'" using c'(1) room roomy_advance roomy_mono [OF room, of ?b] by auto
    moreover have "headroom ?b (w_cm ?w)" using safe headroom_mono [of "Suc ?b" "w_cm ?w" ?b] by (simp add: safe_def)
    ultimately show ?thesis using c'(2) headroom_upd by blast
  next
    case False
    then have "\<exists>r. Pick rnd now ?n (w_cm ?w) = Ret (r, w_cm ?w)"
      by (auto simp: Pick_def snapshotEndpoints_def split: option.splits)
    moreover have "headroom ?b (w_cm ?w)" using safe headroom_mono [of "Suc ?b" "w_cm ?w" ?b] by (simp add: safe_def)
    ultimately show ?thesis by blast
  qed
  then obtain r cm where pick: "Pick rnd now ?n (w_cm ?w) = Ret (r, cm)" "headroom ?b cm" by blast
  have "manager_step \<lparr>mgr = w_cm ?w, reg = w_reg ?w, pending = pend\<rparr> \<lparr>mgr = cm, reg = w_reg ?w, pending = pend\<rparr>" for pend
    using manager_step.pick [of rnd now ?n "\<lparr>mgr = w_cm ?w, reg = w_reg ?w, pending = pend\<rparr>" r cm] pick(1) by simp
  from reachable_step [OF _ this] have "manager_reachable (?w\<lparr>w_cm := cm\<rparr>)" using safe by (simp add: safe_def)
  with pick assms(1) show ?thesis by (simp add: picked_def Let_def fine_def safe_def others_def)
qed

section \<open>Waiting\<close>

lemma poll_ends:
  assumes "fine p (k + length ts + 1) s" "0 < in_queue (cluster_of s) (us_w s)" "CtxDone \<in> set ts"
  shows "ends (poll ok ts s) (\<lambda>(wrote, s'). fine p k s')"
  using assms
proof (induction ts arbitrary: s)
  case (Cons t ts)
  obtain got s1 where a: "acquire s = (got, s1)" by force
  have s: "fine p (Suc (k + length ts + 1)) s" using Cons.prems(1) by simp
  note f = acquire_fine [OF a s]
  have q: "0 < in_queue (cluster_of s1) (us_w s1)" using f(2,3) Cons.prems(2) by simp
  have low: "fine p (Suc k) s1" using fine_mono [OF f(1)] by simp
  show ?case
  proof (cases got)
    case True
    with a show ?thesis by (simp, intro ends_bind [OF leave_ends [OF low q]]) simp
  next
    case False
    show ?thesis
    proof (cases t)
      case Tick
      with Cons.IH [OF f(1) q] Cons.prems(3) a False show ?thesis by simp
    next
      case CtxDone
      with a False show ?thesis by (simp, intro ends_bind [OF leave_ends [OF low q]]) simp
    qed
  qed
qed simp

lemma wait_ends_fine:
  assumes "fine p (k + l + 2) s" "wait_ends l ts"
  shows "ends (waitForCapacity u ok ts s) (\<lambda>(wrote, s'). fine p k s')"
proof (cases "\<exists>cp. fmlookup (up_pending u) (cluster_of s) = Some cp \<and> queued (others s) < cp")
  case True
  let ?s = "tally (AddGauge (pending_gauge (cluster_of (others s))) 1) (set_queued (Suc (queued (others s))) (others s))"
  have "fine p (k + length ts + 1) (others s)"
    by (rule others_fine, rule fine_mono [OF assms(1)]) (use assms(2) in \<open>simp add: wait_ends_def\<close>)
  moreover have "0 < in_queue (cluster_of ?s) (us_w ?s)" by (simp add: in_queue_def tally_def set_queued_def cluster_of_def)
  ultimately have "ends (poll ok ts ?s) (\<lambda>(wrote, s'). fine p k s')"
    using assms(2) by (intro poll_ends) (simp_all add: wait_ends_def)
  with True show ?thesis by (auto simp: waitForCapacity_def Let_def)
next
  case False
  have "fine p k s" "fine p k (others s)"
    using fine_mono [OF assms(1), of k] fine_mono [OF assms(1), of "Suc k"] others_fine by auto
  with False show ?thesis by (auto simp: waitForCapacity_def Let_def split: option.splits)
qed

section \<open>Back-off\<close>

text \<open>The back-off of a policy does not overflow within the given number of attempts.\<close>

definition or_default :: "Duration \<Rightarrow> Duration \<Rightarrow> Duration" where
  "or_default d v = (if v \<le> 0 then d else v)"

definition backoff_fits :: "retryCfg \<Rightarrow> int \<Rightarrow> bool" where
  "backoff_fits pol maxA \<longleftrightarrow> backoffMax pol < 2 ^ 62 \<and>
     or_default (dur_of 50 Millisecond) (backoffBase pol) * 2 ^ nat maxA < 2 ^ 63"

lemma default_pos: "0 < or_default (dur_of 50 Millisecond) v" "0 < or_default (dur_of 500 Millisecond) v"
    "dur_of 500 Millisecond < 2 ^ 62"
  by (simp_all add: or_default_def dur_of_def Millisecond_def wrap64_def)

lemma backoff_default:
  "backoffWithJitter f base mx attempt =
     backoffWithJitter f (or_default (dur_of 50 Millisecond) base) (or_default (dur_of 500 Millisecond) mx) attempt"
proof -
  have "0 < dur_of 50 Millisecond" "0 < dur_of 500 Millisecond" by (simp_all add: dur_of_def Millisecond_def wrap64_def)
  then show ?thesis by (simp add: backoffWithJitter_def or_default_def)
qed

lemma backoff_ends:
  assumes "backoff_fits pol maxA" "int63n_ok f" "attempt \<le> maxA"
  shows "ends (backoffWithJitter f (backoffBase pol) (backoffMax pol) attempt) (\<lambda>_. True)"
proof -
  let ?base = "or_default (dur_of 50 Millisecond) (backoffBase pol)" and ?mx = "or_default (dur_of 500 Millisecond) (backoffMax pol)"
  have "?base * 2 ^ nat attempt \<le> ?base * 2 ^ nat maxA" using default_pos(1) assms(3) by (simp add: nat_mono)
  then have "?base * 2 ^ nat attempt < 2 ^ 63" using assms(1) unfolding backoff_fits_def by linarith
  moreover have "?mx < 2 ^ 62" using assms(1) default_pos(3) by (simp add: backoff_fits_def or_default_def)
  ultimately show ?thesis
    using backoff_ok [OF default_pos(1) default_pos(2), of "backoffBase pol" attempt "backoffMax pol" f] assms(2)
    by (subst backoff_default) (auto simp: ends_def)
qed

section \<open>One attempt\<close>

lemma on_failure_ends:
  assumes "fine p (k + 3) s" "backoff_fits pol maxA" "int63n_ok (ae_int63n e)"
  shows "ends (on_failure pol maxA e attempt ep err s) (\<lambda>(st, s'). fine p k s')"
proof -
  let ?s = "release_slot (call (EpDec ep) (DecEndpointInFlight (cluster_of s) ep)
      (tally (IncUpstreamOutcome (cluster_of s) (outcome_label err)) (tally (Inc ''upstream_failures_total'')
        (call (Failure ep) (ReportFailure (cluster_of s) ep (ae_fail_now e)) s))))"
  have "fine p (Suc (Suc (Suc k))) s" using assms(1) by (simp add: numeral_3_eq_3)
  then have "fine p k ?s" by (intro fine_release fine_call once_dec) (simp add: fine_call once_failure)
  then show ?thesis
    unfolding on_failure_def Let_def
    by (auto intro!: ends_bind [OF backoff_ends [OF assms(2,3)]] split: option.splits)
qed

lemma on_response_fine:
  assumes "fine p (k + 3) s"
  shows "fine p k (snd (on_response rng e ep resp s))"
proof (cases "ae_write e")
  case (Some d)
  have "fine p (Suc (Suc k)) s" using fine_mono [OF assms] by simp
  with Some show ?thesis by (simp add: on_response_def Let_def fine_release fine_call once_dec)
next
  case None
  have "fine p (Suc (Suc (Suc k))) s" using fine_mono [OF assms] by simp
  with None show ?thesis by (simp add: on_response_def Let_def fine_release fine_call once_dec once_success)
qed

lemma try_endpoint_ends:
  assumes "fine p (k + 4) s" "env_ok l e" "backoff_fits pol maxA"
  shows "ends (try_endpoint rng u pol maxA e attempt ep s) (\<lambda>(st, s'). fine p k s')"
proof -
  let ?s = "call (EpInc ep) (IncEndpointInFlight (cluster_of s) ep)
      (tally (Inc ''upstream_attempts_total'') (s\<lparr>us_rc := (us_rc s)\<lparr>rc_UpstreamAddr := ep\<rparr>\<rparr>))"
  have "fine p (Suc (k + 3)) s" using assms(1) by (simp add: numeral_eq_Suc)
  then have inc: "fine p (k + 3) ?s" by (intro fine_call once_inc) simp
  then have "fine p (k + 3) (?s\<lparr>us_trace := t, us_rc := rc\<rparr>)" for t rc by simp
  from on_failure_ends [OF this assms(3)] on_response_fine [OF this] fine_mono [OF inc, of k] assms(2) show ?thesis
    unfolding try_endpoint_def Let_def by (auto simp: env_ok_def case_prod_beta split: sum.splits)
qed

lemma pick_and_try_ends:
  assumes "fine p (k + l + 5) s" "env_ok l e" "backoff_fits pol maxA"
  shows "ends (pick_and_try rng u pol maxA e attempt s) (\<lambda>(st, s'). fine p k s')"
proof -
  have rnd: "rnd_ok (ae_rnd e)" and cap: "wait_ends l (ae_cap_wait e)" using assms(2) by (simp_all add: env_ok_def)
  have "fine p (Suc (k + l + 4)) s" using assms(1) by (simp add: numeral_eq_Suc)
  then have pick: "ends (picked (ae_rnd e) (ae_now e) s) (\<lambda>(r, s'). fine p (k + l + 4) s')"
    using rnd by (rule picked_ends)
  have wait: "ends (waitForCapacity u (ae_cap_ok e) (ae_cap_wait e) (release_slot t)) (\<lambda>(wrote, s'). fine p k s')"
    if "fine p (k + l + 4) t" for t
    using fine_mono [OF that, of "Suc (k + l + 2)"] cap by (intro wait_ends_fine fine_release) simp_all
  have try': "ends (try_endpoint rng u pol maxA e attempt ep t) (\<lambda>(st, s'). fine p k s')"
    if "fine p (k + l + 4) t" for t ep
    using fine_mono [OF that] assms(2,3) by (intro try_endpoint_ends) simp_all
  have unknown: "fine p k t" if "fine p (k + l + 4) t" for t using fine_mono [OF that] by simp
  show ?thesis
    unfolding pick_and_try_def
    by (rule ends_bind [OF pick])
      (auto simp: trip_def intro!: try' unknown ends_bind [OF wait] split: sum.splits pick_error.splits)
qed

lemma one_attempt_ends:
  assumes "fine p (k + attempt_calls l) s" "env_ok l e" "backoff_fits pol maxA"
  shows "ends (one_attempt rng u pol maxA e attempt s) (\<lambda>(st, s'). fine p k s')"
proof -
  obtain got s1 where a: "acquire s = (got, s1)" by force
  have "fine p (Suc (k + l + 5 + l + 2)) s" by (rule fine_mono [OF assms(1)]) (simp add: attempt_calls_def)
  note f = acquire_fine(1) [OF a this]
  have pick: "ends (pick_and_try rng u pol maxA e attempt t) (\<lambda>(st, s'). fine p k s')"
    if "fine p (k + l + 5) t" for t
    using pick_and_try_ends [OF that assms(2,3)] .
  have wait: "ends (waitForCapacity u (ae_wait_ok e) (ae_wait e) s1) (\<lambda>(wrote, s'). fine p (k + l + 5) s')"
    using wait_ends_fine [OF f] assms(2) unfolding env_ok_def by blast
  show ?thesis
  proof (cases got)
    case True
    then show ?thesis using a pick fine_mono [OF f] by (simp add: one_attempt_def)
  next
    case False
    have "ends (if wrote then Ret (trip t) else pick_and_try rng u pol maxA e attempt t) (\<lambda>(st, s'). fine p k s')"
      if "fine p (k + l + 5) t" for wrote t
      using pick [OF that] fine_mono [OF that, of k] by (simp add: trip_def)
    then have "ends (go_bind (waitForCapacity u (ae_wait_ok e) (ae_wait e) s1) (\<lambda>(wrote, s).
        if wrote then Ret (trip s) else pick_and_try rng u pol maxA e attempt s)) (\<lambda>(st, s'). fine p k s')"
      by (intro ends_bind [OF wait]) (simp only: case_prod_beta)
    then show ?thesis using a False by (simp add: one_attempt_def)
  qed
qed

section \<open>The loop\<close>

lemma attempt_loop_ends:
  assumes "fine p (k + nat (maxA - attempt) * attempt_calls l) s" "\<forall>i. env_ok l (envs i)" "backoff_fits pol maxA"
  shows "ends (attempt_loop rng u pol maxA envs attempt lastErr s) (\<lambda>(e, s'). fine p k s')"
  using assms
proof (induction rng u pol maxA envs attempt lastErr s rule: attempt_loop.induct)
  case (1 rng u pol maxA envs attempt lastErr s)
  note unfold = attempt_loop.simps [of _ _ _ _ _ attempt]
  show ?case
  proof (cases "attempt < maxA")
    case True
    let ?rest = "nat (maxA - (attempt + 1))"
    have "nat (maxA - attempt) = Suc ?rest" using True by simp
    then have "fine p (k + ?rest * attempt_calls l + attempt_calls l) s" using 1(2) by (simp add: algebra_simps)
    from one_attempt_ends [OF this, of "envs (nat attempt)"] 1(3,4) obtain st s' where
      run: "one_attempt rng u pol maxA (envs (nat attempt)) attempt s = Ret (st, s')" and
      f: "fine p (k + ?rest * attempt_calls l) s'"
      by (fastforce simp: ends_def)
    show ?thesis
    proof (cases st)
      case (Done e)
      with run True fine_mono [OF f, of k] show ?thesis by (simp add: unfold)
    next
      case (Next le a)
      have "a = attempt \<or> a = maxA" using one_attempt_next run Next by blast
      then have "fine p (k + nat (maxA - (a + 1)) * attempt_calls l) s'" using fine_mono [OF f] by auto
      with 1(1) [OF True run _ Next] 1(3,4) run Next True show ?thesis by (simp add: unfold)
    qed
  next
    case False
    with fine_mono [OF 1(2), of k] show ?thesis by (simp add: unfold)
  qed
qed

lemma upstream_ends:
  assumes "maxA = max_attempts (request_policy u (us_rc s)) (rc_Req (us_rc s))"
    and "fine p (k + nat maxA * attempt_calls l) s" "\<forall>i. env_ok l (envs i)" "backoff_fits (request_policy u (us_rc s)) maxA"
  shows "ends (Upstream_OnRequest rng u envs s) (\<lambda>(e, s'). fine p k s')"
proof -
  have "fine p k s" "fine p (k + nat (maxA - 0) * attempt_calls l) s" using fine_mono [OF assms(2), of k] assms(2) by simp_all
  with attempt_loop_ends [OF this(2) assms(3,4), of rng u None] show ?thesis
    by (simp add: Upstream_OnRequest_def Let_def assms(1))
qed

section \<open>A manager that has just started has room\<close>

definition fresh :: "Cluster \<Rightarrow> bool" where
  "fresh c \<longleftrightarrow> rr c = 0 \<and> inflight c = 0 \<and> (\<forall>a st. fmlookup (state c) a = Some st \<longrightarrow> inFlight st = 0)"

definition all_fresh :: "Manager \<Rightarrow> bool" where
  "all_fresh cm \<longleftrightarrow> (\<forall>n c. fmlookup cm n = Some c \<longrightarrow> fresh c)"

lemma fresh_new: "fresh (new_cluster s)"
proof -
  have seed: "fresh (seed_endpoint c e)" if "fresh c" for c e
    using that by (auto simp: seed_endpoint_def add_endpoint_def ensure_state_def fresh_def Let_def new_epState_def
        split: sum.splits option.splits)
  have "fresh (foldl seed_endpoint c es)" if "fresh c" for c es
    using that by (induction es arbitrary: c) (auto simp: seed)
  moreover have "fresh (blank_cluster s)" by (simp add: fresh_def blank_cluster_def)
  ultimately have "fresh (foldl seed_endpoint (blank_cluster s) (cs_Endpoints s))" by blast
  moreover have "fresh (breaker_limits b c) = fresh c" for b c
    by (cases b) (simp_all add: breaker_limits_def fresh_def)
  moreover have "fresh (c\<lparr>hc := h\<rparr>) = fresh c" "fresh (c\<lparr>lbPolicy := p\<rparr>) = fresh c" for c h p
    by (simp_all add: fresh_def)
  ultimately show ?thesis by (simp add: new_cluster_def Let_def)
qed

lemma fresh_new_manager: "new_manager m ss = Inr m' \<Longrightarrow> all_fresh m \<Longrightarrow> all_fresh m'"
proof (induction m ss rule: new_manager.induct)
  case (2 m s ss)
  have "all_fresh (fmupd (cs_Name s) (new_cluster s) m)" using 2(3) fresh_new by (simp add: all_fresh_def)
  with 2 show ?case by (simp split: if_splits)
qed simp

lemma fresh_start: "fresh c \<Longrightarrow> fresh (fst (start_cluster ctx c))"
proof -
  have one: "fresh (startHealthCheck ep c) = fresh c" for ep c by (simp add: startHealthCheck_def fresh_def)
  have "fresh (foldl (\<lambda>c ep. startHealthCheck ep c) c eps) = fresh c" for c eps
    by (induction eps arbitrary: c) (simp_all add: one)
  then show "fresh c \<Longrightarrow> fresh (fst (start_cluster ctx c))" by (simp add: start_cluster_def Let_def) (simp add: fresh_def)
qed

lemma all_fresh_start: "all_fresh (fst a) \<Longrightarrow> all_fresh (fst (foldl (start_one ctx) a ns))"
proof (induction ns arbitrary: a)
  case (Cons n ns)
  have "all_fresh (fst (start_one ctx a n))"
    using Cons.prems fresh_start [of _ ctx]
    by (cases a) (auto simp: start_one_def all_fresh_def case_prod_beta split: option.splits)
  with Cons.IH show ?case by simp
qed simp

lemma headroom_init:
  assumes "manager_init s" "b < 2 ^ 63"
  shows "headroom b (mgr s)"
proof -
  obtain specs cm rng ctx spawned where s: "NewManager specs = Inr cm" "Start rng ctx cm = (mgr s, spawned)"
    using assms(1) by (auto simp: manager_init_def)
  have "all_fresh cm" using s(1) fresh_new_manager by (auto simp: NewManager_def all_fresh_def)
  then have "all_fresh (mgr s)" using all_fresh_start [of "(cm, [])"] s(2) by (simp add: Start_def) (metis fst_conv)
  moreover have "roomy b c" if "fresh c" for c
  proof -
    have "int b < 2 ^ 63" using assms(2) by simp
    with that show ?thesis by (simp add: roomy_def fresh_def)
  qed
  ultimately show ?thesis unfolding headroom_def all_fresh_def by blast
qed

end
