(* ===== verification/GP_Connection.thy ===== *)
theory GP_Connection
  imports GP_Hcm GP_Returns
begin

text \<open>
  A whole connection: what the connection manager has done does not depend on input that has not
  arrived yet, and under a bounded configuration every connection ends, whatever the requests are, with
  the cluster manager in a state that its transition system reaches. The budget of \<open>GP_Returns\<close> is
  carried from one request to the next.
\<close>

section \<open>More input\<close>

text \<open>A connection that has ended stays as it is when there is more input; one that waits goes on.\<close>

lemma Handle_more: "Handle filters c ins k \<le> Handle filters c (ins @ later) k"
proof (induction filters c ins k rule: Handle.induct)
  case (3 filters c e req ins k)
  have "(case x of (v, k) \<Rightarrow> case v of Return r \<Rightarrow> Ret (r, k) | Continue \<Rightarrow> Handle filters c ins k) \<le>
      (case x of (v, k) \<Rightarrow> case v of Return r \<Rightarrow> Ret (r, k) | Continue \<Rightarrow> Handle filters c (ins @ later) k)" for x
    using 3 [OF refl] by (simp split: prod.split verdict.split)
  then show ?case by (simp add: go_bind_mono)
qed simp_all

lemma Execute_more: "Chain_Execute nfs c (inss @ [ins]) k \<le> Chain_Execute nfs c (inss @ [ins @ later]) k"
proof (induction nfs c "inss" k rule: Chain_Execute.induct)
  case (3 filters nfs c k)
  have "(case x of (err, k) \<Rightarrow> case err of Some y \<Rightarrow> Ret (Some y, k) | None \<Rightarrow> Chain_Execute nfs c [] k) \<le>
      (case x of (err, k) \<Rightarrow> case err of Some y \<Rightarrow> Ret (Some y, k) | None \<Rightarrow> Chain_Execute nfs c [] k)" for x
    by simp
  then show ?case by (simp add: go_bind_mono Handle_more)
next
  case (4 filters nfs c ins' inss k)
  have "(case x of (err, k) \<Rightarrow> case err of Some y \<Rightarrow> Ret (Some y, k) | None \<Rightarrow> Chain_Execute nfs c (inss @ [ins]) k) \<le>
      (case x of (err, k) \<Rightarrow> case err of Some y \<Rightarrow> Ret (Some y, k) | None \<Rightarrow> Chain_Execute nfs c (inss @ [ins @ later]) k)" for x
    using 4 [OF refl] by (simp split: prod.split option.split)
  then show ?case by (simp add: go_bind_mono)
qed simp_all

section \<open>Bounded policies\<close>

definition policy_ok :: "nat \<Rightarrow> retryCfg \<Rightarrow> bool" where
  "policy_ok M pol \<longleftrightarrow> 0 \<le> maxRetries pol \<and> maxRetries pol < int M \<and> backoffMax pol < 2 ^ 62 \<and>
     backoffBase pol * 2 ^ M < 2 ^ 63"

text \<open>The retry policies of a configuration allow at most \<open>M\<close> attempts, with back-offs that fit.\<close>

definition retries_ok :: "nat \<Rightarrow> ProxyConfig \<Rightarrow> bool" where
  "retries_ok M cfg \<longleftrightarrow> 0 < M \<and> M \<le> 37 \<and>
     (\<forall>cs \<in> set (Clusters cfg). policy_ok M (cluster_retry (cs_RetryPolicy cs))) \<and>
     (\<forall>rr \<in> set (Routes cfg). \<forall>rp. rr_RetryPolicy rr = Some rp \<longrightarrow> policy_ok M (route_retry rp))"

lemma cluster_policy:
  "fmlookup (up_retry (NewUpstreamProxy css)) n = Some pol \<Longrightarrow> \<exists>cs \<in> set css. pol = cluster_retry (cs_RetryPolicy cs)"
proof (induction css rule: rev_induct)
  case (snoc cs css)
  have "up_retry (add_upstream up cs) = fmupd (cs_Name cs) (cluster_retry (cs_RetryPolicy cs)) (up_retry up)" for up
    by (auto simp: add_upstream_def Let_def split: option.splits)
  with snoc show ?case by (auto simp: NewUpstreamProxy_def split: if_splits)
qed (simp add: NewUpstreamProxy_def)

lemma request_policy_ok:
  assumes "retries_ok M cfg" "\<And>ov. rc_RetryOverride rc = Some ov \<Longrightarrow> policy_ok M ov"
  shows "policy_ok M (request_policy (NewUpstreamProxy (Clusters cfg)) rc)"
proof -
  let ?up = "NewUpstreamProxy (Clusters cfg)"
  have zero: "policy_ok M zero_retry" using assms(1) by (simp add: policy_ok_def zero_retry_def retries_ok_def)
  have "policy_ok M pol" if "fmlookup (up_retry ?up) (rc_UpstreamCluster rc) = Some pol" for pol
    using cluster_policy [OF that] assms(1) by (auto simp: retries_ok_def)
  with zero have "policy_ok M (case fmlookup (up_retry ?up) (rc_UpstreamCluster rc) of None \<Rightarrow> zero_retry | Some p \<Rightarrow> p)"
    by (simp split: option.splits)
  then show ?thesis
    using assms(2) by (auto simp: request_policy_def merge_retry_def policy_ok_def split: option.splits)
qed

lemma policy_bounds:
  assumes "policy_ok M pol" "0 < M" "M \<le> 37"
  shows "nat (max_attempts pol req) \<le> M" "backoff_fits pol (max_attempts pol req)"
proof -
  have wrap: "wrap64 (1 + maxRetries pol) = 1 + maxRetries pol"
    using assms by (intro wrap64_id) (simp add: policy_ok_def in_i64_def)
  then show le: "nat (max_attempts pol req) \<le> M"
    using assms by (auto simp: max_attempts_def policy_ok_def)
  let ?b = "or_default (dur_of 50 Millisecond) (backoffBase pol)"
  have "(2 :: int) ^ nat (max_attempts pol req) \<le> 2 ^ M" using le by (intro power_increasing) simp_all
  then have "?b * 2 ^ nat (max_attempts pol req) \<le> ?b * 2 ^ M"
    using default_pos(1) [of "backoffBase pol"] by simp
  also have "\<dots> < 2 ^ 63"
  proof (cases "backoffBase pol \<le> 0")
    case True
    have "(2 :: int) ^ M \<le> 2 ^ 37" using assms(3) by (intro power_increasing) simp_all
    with True show ?thesis by (simp add: or_default_def dur_of_def Millisecond_def wrap64_def)
  next
    case False
    with assms(1) show ?thesis by (simp add: or_default_def policy_ok_def)
  qed
  finally show "backoff_fits pol (max_attempts pol req)"
    using assms(1) by (simp add: backoff_fits_def policy_ok_def)
qed

section \<open>The chain of a request returns\<close>

lemma routed_override:
  assumes "rc_RetryOverride rc = None" "rc_RetryOverride (routed e cfg rc) = Some ov"
  shows "\<exists>rr \<in> set (Routes cfg). \<exists>rp. rr_RetryPolicy rr = Some rp \<and> ov = route_retry rp"
proof -
  let ?f = "NewRouteOptionsFilter (Routes cfg)" and ?rc = "Router_OnRequest (Routes cfg) rc"
  have "rc_RetryOverride ?rc = None"
    using assms(1) by (auto simp: Router_OnRequest_def route_loop_spec split: option.splits)
  then have look: "fmlookup (ro_retry ?f) (nat (rc_RouteID ?rc)) = Some ov"
    using assms(2) by (auto simp: routed_def RouteOptions_OnRequest_def Let_def split: option.splits if_splits)
  let ?i = "nat (rc_RouteID ?rc)"
  have "fmlookup (ro_retry ?f) ?i = Option.bind (if ?i < length (Routes cfg) then Some (Routes cfg ! ?i) else None)
      (\<lambda>rr. map_option route_retry (rr_RetryPolicy rr))"
    using NewRouteOptionsFilter_at [of "Routes cfg" ?i] by (simp add: route_opts_at_def)
  with look obtain rp where "?i < length (Routes cfg)" "rr_RetryPolicy (Routes cfg ! ?i) = Some rp" "ov = route_retry rp"
    by (auto split: if_splits)
  then show ?thesis by (metis nth_mem)
qed

lemma proxied_ends:
  assumes "retries_ok M cfg" "\<forall>i. env_ok l (re_attempts e i)" "rc_RetryOverride (us_rc (cs_us s)) = None"
    and "fine p (k + M * attempt_calls l) (cs_us s)"
  shows "ends (proxied e cfg s) (\<lambda>(err, s'). fine p k (cs_us s') \<and> cs_rl s' = cs_rl s)"
proof -
  let ?us = "cs_us (on_rc (routed e cfg) s)" and ?u = "NewUpstreamProxy (Clusters cfg)"
  let ?pol = "request_policy ?u (us_rc ?us)" and ?maxA = "max_attempts (request_policy ?u (us_rc ?us)) (rc_Req (us_rc ?us))"
  have "policy_ok M ov" if "rc_RetryOverride (us_rc ?us) = Some ov" for ov
    using routed_override [OF assms(3)] that assms(1) by (fastforce simp: on_rc_def retries_ok_def)
  then have ok: "policy_ok M ?pol" using request_policy_ok [OF assms(1)] by blast
  have M: "0 < M" "M \<le> 37" using assms(1) by (auto simp: retries_ok_def)
  note bounds = policy_bounds [OF ok M, of "rc_Req (us_rc ?us)"]
  have "k + nat ?maxA * attempt_calls l \<le> k + M * attempt_calls l" using bounds(1) by simp
  then have "fine p (k + nat ?maxA * attempt_calls l) ?us"
    using fine_mono [OF assms(4)] by (simp add: on_rc_def)
  then have "ends (Upstream_OnRequest (re_rng e) ?u (re_attempts e) ?us) (\<lambda>(err, us). fine p k us)"
    using assms(2) bounds(2) by (intro upstream_ends [OF refl]) simp_all
  then show ?thesis unfolding proxied_def by (rule ends_bind) auto
qed

definition rl_fine :: "(rat \<Rightarrow> rat) \<Rightarrow> RateLimiter option \<Rightarrow> bool" where
  "rl_fine fl rlo = (case rlo of None \<Rightarrow> True | Some rl \<Rightarrow> limiter_ok fl rl)"

text \<open>
  What a request meets: other goroutines within their budget, waits that end, and other connections
  that keep the rate limiter well formed.
\<close>

definition req_ok :: "(rat \<Rightarrow> rat) \<Rightarrow> nat \<Rightarrow> nat \<Rightarrow> req_env \<Rightarrow> bool" where
  "req_ok fl p l e \<longleftrightarrow> (\<forall>i. others_ok p (re_sched e i)) \<and> (\<forall>i. env_ok l (re_attempts e i)) \<and> re_fl e = fl \<and>
     (\<forall>rl. rl_fine fl rl \<longrightarrow> rl_fine fl (re_rl_others e rl))"

lemma limiter_ends:
  assumes "rounding fl" "rl_fine fl rlo"
  shows "ends (RateLimiter_OnRequest fl created now ok rlo (rc, m))
    (\<lambda>(rl, rc', m'). rl_fine fl rl \<and> rc_RetryOverride rc' = rc_RetryOverride rc)"
proof (cases rlo)
  case None
  then show ?thesis by (simp add: RateLimiter_OnRequest_def rl_fine_def)
next
  case (Some rl)
  then have "limiter_ok fl rl" using assms(2) by (simp add: rl_fine_def)
  from rounding.limiter_run [OF assms(1) this, of created now ok rc m] obtain rl' rc' m' where
    run: "RateLimiter_OnRequest fl created now ok (Some rl) (rc, m) = Ret (Some rl', rc', m')" "limiter_ok fl rl'" by blast
  then have "rc_RetryOverride rc' = rc_RetryOverride rc"
    by (auto simp: RateLimiter_OnRequest_def Let_def answer_def case_prod_beta split: option.splits if_splits)
  with run Some show ?thesis by (simp add: rl_fine_def)
qed

lemma chain_ends:
  assumes "rounding fl" "retries_ok M cfg" "req_ok fl p l e" "rc_RetryOverride (us_rc (cs_us s)) = None" "rl_fine fl (cs_rl s)"
    and "fine p (k + M * attempt_calls l) (cs_us s)"
  shows "ends (Chain_Run e (http_filters hl cfg) s) (\<lambda>(err, s'). fine p k (cs_us s') \<and> rl_fine fl (cs_rl s'))"
proof -
  let ?s = "prepared e s"
  have s: "rc_RetryOverride (us_rc (cs_us ?s)) = None" "fine p (k + M * attempt_calls l) (cs_us ?s)" "cs_rl ?s = cs_rl s"
    using assms(4,6) by (simp_all add: prepared_def on_rc_def ForwardedHeaders_OnRequest_def Let_def case_prod_beta)
  have env: "\<forall>i. env_ok l (re_attempts e i)" "re_fl e = fl" "rl_fine fl (re_rl_others e (cs_rl ?s))"
    using assms(3,5) s(3) by (auto simp: req_ok_def)
  have proxied: "ends (proxied e cfg t) (\<lambda>(err, s'). fine p k (cs_us s') \<and> rl_fine fl (cs_rl s'))"
    if "rc_RetryOverride (us_rc (cs_us t)) = None" "fine p (k + M * attempt_calls l) (cs_us t)" "rl_fine fl (cs_rl t)" for t
    by (rule ends_mono [OF proxied_ends [OF assms(2) env(1) that(1,2)]]) (use that(3) in auto)
  show ?thesis
  proof (cases hl)
    case False
    with proxied [OF s(1,2)] s(3) assms(5) show ?thesis by (simp add: chain_unlimited)
  next
    case True
    have "ends (OnRequest e FRateLimit ?s) (\<lambda>(err, t). rc_RetryOverride (us_rc (cs_us t)) = None \<and>
        fine p (k + M * attempt_calls l) (cs_us t) \<and> rl_fine fl (cs_rl t))"
      unfolding OnRequest.simps env(2)
      by (rule ends_bind [OF limiter_ends [OF assms(1) env(3)]]) (use s in \<open>auto simp: fine_def\<close>)
    then have "ends (go_bind (OnRequest e FRateLimit ?s) (\<lambda>(err, s). proxied e cfg s))
        (\<lambda>(err, s'). fine p k (cs_us s') \<and> rl_fine fl (cs_rl s'))"
      by (rule ends_bind) (auto intro: proxied)
    then show ?thesis by (simp only: True chain_limited)
  qed
qed

section \<open>A connection ends\<close>

lemma safe_account [simp]: "safe b (k_w (account e rc status k)) = safe b (k_w k)" "k_rl (account e rc status k) = k_rl k"
  by (simp_all add: account_def)

lemma own_response_frame:
  "safe b (k_w (snd (own_response e req rc status body k))) = safe b (k_w k)"
  "k_rl (snd (own_response e req rc status body k)) = k_rl k"
  by (simp_all add: own_response_def Let_def)

lemma handle_request_ends:
  assumes "rounding fl" "retries_ok M cfg" "req_ok fl p l e" "rl_fine fl (k_rl k)"
    and "safe ((j + M * attempt_calls l) * Suc p) (k_w k)"
  shows "ends (handle_request (http_filters hl cfg) c e req k) (\<lambda>(v, k'). safe (j * Suc p) (k_w k') \<and> rl_fine fl (k_rl k'))"
proof -
  let ?s = "start_state c e req k"
  have "fine p (j + M * attempt_calls l) (cs_us ?s)" "rc_RetryOverride (us_rc (cs_us ?s)) = None" "rl_fine fl (cs_rl ?s)"
    using assms(3-5) by (simp_all add: start_state_def fine_def req_ok_def new_rc_def)
  with chain_ends [OF assms(1-3)] have
    "ends (Chain_Run e (http_filters hl cfg) ?s) (\<lambda>(err, s'). fine p j (cs_us s') \<and> rl_fine fl (cs_rl s'))" by blast
  then show ?thesis
    unfolding handle_request_def
    by (rule ends_bind) (auto simp: Let_def fine_def own_response_frame case_prod_beta split: option.splits)
qed

lemma Handle_ends:
  assumes "rounding fl" "retries_ok M cfg" "\<forall>e req. GotRequest e req \<in> set ins \<longrightarrow> req_ok fl p l e" "GotError r \<in> set ins"
    and "rl_fine fl (k_rl k)" "safe (requests ins * (M * attempt_calls l) * Suc p) (k_w k)"
  shows "ends (Handle (http_filters hl cfg) c ins k) (\<lambda>(err, k'). safe 0 (k_w k') \<and> rl_fine fl (k_rl k'))"
  using assms(3-6)
proof (induction ins arbitrary: k)
  case (Cons i ins)
  show ?case
  proof (cases i)
    case (GotError x)
    with Cons.prems safe_mono [OF Cons.prems(4), of 0] show ?thesis by simp
  next
    case (GotRequest e req)
    let ?j = "requests ins * (M * attempt_calls l)"
    have "req_ok fl p l e" using Cons.prems(1) GotRequest by auto
    moreover have "safe ((?j + M * attempt_calls l) * Suc p) (k_w k)"
      using Cons.prems(4) GotRequest by (simp add: requests_def algebra_simps)
    ultimately have step: "ends (handle_request (http_filters hl cfg) c e req k)
        (\<lambda>(v, k'). safe (?j * Suc p) (k_w k') \<and> rl_fine fl (k_rl k'))"
      using handle_request_ends [OF assms(1,2)] Cons.prems(3) by blast
    have "ends (case v of Return r \<Rightarrow> Ret (r, k') | Continue \<Rightarrow> Handle (http_filters hl cfg) c ins k')
        (\<lambda>(err, k'). safe 0 (k_w k') \<and> rl_fine fl (k_rl k'))"
      if "safe (?j * Suc p) (k_w k')" "rl_fine fl (k_rl k')" for v k'
      using Cons.IH [of k'] Cons.prems(1,2) GotRequest that safe_mono [OF that(1), of 0] by (auto split: verdict.split)
    then show ?thesis unfolding GotRequest Handle.simps by (intro ends_bind [OF step]) auto
  qed
qed simp

end
