(* ===== verification/GP_ProxyProps.thy ===== *)
theory GP_ProxyProps
  imports GP_HttpProps GP_Connection GP_ClusterProps
begin

text \<open>
  What the upstream proxy and the connection manager guarantee: how often a request is sent, what it
  does with its slots, what is forwarded, the back-off, and the responses on a connection.
\<close>

section \<open>Attempts\<close>

text \<open>The endpoint of the example cluster with room for a request that the upstream answers.\<close>

definition free_state :: ustate where
  "free_state = full_state\<lparr>us_w := \<lparr>w_cm = fmupd ''web'' (full_cluster\<lparr>state := fmupd ''a'' new_epState fmempty\<rparr>) fmempty,
     w_reg = empty_registry, w_queue = fmempty\<rparr>\<rparr>"

definition ex_resp :: Response where
  "ex_resp = \<lparr>rs_Status = 200, rs_ProtoMajor = 1, rs_ProtoMinor = 1, rs_Header = fmempty, rs_ContentLength = 2,
     rs_Body = ''ok'', rs_Close = False, rs_Method = ''GET''\<rparr>"

lemma free_run:
  "\<exists>s' oq. Upstream_OnRequest sorted_range ex_up (\<lambda>_. ex_env\<lparr>ae_do := \<lambda>_. Inr ex_resp\<rparr>) free_state = Ret (None, s') \<and>
     us_trace s' = [Acquired, EpInc ''a'', Send oq, Success ''a'', EpDec ''a'', Released]"
proof -
  have c: "cluster_of free_state \<noteq> []" by (simp add: ex_http_defs free_state_def cluster_of_def)
  have m: "max_attempts (request_policy ex_up (us_rc free_state)) (rc_Req (us_rc free_state)) = 1"
    using ex_single by (simp add: free_state_def)
  show ?thesis
    unfolding Upstream_OnRequest_def Let_def m if_not_P [OF c]
    by (subst attempt_loop.simps)
      (simp add: free_state_def ex_http_defs one_attempt_def others_def picked_def acquire_def cluster_of_def TryAcquire_def set_inflight_def
        wrap64_01 pick_and_try_def Pick_def snapshotEndpoints_def pick_random_def isAvailable_def
        underEndpointCap_def Before_def zeroTime_def try_endpoint_def on_response_def case_prod_beta Let_def)
qed




text \<open>The manager of the example cluster, just started.\<close>

definition live_manager :: Manager where
  "live_manager = fst (Start sorted_range 0 (fmupd ''web'' (new_cluster ex_spec) fmempty))"

lemma live_init: "manager_init \<lparr>mgr = live_manager, reg = m, pending = []\<rparr>"
proof -
  have "NewManager [ex_spec] = Inr (fmupd ''web'' (new_cluster ex_spec) fmempty)" "i64_spec ex_spec"
    by (simp_all add: NewManager_def ex_spec_def i64_spec_def)
  then show ?thesis
    by (auto simp: manager_init_def live_manager_def intro!: exI [of _ "[ex_spec]"] prod.collapse [symmetric])
qed

lemma live_ok: "b < 2 ^ 63 \<Longrightarrow> headroom b live_manager" "manager_reachable \<lparr>w_cm = live_manager, w_reg = m, w_queue = q\<rparr>"
  using headroom_init [OF live_init [of empty_registry]] live_init [of m]
  by (auto simp: manager_reachable_def intro: reach_init)

definition live_state :: ustate where
  "live_state = full_state\<lparr>us_w := \<lparr>w_cm = live_manager, w_reg = empty_registry, w_queue = fmempty\<rparr>\<rparr>"

lemma idle_others: "others_ok p (\<lambda>w. w)"
  by (auto simp: others_ok_def intro: safe_mono)

lemma ex_env_ok: "env_ok 2 (ex_env\<lparr>ae_wait := [CtxDone], ae_cap_wait := [Tick, CtxDone]\<rparr>)"
  by (simp add: env_ok_def wait_ends_def ex_env_def rnd_ok_def int63n_ok_def)


text \<open>
  C36. The body of a request survives one attempt only: it is sent with the first one, and every retry
  is sent with what the HTTP client left of it. A client closes the body of every request it is given,
  so a retry never carries the body of the client's request.
\<close>
theorem retry_without_body:
  assumes "Upstream_OnRequest rng u envs s = Ret (e, s')" "us_trace s = []"
    and "\<forall>k b. ae_body (envs k) b = (if b = NoBody then NoBody else BodyClosed)"
  shows "case sent_bodies (us_trace s') of [] \<Rightarrow> True
    | b # bs \<Rightarrow> b = rq_Body (rc_Req (us_rc s)) \<and> set bs \<subseteq> {NoBody, BodyClosed}"
proof (cases "cluster_of s = []")
  case True
  with assms(1,2) show ?thesis by (auto simp: Upstream_OnRequest_def)
next
  case False
  then have loop: "attempt_loop rng u (request_policy u (us_rc s))
      (max_attempts (request_policy u (us_rc s)) (rc_Req (us_rc s))) envs 0 None s = Ret (e, s')"
    using assms(1) by (simp add: Upstream_OnRequest_def Let_def)
  have "\<forall>k b. ae_body (envs k) b \<in> {NoBody, BodyClosed}" using assms(3) by simp
  from loop_bodies [OF loop this] assms(2) show ?thesis by (auto simp: body_of_def split: list.splits)
qed

text \<open>
  A state in which every attempt reaches the only endpoint: no limits and no other goroutines. An
  upstream that fails each time leaves it such a state.
\<close>

definition one_endpoint :: "ustate \<Rightarrow> bool" where
  "one_endpoint s \<longleftrightarrow> cluster_of s = ''web'' \<and> us_sched s = (\<lambda>_ w. w) \<and>
     (\<exists>c. fmlookup (w_cm (us_w s)) ''web'' = Some c \<and> Endpoints c = [''a''] \<and> lbPolicy c = ''random'' \<and>
        epMaxReqs c = 0 \<and> cbMaxReqs c = 0)"

definition closing_env :: attempt_env where
  "closing_env = ex_env\<lparr>ae_body := \<lambda>b. if b = NoBody then NoBody else BodyClosed\<rparr>"

lemma one_endpoint_frame [simp]:
  "one_endpoint (tally f s) = one_endpoint s" "one_endpoint (s\<lparr>us_rc := (us_rc s)\<lparr>rc_UpstreamAddr := a\<rparr>\<rparr>) = one_endpoint s"
  "rc_UpstreamCluster rc = rc_UpstreamCluster (us_rc s) \<Longrightarrow> one_endpoint (s\<lparr>us_trace := t, us_rc := rc\<rparr>) = one_endpoint s"
  by (simp_all add: one_endpoint_def tally_def cluster_of_def)

lemma one_endpoint_calls:
  assumes "one_endpoint s"
  shows "one_endpoint (call a (IncEndpointInFlight n ep) s)" "one_endpoint (call a (DecEndpointInFlight n ep) s)"
    "one_endpoint (call a (ReportFailure n ep now) s)" "one_endpoint (release_slot s)"
  using assms
  by (auto simp: one_endpoint_def call_def others_def cluster_of_def release_slot_def Let_def case_prod_beta IncEndpointInFlight_def
      DecEndpointInFlight_def ReportFailure_def markFailure_def Release_def set_st_def set_inflight_def split: option.splits)

lemma one_endpoint_start:
  assumes "one_endpoint s"
  shows "\<exists>s1 s2. acquire s = (True, s1) \<and> picked (\<lambda>n. 0) now s1 = Ret (Inr ''a'', s2) \<and> one_endpoint s2 \<and>
    us_trace s2 = us_trace s @ [Acquired]"
  using assms
  by (auto simp: one_endpoint_def acquire_def others_def cluster_of_def TryAcquire_def set_inflight_def picked_def Pick_def
      snapshotEndpoints_def pick_random_def underEndpointCap_def Let_def)

lemma failing_response:
  assumes "one_endpoint s" "a < maxA - 1 \<Longrightarrow> \<exists>d. backoffWithJitter (\<lambda>n. 0) (backoffBase pol) (backoffMax pol) a = Ret d"
  shows "\<exists>s'. on_failure pol maxA closing_env a ''a'' err s = Ret (Next (Some err) a, s') \<and> one_endpoint s' \<and>
    us_trace s' = us_trace s @ [Failure ''a'', EpDec ''a'', Released]"
  using assms by (auto simp: on_failure_def closing_env_def ex_env_def Let_def one_endpoint_calls)

lemma failing_attempt:
  assumes "one_endpoint s" "a < maxA - 1 \<Longrightarrow> \<exists>d. backoffWithJitter (\<lambda>n. 0) (backoffBase pol) (backoffMax pol) a = Ret d"
  shows "\<exists>s' oq. one_attempt rng u pol maxA closing_env a s = Ret (Next (Some (ClientError False False)) a, s') \<and> one_endpoint s' \<and>
    us_trace s' = us_trace s @ [Acquired, EpInc ''a'', Send oq, Failure ''a'', EpDec ''a'', Released]"
proof -
  obtain s1 s2 where start: "acquire s = (True, s1)" "picked (\<lambda>n. 0) 7 s1 = Ret (Inr ''a'', s2)" "one_endpoint s2"
      "us_trace s2 = us_trace s @ [Acquired]"
    using one_endpoint_start [OF assms(1)] by blast
  define s3 where "s3 = call (EpInc ''a'') (IncEndpointInFlight (cluster_of s2) ''a'')
    (tally (Inc ''upstream_attempts_total'') (s2\<lparr>us_rc := (us_rc s2)\<lparr>rc_UpstreamAddr := ''a''\<rparr>\<rparr>))"
  define oq where "oq = build_request rng u pol (us_rc s3) ''a''"
  define s4 where "s4 = s3\<lparr>us_trace := us_trace s3 @ [Send oq],
    us_rc := (us_rc s3)\<lparr>rc_Req := (rc_Req (us_rc s3))\<lparr>rq_Body := ae_body closing_env (oq_Body oq)\<rparr>\<rparr>\<rparr>"
  have "one_attempt rng u pol maxA closing_env a s = try_endpoint rng u pol maxA closing_env a ''a'' s2"
    using start by (simp add: one_attempt_def pick_and_try_def closing_env_def ex_env_def)
  also have "\<dots> = on_failure pol maxA closing_env a ''a'' (ClientError False False) s4"
    unfolding try_endpoint_def Let_def s3_def [symmetric] oq_def [symmetric] s4_def [symmetric]
    by (simp add: closing_env_def ex_env_def)
  finally have run: "one_attempt rng u pol maxA closing_env a s = on_failure pol maxA closing_env a ''a'' (ClientError False False) s4" .
  have s3: "one_endpoint s3" "us_trace s3 = us_trace s @ [Acquired, EpInc ''a'']"
    using start(3,4) by (simp_all add: s3_def one_endpoint_calls)
  then have "one_endpoint s4" "us_trace s4 = us_trace s @ [Acquired, EpInc ''a'', Send oq]" by (simp_all add: s4_def)
  with failing_response [OF this(1) assms(2), where err = "ClientError False False"] run show ?thesis by fastforce
qed

text \<open>A policy with one retry for every method.\<close>

definition retry_up :: UpstreamProxy where
  "retry_up = ex_up\<lparr>up_retry := fmupd ''web'' (zero_retry\<lparr>maxRetries := 1\<rparr>) fmempty\<rparr>"

definition body_state :: ustate where
  "body_state = full_state\<lparr>us_rc := (us_rc full_state)\<lparr>rc_Req := ex_req\<lparr>rq_Body := Unread ''data''\<rparr>\<rparr>,
     us_w := \<lparr>w_cm = fmupd ''web'' (full_cluster\<lparr>epMaxReqs := 0\<rparr>) fmempty, w_reg = empty_registry, w_queue = fmempty\<rparr>\<rparr>"

lemma retry_run:
  "\<exists>s' oq oq'. Upstream_OnRequest sorted_range retry_up (\<lambda>_. closing_env) body_state = Ret (Some (Upstream (ClientError False False)), s') \<and>
     us_trace s' = [Acquired, EpInc ''a'', Send oq, Failure ''a'', EpDec ''a'', Released,
       Acquired, EpInc ''a'', Send oq', Failure ''a'', EpDec ''a'', Released]"
proof -
  let ?pol = "request_policy retry_up (us_rc body_state)"
  have pol: "?pol = zero_retry\<lparr>maxRetries := 1\<rparr>"
    by (simp add: ex_http_defs body_state_def retry_up_def request_policy_def merge_retry_def)
  have m: "max_attempts ?pol (rc_Req (us_rc body_state)) = 2"
    unfolding pol by (simp add: max_attempts_def zero_retry_def wrap64_def)
  have b: "\<exists>d. backoffWithJitter (\<lambda>n. 0) (backoffBase ?pol) (backoffMax ?pol) 0 = Ret d"
    unfolding pol by (simp add: zero_retry_def backoffWithJitter_def dur_of_def Millisecond_def wrap64_def signed_divide_int_def)
  have s: "one_endpoint body_state" "us_trace body_state = []" "cluster_of body_state \<noteq> []"
    by (simp_all add: one_endpoint_def body_state_def full_state_def full_cluster_def cluster_of_def)
  obtain s1 oq where one: "one_attempt sorted_range retry_up ?pol 2 closing_env 0 body_state = Ret (Next (Some (ClientError False False)) 0, s1)"
      "one_endpoint s1" "us_trace s1 = [Acquired, EpInc ''a'', Send oq, Failure ''a'', EpDec ''a'', Released]"
    using failing_attempt [OF s(1), of 0 2 ?pol] b s(2) by fastforce
  obtain s2 oq' where two: "one_attempt sorted_range retry_up ?pol 2 closing_env 1 s1 = Ret (Next (Some (ClientError False False)) 1, s2)"
      "us_trace s2 = us_trace s1 @ [Acquired, EpInc ''a'', Send oq', Failure ''a'', EpDec ''a'', Released]"
    using failing_attempt [OF one(2), of 1 2 ?pol] by fastforce
  have "attempt_loop sorted_range retry_up ?pol 2 (\<lambda>_. closing_env) 0 None body_state = Ret (Some (Upstream (ClientError False False)), s2)"
    using one(1) two(1) by (simp add: attempt_loop.simps [of _ _ _ 2 _ 0] attempt_loop.simps [of _ _ _ 2 _ 1]
        attempt_loop.simps [of _ _ _ 2 _ 2] final_error_def)
  with one(3) two(2) m s(3) show ?thesis by (simp add: Upstream_OnRequest_def Let_def)
qed

theorem retry_without_body_witness:
  "\<exists>s' b bs. Upstream_OnRequest sorted_range retry_up (\<lambda>_. closing_env) body_state =
      Ret (Some (Upstream (ClientError False False)), s') \<and>
     sent_bodies (us_trace s') = b # bs \<and> bs \<noteq> [] \<and> b = Unread ''data'' \<and> set bs \<subseteq> {NoBody, BodyClosed}"
proof -
  obtain s' oq oq' where run:
    "Upstream_OnRequest sorted_range retry_up (\<lambda>_. closing_env) body_state = Ret (Some (Upstream (ClientError False False)), s')"
    "us_trace s' = [Acquired, EpInc ''a'', Send oq, Failure ''a'', EpDec ''a'', Released,
       Acquired, EpInc ''a'', Send oq', Failure ''a'', EpDec ''a'', Released]"
    using retry_run by blast
  have "us_trace body_state = []" by (simp add: body_state_def full_state_def)
  from retry_without_body [OF run(1) this] run show ?thesis
    by (simp add: closing_env_def body_state_def full_state_def)
qed

text \<open>
  C4. The account of circuit-breaker slots: when the handler returns, the slots a request acquired and
  did not release are exactly one for each time it waited for endpoint capacity (it
  acquires again while waiting, and once more at the next attempt), plus one when it returns because
  there is no endpoint or the request cannot be built. On every other path what was acquired is
  released, and the in-flight count of every endpoint is balanced unless the request cannot be built.
\<close>
theorem slot_account:
  assumes "Upstream_OnRequest rng u envs s = Ret (e, s')" "us_trace s = []"
  shows "slot_balance (us_trace s') = int (cap_waits (us_trace s')) + of_bool (leaks_slot e) \<and>
    (e \<noteq> Some BuildFailed \<longrightarrow> (\<forall>ep. ep_balance ep (us_trace s') = 0))"
proof (cases "cluster_of s = []")
  case True
  then show ?thesis
    using assms by (auto simp: Upstream_OnRequest_def slot_balance_def cap_waits_def ep_balance_def)
next
  case False
  then have loop: "attempt_loop rng u (request_policy u (us_rc s))
      (max_attempts (request_policy u (us_rc s)) (rc_Req (us_rc s))) envs 0 None s = Ret (e, s')"
    using assms(1) by (simp add: Upstream_OnRequest_def Let_def)
  from loop_accounts [OF loop] assms(2) show ?thesis by auto
qed

theorem slot_account_witness:
  "\<exists>s'. Upstream_OnRequest sorted_range ex_up (\<lambda>_. ex_env) full_state = Ret (Some FailedWithoutError, s') \<and>
     slot_balance (us_trace s') = 1 \<and> cluster_inflight ''web'' (w_cm (us_w s'), w_reg (us_w s')) = 1"
proof -
  obtain s' where run: "Upstream_OnRequest sorted_range ex_up (\<lambda>_. ex_env) full_state = Ret (Some FailedWithoutError, s')"
    "us_trace s' = [Acquired, Released, Acquired, CapacityWait]"
    "cluster_inflight ''web'' (w_cm (us_w s'), w_reg (us_w s')) = 1"
    using full_run by blast
  have "slot_balance (us_trace s') = int (cap_waits (us_trace s'))"
    using slot_account [OF run(1)] by (simp add: full_state_def)
  then show ?thesis using run by (simp add: cap_waits_def)
qed

text \<open>
  What the handler writes downstream: when it returns without an error it has written exactly
  one response and marked the request as answered; when the write broke off, one broken response; after
  every other error nothing was written.
\<close>
theorem upstream_writes_once:
  assumes "Upstream_OnRequest rng u envs s = Ret (e, s')" "cluster_of s \<noteq> []"
  shows "case e of
      None \<Rightarrow> (\<exists>x. rc_W (us_rc s') = rc_W (us_rc s) @ [x]) \<and> rc_Responded (us_rc s')
    | Some (WriteFailed d) \<Rightarrow> (\<exists>x. rc_W (us_rc s') = rc_W (us_rc s) @ [Aborted x]) \<and>
        rc_Responded (us_rc s') = rc_Responded (us_rc s)
    | Some _ \<Rightarrow> rc_W (us_rc s') = rc_W (us_rc s) \<and> rc_Responded (us_rc s') = rc_Responded (us_rc s)"
  using upstream_wrote [OF assms]
  by (auto simp: attempt_wrote_def answered_def quiet_def split: option.splits uerr.splits)

theorem upstream_writes_once_witness:
  "\<exists>s'. Upstream_OnRequest sorted_range ex_up (\<lambda>_. ex_env) full_state = Ret (Some FailedWithoutError, s') \<and>
     rc_W (us_rc s') = []"
proof -
  obtain s' where run: "Upstream_OnRequest sorted_range ex_up (\<lambda>_. ex_env) full_state = Ret (Some FailedWithoutError, s')"
    using full_run by blast
  from upstream_writes_once [OF run] show ?thesis
    using run by (simp add: cluster_of_def full_state_def ex_rc_def new_rc_def)
qed

section \<open>The forwarded request\<close>

definition uses_tls :: "ClusterSpec \<Rightarrow> bool" where
  "uses_tls cs \<longleftrightarrow> (\<exists>t. cs_UpstreamTLS cs = Some t \<and> ut_Enabled t)"

lemma add_upstream_tls:
  "up_tlsEnabled (add_upstream up cs) = (if uses_tls cs then insert (cs_Name cs) (up_tlsEnabled up) else up_tlsEnabled up)"
  "up_cli (add_upstream up cs) = up_cli up"
  "up_clients (add_upstream up cs) =
     (if uses_tls cs then fmupd (cs_Name cs) (tls_client (the (cs_UpstreamTLS cs))) (up_clients up) else up_clients up)"
  by (auto simp: add_upstream_def uses_tls_def Let_def split: option.splits)

text \<open>The clusters whose requests go out over TLS, and the client each is sent with.\<close>

lemma upstream_tls:
  "n \<in> up_tlsEnabled (NewUpstreamProxy clusters) \<longleftrightarrow> (\<exists>cs \<in> set clusters. cs_Name cs = n \<and> uses_tls cs)"
  "tr_TLSClientConfig (cl_Transport (case fmlookup (up_clients (NewUpstreamProxy clusters)) n of
       Some ccli \<Rightarrow> ccli | None \<Rightarrow> up_cli (NewUpstreamProxy clusters))) \<noteq> None \<longleftrightarrow>
     n \<in> up_tlsEnabled (NewUpstreamProxy clusters)"
proof -
  have "(n \<in> up_tlsEnabled (NewUpstreamProxy clusters) \<longleftrightarrow> (\<exists>cs \<in> set clusters. cs_Name cs = n \<and> uses_tls cs)) \<and>
      up_cli (NewUpstreamProxy clusters) = default_client \<and>
      (case fmlookup (up_clients (NewUpstreamProxy clusters)) n of None \<Rightarrow> n \<notin> up_tlsEnabled (NewUpstreamProxy clusters)
       | Some cl \<Rightarrow> n \<in> up_tlsEnabled (NewUpstreamProxy clusters) \<and> (\<exists>t. cl = tls_client t))"
  proof (induction clusters rule: rev_induct)
    case (snoc cs css)
    then show ?case by (auto simp: NewUpstreamProxy_def add_upstream_tls split: option.splits)
  qed (simp add: NewUpstreamProxy_def)
  moreover have "tr_TLSClientConfig (cl_Transport default_client) = None"
      "tr_TLSClientConfig (cl_Transport (tls_client t)) \<noteq> None" for t
    by (simp_all add: default_client_def tls_client_def Let_def)
  ultimately show
    "n \<in> up_tlsEnabled (NewUpstreamProxy clusters) \<longleftrightarrow> (\<exists>cs \<in> set clusters. cs_Name cs = n \<and> uses_tls cs)"
    "tr_TLSClientConfig (cl_Transport (case fmlookup (up_clients (NewUpstreamProxy clusters)) n of
       Some ccli \<Rightarrow> ccli | None \<Rightarrow> up_cli (NewUpstreamProxy clusters))) \<noteq> None \<longleftrightarrow>
     n \<in> up_tlsEnabled (NewUpstreamProxy clusters)"
    by (auto split: option.splits)
qed

text \<open>
  C29. The request sent to an upstream has every header of the client's request with all its
  values, except the hop-by-hop headers, which are removed in any spelling; it goes to the chosen
  endpoint with the rewritten path if there is one, and over TLS exactly when the cluster is configured
  for it, with a client that has TLS settings exactly then.
\<close>
theorem forwarded_request:
  assumes "map_range rng" "hdr_ok (rq_Header (rc_Req rc))" "u = NewUpstreamProxy clusters"
  shows "hdr_values (oq_Header (build_request rng u pol rc ep)) k =
      (if ToLower k \<in> ToLower ` set hop_headers then [] else hdr_values (rq_Header (rc_Req rc)) k) \<and>
    oq_Addr (build_request rng u pol rc ep) = ep \<and>
    oq_Path (build_request rng u pol rc ep) = (if rc_RewritePath rc = [] then rq_Path (rc_Req rc) else rc_RewritePath rc) \<and>
    (oq_Scheme (build_request rng u pol rc ep) = ''https'' \<longleftrightarrow>
       (\<exists>cs \<in> set clusters. cs_Name cs = rc_UpstreamCluster rc \<and> uses_tls cs)) \<and>
    (tr_TLSClientConfig (cl_Transport (oq_client (build_request rng u pol rc ep))) \<noteq> None \<longleftrightarrow>
       oq_Scheme (build_request rng u pol rc ep) = ''https'')"
proof -
  have tls: "oq_Scheme (build_request rng u pol rc ep) = ''https'' \<longleftrightarrow> rc_UpstreamCluster rc \<in> up_tlsEnabled u"
    by (simp add: build_request_def Let_def)
  have "tr_TLSClientConfig (cl_Transport (oq_client (build_request rng u pol rc ep))) \<noteq> None \<longleftrightarrow>
      rc_UpstreamCluster rc \<in> up_tlsEnabled u"
    using upstream_tls(2) [of clusters "rc_UpstreamCluster rc"] assms(3) by (simp add: build_request_def Let_def)
  then show ?thesis
    using copy_values [OF assms(1,2), of hop_headers k] upstream_tls(1) [of "rc_UpstreamCluster rc" clusters] assms(3)
    unfolding tls by (simp add: build_request_def Let_def)
qed

lemma lower_conn: "ToLower ''CONNECTION'' = ToLower ''Connection''"
  by code_simp

theorem forwarded_request_witness:
  "hdr_values (oq_Header (build_request sorted_range (NewUpstreamProxy []) zero_retry
     (ex_rc\<lparr>rc_Req := ex_req\<lparr>rq_Header := hdr_set ''CONNECTION'' ''close'' fmempty\<rparr>\<rparr>) ''a'')) ''CONNECTION'' = []"
proof -
  let ?rc = "ex_rc\<lparr>rc_Req := ex_req\<lparr>rq_Header := hdr_set ''CONNECTION'' ''close'' fmempty\<rparr>\<rparr>"
  have "hdr_ok (rq_Header (rc_Req ?rc))" by (simp add: hdr_ok_set)
  moreover have "ToLower ''CONNECTION'' \<in> ToLower ` set hop_headers" by (simp add: lower_conn hop_headers_def)
  ultimately show ?thesis
    using forwarded_request [OF sorted_range.map_range_axioms _ refl, of ?rc "[]" zero_retry "''a''" "''CONNECTION''"] by simp
qed

section \<open>Back-off\<close>

text \<open>
  As long as the shifted base fits in 63 bits, the back-off is the smaller of the base doubled once
  for each attempt and the maximum, plus a jitter of at most a quarter of it.
\<close>
theorem backoff_bounds:
  assumes "0 < base" "0 < mx" "base * 2 ^ nat attempt < 2 ^ 63" "mx < 2 ^ 62" "int63n_ok f"
  shows "\<exists>r. backoffWithJitter f base mx attempt = Ret r \<and> min mx (base * 2 ^ nat attempt) \<le> r \<and>
    r \<le> min mx (base * 2 ^ nat attempt) + min mx (base * 2 ^ nat attempt) div 4"
  by (rule backoff_ok [OF assms])

theorem backoff_bounds_witness:
  "\<exists>r. backoffWithJitter (\<lambda>n. n - 1) 50000000 500000000 2 = Ret r \<and> 200000000 \<le> r \<and> r \<le> 250000000"
  using backoff_bounds [of 50000000 500000000 2 "\<lambda>n. n - 1"] by (simp add: int63n_ok_def)

text \<open>
  When the shift makes the duration negative, the jitter asks for a random number below a
  number that is not positive, and the handler panics: with the default base of 50 ms this happens at
  attempt 38, so a policy with more than 38 retries can crash the proxy.
\<close>
theorem backoff_overflow_panics:
  assumes "0 < base" "0 < mx" "2 ^ 63 \<le> base * 2 ^ nat attempt" "base * 2 ^ nat attempt \<le> 2 ^ 64 - 4"
  shows "backoffWithJitter f base mx attempt = Panic ''invalid argument to Int63n''"
  by (rule backoff_overflow [OF assms])

theorem backoff_overflow_panics_witness:
  "backoffWithJitter (\<lambda>n. 0) 50000000 500000000 38 = Panic ''invalid argument to Int63n''"
  by (rule backoff_overflow_panics) simp_all

end
