(* ===== verification/GP_Access.thy ===== *)
theory GP_Access
  imports GP_Connection
begin

text \<open>
  What a connection prints: \<open>conn_log\<close> is the log that the connection manager owes for the requests it
  has read, one line when a request arrives and one access log line when it has been answered, with
  the method, path, client and arrival of that request. The filters keep these (\<open>origin\<close>), so the
  entry that is made after the chain shows the request as it was received.
\<close>

section \<open>The log that is owed\<close>

definition request_line_of :: "ConnCtx \<Rightarrow> req_env \<Rightarrow> Request \<Rightarrow> log_line" where
  "request_line_of c e req = HttpRequest (new_rc req (cc_Remote c) (re_start e) (cc_TLS c \<noteq> None))"

definition entry_for :: "ConnCtx \<Rightarrow> req_env \<Rightarrow> Request \<Rightarrow> Entry \<Rightarrow> bool" where
  "entry_for c e req en \<longleftrightarrow> en_Method en = rq_Method req \<and> en_Path en = rq_Path req \<and>
     en_Remote en = addr_string (cc_Remote c) \<and> en_Time en = re_start e \<and> en_Duration en = SubTime (re_end e) (re_start e)"

definition write_failed :: "hcm_err option \<Rightarrow> bool" where
  "write_failed r \<longleftrightarrow> r = Some FlushFailed \<or> r = Some ResponseWriteFailed"

inductive conn_log :: "ConnCtx \<Rightarrow> hcm_err option \<Rightarrow> (req_env \<times> Request) list \<Rightarrow> log_line list \<Rightarrow> bool" for c r where
  none: "conn_log c r [] []"
| whole: "entry_for c e req en \<Longrightarrow> conn_log c r rs ls \<Longrightarrow> conn_log c r ((e, req) # rs) (request_line_of c e req # Access en # ls)"
| broken: "write_failed r \<Longrightarrow> conn_log c r [(e, req)] [request_line_of c e req]"

inductive_simps conn_log_Nil: "conn_log c r [] ls"
inductive_simps conn_log_Cons: "conn_log c r ((e, req) # rs) ls"

section \<open>The chain keeps the request\<close>

lemma proxied_origin:
  assumes "proxied e cfg s = Ret (err, s')"
  shows "origin (us_rc (cs_us s')) = origin (us_rc (cs_us s))" "cs_log s' = cs_log s"
  using assms upstream_origin by (fastforce simp: proxied_def go_bind_eq_Ret on_rc_def origin_routed)+

lemma limiter_origin:
  assumes "OnRequest e FRateLimit s = Ret (err, s')"
  shows "origin (us_rc (cs_us s')) = origin (us_rc (cs_us s))" "cs_log s' = cs_log s"
  using assms
  by (auto simp: go_bind_eq_Ret RateLimiter_OnRequest_def Let_def answer_def origin_def split: option.splits if_splits prod.splits)

lemma prepared_origin:
  "origin (us_rc (cs_us (prepared e s))) = origin (us_rc (cs_us s))"
  "cs_log (prepared e s) = cs_log s @ [HttpRequest (us_rc (cs_us s))]"
  by (simp_all add: prepared_def on_rc_def origin_forwarded)

lemma chain_origin:
  assumes "Chain_Run e (http_filters hasLimiter cfg) s = Ret (err, s')"
  shows "origin (us_rc (cs_us s')) = origin (us_rc (cs_us s)) \<and> cs_log s' = cs_log s @ [HttpRequest (us_rc (cs_us s))]"
proof (cases hasLimiter)
  case False
  then show ?thesis using assms proxied_origin prepared_origin by (simp add: chain_unlimited)
next
  case True
  then obtain x s1 where "OnRequest e FRateLimit (prepared e s) = Ret (x, s1)" "proxied e cfg s1 = Ret (err, s')"
    using assms by (auto simp: chain_limited go_bind_eq_Ret simp del: OnRequest.simps)
  then show ?thesis using limiter_origin [of e "prepared e s"] proxied_origin [of e cfg s1] prepared_origin by metis
qed

section \<open>The log of a connection\<close>

text \<open>A request that was answered is logged with its status; one whose answer could not be written is not.\<close>

lemma handle_request_log:
  assumes "handle_request (http_filters hasLimiter cfg) c e req k = Ret (v, k')"
  shows "(\<exists>en. entry_for c e req en \<and> k_log k' = k_log k @ [request_line_of c e req, Access en]) \<or>
    (\<exists>r. v = Return r \<and> write_failed r \<and> k_log k' = k_log k @ [request_line_of c e req])"
proof -
  let ?st = "start_state c e req k"
  obtain err s where run: "Chain_Run e (http_filters hasLimiter cfg) ?st = Ret (err, s)"
    using assms by (auto simp: handle_request_def go_bind_eq_Ret)
  have log: "cs_log s = k_log k @ [request_line_of c e req]"
    using chain_origin [OF run] by (simp add: start_state_def request_line_of_def)
  have org: "origin (us_rc (cs_us s)) = (rq_Method req, rq_Path req, cc_Remote c, re_start e)"
    using chain_origin [OF run] by (simp add: start_state_def origin_def new_rc_def)
  have en: "entry_for c e req (log_entry e (us_rc (cs_us s)) st)" for st
    using org by (simp add: entry_for_def log_entry_def origin_def)
  show ?thesis
    using assms en log unfolding handle_request_def run
    by (auto simp: Let_def own_response_def account_def write_failed_def split: if_splits option.splits)
qed

lemma Handle_log:
  "Handle (http_filters hasLimiter cfg) c ins k = Ret (r, k') \<Longrightarrow>
     \<exists>n ls. reads (http_filters hasLimiter cfg) c ins k (r, k') n \<and> k_log k' = k_log k @ ls \<and>
       conn_log c r (requests_of (take n ins)) ls"
proof (induction "http_filters hasLimiter cfg" c ins k rule: Handle.induct)
  case (2 c x ins k)
  then have "reads (http_filters hasLimiter cfg) c (GotError x # ins) k (r, k') 1" "k' = k" using reads_error by auto
  then show ?case by (intro exI [of _ 1] exI [of _ "[]"]) (simp add: conn_log_Nil)
next
  case (3 c e req ins k)
  obtain v k1 where req: "handle_request (http_filters hasLimiter cfg) c e req k = Ret (v, k1)"
    using 3(2) by (auto simp: go_bind_eq_Ret)
  note log = handle_request_log [OF req]
  show ?case
  proof (cases v)
    case Continue
    have "Handle (http_filters hasLimiter cfg) c ins k1 = Ret (r, k')" using 3(2) req Continue by simp
    from 3(1) [OF Continue this] obtain n ls where "reads (http_filters hasLimiter cfg) c ins k1 (r, k') n"
        "k_log k' = k_log k1 @ ls" "conn_log c r (requests_of (take n ins)) ls" by blast
    moreover obtain en where "entry_for c e req en" "k_log k1 = k_log k @ [request_line_of c e req, Access en]"
      using log Continue by blast
    ultimately show ?thesis using reads_request(2) [OF req Continue]
      by (intro exI [of _ "Suc n"] exI [of _ "request_line_of c e req # Access en # ls"]) (auto intro: conn_log.whole)
  next
    case (Return x)
    then have ret: "x = r" "k1 = k'" using 3(2) req by simp_all
    have rd: "reads (http_filters hasLimiter cfg) c (GotRequest e req # ins) k (r, k') 1"
      using reads_request(1) [OF req Return] ret by simp
    from log show ?thesis
    proof (elim disjE exE conjE)
      fix en assume "entry_for c e req en" "k_log k1 = k_log k @ [request_line_of c e req, Access en]"
      with rd ret show ?thesis
        by (intro exI [of _ 1] exI [of _ "[request_line_of c e req, Access en]"]) (auto intro: conn_log.intros)
    next
      fix y assume "v = Return y" "write_failed y" "k_log k1 = k_log k @ [request_line_of c e req]"
      with rd ret Return show ?thesis
        by (intro exI [of _ 1] exI [of _ "[request_line_of c e req]"]) (auto intro: conn_log.intros)
    qed
  qed
qed simp

text \<open>Every request but a last one whose answer could not be written has exactly one access log line.\<close>

definition accesses :: "log_line list \<Rightarrow> nat" where
  "accesses ls = length (filter (\<lambda>l. case l of Access en \<Rightarrow> True | _ \<Rightarrow> False) ls)"

lemma conn_log_accesses: "conn_log c r rs ls \<Longrightarrow> \<not> write_failed r \<Longrightarrow> accesses ls = length rs"
  by (induction rule: conn_log.induct) (simp_all add: accesses_def request_line_of_def)

end
