(* ===== verification/GP_ConnectionProps.thy ===== *)
theory GP_ConnectionProps
  imports GP_ProxyProps GP_Access
begin

text \<open>
  What a connection guarantees: one response for each request, that it ends, what it logs, and what
  it does with bodies it does not read and with requests the rate limiter denies.
\<close>

section \<open>An example configuration\<close>

definition ex_config :: ProxyConfig where
  "ex_config = \<lparr>Listeners = [], Routes = [ex_route],
     Clusters = [ex_spec\<lparr>cs_Endpoints := [''a:1'']\<rparr>], RateLimit = None\<rparr>"

section \<open>Responses on a connection\<close>

text \<open>
  C3. On a connection without a rate limiter, every request that is read gets exactly one response, in
  order, and to its own method; the only exception is a response whose write broke off, after which the
  connection manager adds one of its own. Here \<open>n\<close> is the number of inputs the connection reads before it ends: with
  fewer it is still waiting for one.
\<close>
theorem one_response_each:
  assumes "Handle (http_filters False cfg) c ins k = Ret (r, k')"
  shows "\<exists>n wss. Handle (http_filters False cfg) c (take n ins) k = Ret (r, k') \<and>
    (\<forall>m < n. Handle (http_filters False cfg) c (take m ins) k = Blocked) \<and> k_out k' = k_out k @ wss \<and>
    list_all2 (\<lambda>(e, req) ws. (length ws = 1 \<or> (\<exists>x y. ws = [Aborted x, y])) \<and>
      (\<forall>w \<in> set ws. rs_Method (wire_response w) = rq_Method req)) (requests_of (take n ins)) wss"
proof -
  obtain n wss where out: "reads (http_filters False cfg) c ins k (r, k') n" "k_out k' = k_out k @ wss"
      "list_all2 (\<lambda>(e, req). single_response (rq_Method req)) (requests_of (take n ins)) wss"
    using Handle_out [OF assms] by blast
  from out(3) have "list_all2 (\<lambda>(e, req) ws. (length ws = 1 \<or> (\<exists>x y. ws = [Aborted x, y])) \<and>
      (\<forall>w \<in> set ws. rs_Method (wire_response w) = rq_Method req)) (requests_of (take n ins)) wss"
    by (rule list_all2_mono) (auto simp: single_response_def answers_def list_all_iff)
  with out(1,2) show ?thesis unfolding reads_def by blast
qed

definition ex_renv :: req_env where
  "ex_renv = \<lparr>re_start = 0, re_rand = None, re_fl = ideal, re_created = 0, re_now = 0, re_rl_ok = True, re_rl_others = (\<lambda>rl. rl),
     re_sched = (\<lambda>_ w. w), re_rng = sorted_range, re_attempts = (\<lambda>_. ex_env), re_write = True, re_flush = True, re_end = 1\<rparr>"

definition ex_ctx :: ConnCtx where
  "ex_ctx = \<lparr>cc_Remote = OtherAddr [], cc_Start = 0, cc_TLS = None\<rparr>"

definition ex_conn :: conn_state where
  "ex_conn = \<lparr>k_w = \<lparr>w_cm = fmempty, w_reg = empty_registry, w_queue = fmempty\<rparr>, k_rl = None, k_log = [], k_out = [], k_body = NoBody\<rparr>"

text \<open>A request without a route, and then the end of the stream.\<close>

definition ex_ins :: "input list" where
  "ex_ins = [GotRequest ex_renv ex_req, GotError EOF]"

lemma ex_conn_run: "\<exists>r k'. Handle (http_filters False (ex_config\<lparr>Routes := []\<rparr>)) ex_ctx ex_ins ex_conn = Ret (r, k')"
proof -
  let ?cfg = "ex_config\<lparr>Routes := []\<rparr>"
  let ?s = "prepared ex_renv (start_state ex_ctx ex_renv ex_req ex_conn)"
  have cl: "rc_UpstreamCluster (routed ex_renv ?cfg (us_rc (cs_us ?s))) = []"
    by (simp add: routed_def router_cluster prepared_def start_state_def on_rc_def new_rc_def ex_config_def)
  have "\<exists>s. Chain_Run ex_renv (http_filters False ?cfg) (start_state ex_ctx ex_renv ex_req ex_conn) = Ret (None, s)"
    unfolding chain_unlimited proxied_def Upstream_OnRequest_def cluster_of_def using cl by (simp add: on_rc_def)
  then obtain v k1 where "handle_request (http_filters False ?cfg) ex_ctx ex_renv ex_req ex_conn = Ret (v, k1)"
    using handle_request_returns by (metis surj_pair)
  then show ?thesis by (cases v) (auto simp: ex_ins_def)
qed

theorem one_response_each_witness:
  "\<exists>r k' n. Handle (http_filters False (ex_config\<lparr>Routes := []\<rparr>)) ex_ctx ex_ins ex_conn = Ret (r, k') \<and>
    list_all2 (\<lambda>(e, req) ws. (length ws = 1 \<or> (\<exists>x y. ws = [Aborted x, y])) \<and>
      (\<forall>w \<in> set ws. rs_Method (wire_response w) = rq_Method req)) (requests_of (take n ex_ins)) (k_out k')"
proof -
  obtain r k' where run: "Handle (http_filters False (ex_config\<lparr>Routes := []\<rparr>)) ex_ctx ex_ins ex_conn = Ret (r, k')"
    using ex_conn_run by blast
  from one_response_each [OF run] run show ?thesis by (auto simp: ex_conn_def)
qed

text \<open>
  What a connection has done does not depend on input that has not arrived: with more input, a
  connection that had ended has ended in the same state with the same result, and one that was waiting
  may go on.
\<close>
theorem connection_prefix: "Handle filters c ins k \<le> Handle filters c (ins @ later) k"
  by (rule Handle_more)

text \<open>
  C16. Every connection ends, and it leaves the cluster manager in a reachable state. For a configuration
  whose policies allow at most \<open>M\<close> attempts, a connection whose input ends with an error (the end of
  the stream, say), any number of requests in between, other goroutines that make at most \<open>p\<close> calls
  before each call of this one, waits that end within \<open>l\<close> ticks and counters far enough from overflow:
  serving the connection returns, with or without a rate limiter, whatever is requested and
  whatever the upstreams answer.
\<close>
theorem connection_returns:
  assumes "rounding fl" "retries_ok M cfg" "GotError r \<in> set ins"
    and "\<forall>e req. GotRequest e req \<in> set ins \<longrightarrow> req_ok fl p l e"
    and "\<forall>rl. k_rl k = Some rl \<longrightarrow> limiter_ok fl rl"
    and "headroom (requests ins * (M * attempt_calls l) * Suc p) (w_cm (k_w k))" "manager_reachable (k_w k)"
  shows "\<exists>err k'. Handle (http_filters hasLimiter cfg) c ins k = Ret (err, k') \<and> manager_reachable (k_w k') \<and>
    wf_manager (w_cm (k_w k'))"
proof -
  have "rl_fine fl (k_rl k)" using assms(5) by (simp add: rl_fine_def split: option.split)
  moreover have "safe (requests ins * (M * attempt_calls l) * Suc p) (k_w k)" using assms(6,7) by (simp add: safe_def)
  ultimately obtain err k' where run: "Handle (http_filters hasLimiter cfg) c ins k = Ret (err, k')" "manager_reachable (k_w k')"
    using Handle_ends [OF assms(1,2,4,3), of k hasLimiter c] by (auto simp: ends_def safe_def)
  then obtain pend where "reach manager_init manager_step \<lparr>mgr = w_cm (k_w k'), reg = w_reg (k_w k'), pending = pend\<rparr>"
    by (auto simp: manager_reachable_def)
  from inv_wf [OF cluster_manager.reach_inv [OF this]] run show ?thesis by simp
qed

definition live_conn :: conn_state where
  "live_conn = ex_conn\<lparr>k_w := \<lparr>w_cm = live_manager, w_reg = empty_registry, w_queue = fmempty\<rparr>\<rparr>"

definition live_env :: req_env where
  "live_env = ex_renv\<lparr>re_attempts := \<lambda>_. ex_env\<lparr>ae_wait := [CtxDone], ae_cap_wait := [Tick, CtxDone]\<rparr>\<rparr>"

theorem connection_returns_witness:
  "\<exists>err k'. Handle (http_filters False ex_config) ex_ctx [GotRequest live_env ex_req, GotRequest live_env ex_req, GotError EOF]
      live_conn = Ret (err, k') \<and> wf_manager (w_cm (k_w k'))"
proof -
  let ?ins = "[GotRequest live_env ex_req, GotRequest live_env ex_req, GotError EOF]"
  have cfg: "retries_ok 3 ex_config"
    by (simp add: retries_ok_def policy_ok_def ex_config_def ex_spec_def ex_route_def cluster_retry_def dur_of_def
        Millisecond_def wrap64_def)
  have req: "\<forall>e req. GotRequest e req \<in> set ?ins \<longrightarrow> req_ok ideal 3 2 e"
    using idle_others ex_env_ok by (auto simp: req_ok_def live_env_def ex_renv_def)
  have rl: "\<forall>rl. k_rl live_conn = Some rl \<longrightarrow> limiter_ok ideal rl" by (simp add: live_conn_def ex_conn_def)
  have room: "headroom (requests ?ins * (3 * attempt_calls 2) * Suc 3) (w_cm (k_w live_conn))"
    by (simp add: live_conn_def live_ok(1) requests_def attempt_calls_def)
  have live: "manager_reachable (k_w live_conn)" by (simp add: live_conn_def live_ok(2))
  have eof: "GotError EOF \<in> set ?ins" by simp
  from connection_returns [OF ideal.rounding_axioms cfg eof req rl room live, of False ex_ctx] show ?thesis by blast
qed




text \<open>A limiter without tokens, and a cluster whose circuit breaker is open.\<close>

definition ex_limited :: conn_state where
  "ex_limited = \<lparr>k_w = \<lparr>w_cm = fmupd ''web'' (full_cluster\<lparr>cbMaxReqs := 1, inflight := 1\<rparr>) fmempty,
       w_reg = empty_registry, w_queue = fmempty\<rparr>,
     k_rl = Some \<lparr>rl_scope = ''global'', rl_global = Some \<lparr>b_cap = 1, b_rate = 1, b_tok = 0, b_last = 0\<rparr>,
       rl_perIP = fmempty, rl_defCap = 1, rl_defRate = 1\<rparr>, k_log = [], k_out = [], k_body = NoBody\<rparr>"

lemma open_breaker:
  assumes "cluster_of s = ''web''" "w_cm (us_w s) = fmupd ''web'' (full_cluster\<lparr>cbMaxReqs := 1, inflight := 1\<rparr>) fmempty"
    and "up_pending u = fmempty" "us_sched s = (\<lambda>_ w. w)" "0 < max_attempts (request_policy u (us_rc s)) (rc_Req (us_rc s))"
  shows "\<exists>s'. Upstream_OnRequest rng u envs s = Ret (None, s')"
proof -
  have w: "wrap64 2 = 2" by (simp add: wrap64_def)
  obtain s1 where a: "acquire s = (False, s1)" "cluster_of s1 = ''web''"
    using assms(1,2,4) by (auto simp: acquire_def others_def TryAcquire_def full_cluster_def w cluster_of_def)
  let ?pol = "request_policy u (us_rc s)" and ?maxA = "max_attempts (request_policy u (us_rc s)) (rc_Req (us_rc s))"
  obtain s' where "one_attempt rng u ?pol ?maxA (envs (nat 0)) 0 s = Ret (Done None, s')"
    using a assms(3) by (simp add: one_attempt_def waitForCapacity_def trip_def)
  then have "attempt_loop rng u ?pol ?maxA envs 0 None s = Ret (None, s')"
    using assms(5) by (simp add: attempt_loop.simps [of _ _ _ _ _ 0])
  then show ?thesis using assms(1) by (simp add: Upstream_OnRequest_def Let_def)
qed

lemma no_override: "rc_RetryOverride rc = None \<Longrightarrow> rc_RetryOverride (routed e (ex_config\<lparr>Clusters := cs\<rparr>) rc) = None"
  by (simp add: routed_def ex_config_def RouteOptions_OnRequest_def Let_def NewRouteOptionsFilter_def route_option_def ex_route_def
      Router_OnRequest_def route_loop_spec split: option.splits)

lemma one_try: "rc_RetryOverride rc = None \<Longrightarrow> 0 < max_attempts (request_policy (NewUpstreamProxy []) rc) req"
  by (simp add: request_policy_def NewUpstreamProxy_def merge_retry_def zero_retry_def max_attempts_def wrap64_01)


section \<open>Logs\<close>

text \<open>
  C17. What a connection logs: for every request that is read, with or without a rate limiter, one line
  when it arrives and one access log entry when it has been answered, in order; the entry has the method,
  path, client address and arrival time of the request as it was received, whatever the filters did to
  it. Only a last request whose response could not be written or flushed has no entry.
\<close>
theorem connection_log:
  assumes "Handle (http_filters hasLimiter cfg) c ins k = Ret (r, k')"
  shows "\<exists>n ls. Handle (http_filters hasLimiter cfg) c (take n ins) k = Ret (r, k') \<and> k_log k' = k_log k @ ls \<and>
    conn_log c r (requests_of (take n ins)) ls \<and> (write_failed r \<or> accesses ls = length (requests_of (take n ins)))"
proof -
  obtain n ls where "reads (http_filters hasLimiter cfg) c ins k (r, k') n" "k_log k' = k_log k @ ls"
      "conn_log c r (requests_of (take n ins)) ls"
    using Handle_log [OF assms] by blast
  then show ?thesis using conn_log_accesses [of c r _ ls] unfolding reads_def by blast
qed

theorem connection_log_witness:
  "\<exists>r k' n. Handle (http_filters False (ex_config\<lparr>Routes := []\<rparr>)) ex_ctx ex_ins ex_conn = Ret (r, k') \<and>
    conn_log ex_ctx r (requests_of (take n ex_ins)) (k_log k')"
proof -
  obtain r k' where run: "Handle (http_filters False (ex_config\<lparr>Routes := []\<rparr>)) ex_ctx ex_ins ex_conn = Ret (r, k')"
    using ex_conn_run by blast
  from connection_log [OF run] run show ?thesis by (auto simp: ex_conn_def)
qed

text \<open>
  The line ends of the access log: an entry is printed as one line exactly when none of its
  fields has a line end; each line end in a field adds a line. Dates, numbers and labels add none.
\<close>
theorem access_log_lines:
  "count_list (Log zone e) (CHR 0x0A) = 1 + (\<Sum>f \<leftarrow> [en_Remote e, en_Method e, en_Path e, en_Cluster e, en_Upstream e,
     en_RequestID e]. count_list f (CHR 0x0A))"
proof -
  have "count_list (format_RFC3339Nano w) (CHR 0x0A) = 0" "count_list (FormatInt i) (CHR 0x0A) = 0" for w i
    using format_no_newline(1) FormatInt_no_newline by (simp_all add: count_list_0_iff)
  then show ?thesis by (simp add: Log_def newline_def)
qed

text \<open>
  Entries can be forged: the path of a request is printed as it was decoded, so a client that puts
  a line end into it makes the log show two lines that are exactly the lines of two other entries. The
  second is any entry the client likes, up to the status, duration, cluster, upstream and request id of
  its request.
\<close>
theorem access_log_forged:
  "\<exists>p. Log zone (e\<lparr>en_Path := p\<rparr>) =
     Log zone (e\<lparr>en_Path := path, en_Status := status, en_Duration := dur\<rparr>) @
     Log zone (forged\<lparr>en_Status := en_Status e, en_Duration := en_Duration e, en_Cluster := en_Cluster e,
       en_Upstream := en_Upstream e, en_RequestID := en_RequestID e\<rparr>)"
  by (rule exI [of _ "path @ log_tail (e\<lparr>en_Status := status, en_Duration := dur\<rparr>) @ log_head zone forged @ en_Path forged"])
    (simp add: Log_parts log_head_def log_tail_def)

text \<open>
  The time stamps of the log are right: the date and time that are printed are a date of the
  calendar and a time of day, and together with the offset of the zone they determine the instant,
  to the nanosecond.
\<close>
theorem timestamp_roundtrip:
  "instant (wall_clock zone t) = t \<and>
   (case wl_date (wall_clock zone t) of (y, m, d) \<Rightarrow> 1 \<le> m \<and> m \<le> 12 \<and> 1 \<le> d \<and> d \<le> month_lengths (leap y) ! nat (m - 1)) \<and>
   0 \<le> wl_hour (wall_clock zone t) \<and> wl_hour (wall_clock zone t) < 24 \<and>
   0 \<le> wl_min (wall_clock zone t) \<and> wl_min (wall_clock zone t) < 60 \<and>
   0 \<le> wl_sec (wall_clock zone t) \<and> wl_sec (wall_clock zone t) < 60 \<and>
   0 \<le> wl_nsec (wall_clock zone t) \<and> wl_nsec (wall_clock zone t) < Second"
proof -
  obtain y m d where date: "civil_date ((t + zone t * Second) div Second div 86400) = (y, m, d)" by (metis surj_pair)
  then have "wl_date (wall_clock zone t) = (y, m, d)" by (simp add: wall_clock_def Let_def)
  then show ?thesis using civil_date_ok [OF date] wall_clock_instant [of zone t] wall_clock_ranges [of zone t] by simp
qed

end
