(* ===== verification/GP_H2Props.thy ===== *)
theory GP_H2Props
  imports GP_H2 GP_ProxyProps
begin

text \<open>What the HTTP/2 handler does: the translation of responses, and errors of the chain.\<close>

section \<open>The translator\<close>

text \<open>
  The translator does not depend on how the bytes of a response are cut: writing it in pieces,
  each but the first not empty, gives the same status, headers and body as writing it at once.
\<close>
theorem translator_chunks:
  assumes "\<forall>q \<in> set ps. q \<noteq> []"
  shows "rt_WriteAll rng (p # ps) rt = rt_Write rng (concat (p # ps)) rt"
  by (rule rt_WriteAll_concat [OF assms])

definition fresh_rt :: respTranslator where
  "fresh_rt = \<lparr>rt_w = new_writer, rt_buf = [], rt_parsed = False\<rparr>"

theorem translator_chunks_witness:
  "rt_WriteAll sorted_range [''HTTP/1.1 200 OK'' @ [CR], [LF] @ CRLF @ ''o'', ''k''] fresh_rt =
   rt_Write sorted_range (''HTTP/1.1 200 OK'' @ CRLF @ CRLF @ ''ok'') fresh_rt"
  using translator_chunks [of "[[LF] @ CRLF @ ''o'', ''k'']" sorted_range "''HTTP/1.1 200 OK'' @ [CR]" fresh_rt]
  by (simp add: CRLF_def)

text \<open>
  The last header line of every response is lost: the head is cut before the line end of the last
  header, and the loop drops a line without one. The headers sent are those of all the
  lines but the last.
\<close>
theorem last_header_dropped:
  assumes "map_range rng" "list_all field_line ls" "LF \<notin> set status_line" "LF \<notin> set last_line"
    and "head = status_line @ CRLF @ concat (map (\<lambda>l. l @ CRLF) ls) @ last_line"
    and "Index (CRLF @ CRLF) (head @ CRLF @ CRLF @ body) = Some (length head)"
    and "200 \<le> status_of (status_line @ CRLF)" "status_of (status_line @ CRLF) \<le> 999"
  shows "\<exists>rt h. rt_Write rng (head @ CRLF @ CRLF @ body) fresh_rt = Ret rt \<and>
    rw_sent (rt_w rt) = Some (status_of (status_line @ CRLF), h) \<and> rw_body (rt_w rt) = body \<and>
    (\<forall>k. hdr_values h k = hdr_values (foldl (\<lambda>h l. header_field l h) fmempty ls) k)"
proof -
  let ?H = "foldl (\<lambda>h l. header_field l h) fmempty ls"
  have rl: "read_line head = (status_line @ CRLF, concat (map (\<lambda>l. l @ CRLF) ls) @ last_line, False)"
    unfolding assms(5) by (rule read_line_crlf [OF assms(3)])
  have hl: "header_loop (concat (map (\<lambda>l. l @ CRLF) ls) @ last_line) fmempty = ?H"
    by (rule header_loop_lines [OF assms(2,4)])
  have "drop (length head + 4) (head @ CRLF @ CRLF @ body) = body" by (simp add: CRLF_def)
  then have "rt_Write rng (head @ CRLF @ CRLF @ body) fresh_rt = rt_emit rng head body fresh_rt"
    using assms(6) by (simp add: rt_Write_def fresh_rt_def)
  moreover have "\<exists>rt h. rt_emit rng head body fresh_rt = Ret rt \<and>
      rw_sent (rt_w rt) = Some (status_of (status_line @ CRLF), add_all rng ?H fmempty) \<and> rw_body (rt_w rt) = body"
    using assms(7,8) unfolding rt_emit_def rl
    by (simp add: Let_def hl fresh_rt_def new_writer_def WriteHeader_def rw_Write_def)
  moreover have "hdr_ok ?H" by (rule hdr_ok_fields) simp
  ultimately show ?thesis using add_all_values [OF assms(1)] by auto
qed

theorem last_header_dropped_witness:
  "\<exists>rt h. rt_Write sorted_range (''HTTP/1.1 200 OK'' @ CRLF @ ''A: 1'' @ CRLF @ ''B: 2'' @ CRLF @ CRLF @ ''ok'') fresh_rt = Ret rt \<and>
     rw_sent (rt_w rt) = Some (200, h) \<and> hdr_values h ''B'' = []"
proof -
  let ?head = "''HTTP/1.1 200 OK'' @ CRLF @ concat (map (\<lambda>l. l @ CRLF) [''A: 1'']) @ ''B: 2''"
  have st: "status_of (''HTTP/1.1 200 OK'' @ CRLF) = 200" by code_simp
  have idx: "Index (CRLF @ CRLF) (?head @ CRLF @ CRLF @ ''ok'') = Some (length ?head)" by code_simp
  have b: "hdr_values (foldl (\<lambda>h l. header_field l h) fmempty [''A: 1'']) ''B'' = []" by code_simp
  have lines: "list_all field_line [''A: 1'']" "LF \<notin> set ''HTTP/1.1 200 OK''" "LF \<notin> set ''B: 2''" by code_simp+
  have "\<exists>rt h. rt_Write sorted_range (?head @ CRLF @ CRLF @ ''ok'') fresh_rt = Ret rt \<and>
      rw_sent (rt_w rt) = Some (status_of (''HTTP/1.1 200 OK'' @ CRLF), h) \<and> rw_body (rt_w rt) = ''ok'' \<and>
      (\<forall>k. hdr_values h k = hdr_values (foldl (\<lambda>h l. header_field l h) fmempty [''A: 1'']) k)"
    by (rule last_header_dropped [OF sorted_range.map_range_axioms lines refl idx]) (unfold st, simp_all)
  then obtain rt h where "rt_Write sorted_range (?head @ CRLF @ CRLF @ ''ok'') fresh_rt = Ret rt"
      "rw_sent (rt_w rt) = Some (200, h)" "hdr_values h ''B'' = []"
    unfolding st using b by metis
  then show ?thesis by (intro exI [of _ rt] exI [of _ h] conjI) simp_all
qed

section \<open>Errors of the chain\<close>


lemma no_cluster_run:
  assumes "cluster_of s = n" "n \<noteq> []" "w_cm (us_w s) = fmempty" "us_sched s = (\<lambda>_ w. w)"
    and "0 < max_attempts (request_policy u (us_rc s)) (rc_Req (us_rc s))"
  shows "\<exists>s'. Upstream_OnRequest rng u envs s = Ret (Some (PickFailed (UnknownCluster n)), s') \<and> us_rc s' = us_rc s"
proof -
  let ?pol = "request_policy u (us_rc s)" and ?maxA = "max_attempts (request_policy u (us_rc s)) (rc_Req (us_rc s))"
  obtain s' where "one_attempt rng u ?pol ?maxA (envs (nat 0)) 0 s = Ret (Done (Some (PickFailed (UnknownCluster n))), s')"
    "us_rc s' = us_rc s"
    using assms(1,3,4) by (simp add: one_attempt_def others_def picked_def acquire_def TryAcquire_def pick_and_try_def Pick_def cluster_of_def)
  then have "attempt_loop rng u ?pol ?maxA envs 0 None s = Ret (Some (PickFailed (UnknownCluster n)), s')"
    using assms(5) by (simp add: attempt_loop.simps [of _ _ _ _ _ 0])
  with \<open>us_rc s' = us_rc s\<close> show ?thesis using assms(1,2) by (simp add: Upstream_OnRequest_def Let_def)
qed


end
