(* ===== verification/GP_Wire.thy ===== *)
theory GP_Wire
  imports GP_H2
begin

text \<open>
  The bytes of a response: \<^verbatim>\<open>Response.Write\<close> of package \<^verbatim>\<open>net/http\<close>, as the filters
  and the connection manager use it. All responses they write have a body, no transfer encoding, no
  trailer and no status text of their own, and the request they answer. A response whose length is
  not known is written with \<^verbatim>\<open>Connection: close\<close> and its body up to the end of the connection;
  a write whose body has not the announced length ends with an error. The other side is a reader
  that takes a response apart by the rules for the length of a message.
\<close>

section \<open>Status lines\<close>

definition status_texts :: "(int \<times> string) list" where
  "status_texts =
    [(100, ''Continue''), (101, ''Switching Protocols''), (102, ''Processing''), (103, ''Early Hints''),
     (200, ''OK''), (201, ''Created''), (202, ''Accepted''), (203, ''Non-Authoritative Information''),
     (204, ''No Content''), (205, ''Reset Content''), (206, ''Partial Content''), (207, ''Multi-Status''),
     (208, ''Already Reported''), (226, ''IM Used''),
     (300, ''Multiple Choices''), (301, ''Moved Permanently''), (302, ''Found''), (303, ''See Other''),
     (304, ''Not Modified''), (305, ''Use Proxy''), (307, ''Temporary Redirect''), (308, ''Permanent Redirect''),
     (400, ''Bad Request''), (401, ''Unauthorized''), (402, ''Payment Required''), (403, ''Forbidden''),
     (404, ''Not Found''), (405, ''Method Not Allowed''), (406, ''Not Acceptable''),
     (407, ''Proxy Authentication Required''), (408, ''Request Timeout''), (409, ''Conflict''), (410, ''Gone''),
     (411, ''Length Required''), (412, ''Precondition Failed''), (413, ''Request Entity Too Large''),
     (414, ''Request URI Too Long''), (415, ''Unsupported Media Type''), (416, ''Requested Range Not Satisfiable''),
     (417, ''Expectation Failed''), (418, ''I'' @ [CHR 0x27] @ ''m a teapot''), (421, ''Misdirected Request''),
     (422, ''Unprocessable Entity''), (423, ''Locked''), (424, ''Failed Dependency''), (425, ''Too Early''),
     (426, ''Upgrade Required''), (428, ''Precondition Required''), (429, ''Too Many Requests''),
     (431, ''Request Header Fields Too Large''), (451, ''Unavailable For Legal Reasons''),
     (500, ''Internal Server Error''), (501, ''Not Implemented''), (502, ''Bad Gateway''),
     (503, ''Service Unavailable''), (504, ''Gateway Timeout''), (505, ''HTTP Version Not Supported''),
     (506, ''Variant Also Negotiates''), (507, ''Insufficient Storage''), (508, ''Loop Detected''),
     (510, ''Not Extended''), (511, ''Network Authentication Required'')]"

definition status_text :: "int \<Rightarrow> string" where
  "status_text code = (case map_of status_texts code of Some t \<Rightarrow> t | None \<Rightarrow> ''status code '' @ FormatInt code)"

text \<open>The verb \<^verbatim>\<open>%03d\<close>: the sign counts for the width.\<close>

definition three_digits :: "int \<Rightarrow> string" where
  "three_digits n = (if n < 0 then appendInt n 2 else appendInt n 3)"

definition status_line :: "Response \<Rightarrow> string" where
  "status_line r =
     ''HTTP/'' @ FormatInt (rs_ProtoMajor r) @ ''.'' @ FormatInt (rs_ProtoMinor r) @ '' '' @
     three_digits (rs_Status r) @ '' '' @ status_text (rs_Status r)"

section \<open>Header lines\<close>

text \<open>\<^verbatim>\<open>Header.WriteSubset\<close>: in the order of the names, without invalid names, with line ends in values turned into spaces.\<close>

definition clean_value :: "string \<Rightarrow> string" where
  "clean_value v =
     (let blank = (\<lambda>c. c \<in> {CHR '' '', CHR 0x09, LF, CR}); v = map (\<lambda>c. if c = LF \<or> c = CR then CHR '' '' else c) v
      in rev (dropWhile blank (rev (dropWhile blank v))))"

definition named_lines :: "Header \<Rightarrow> string \<Rightarrow> string list" where
  "named_lines h k =
     (if k \<noteq> [] \<and> list_all valid_field_byte k
      then map (\<lambda>v. k @ '': '' @ clean_value v) (case fmlookup h k of None \<Rightarrow> [] | Some vs \<Rightarrow> vs) else [])"

definition respExcludeHeader :: "string set" where
  "respExcludeHeader = {''Content-Length'', ''Transfer-Encoding'', ''Trailer''}"

definition WriteSubset :: "Header \<Rightarrow> string set \<Rightarrow> string list" where
  "WriteSubset h excl = concat (map (named_lines h) (sorted_list_of_set (fmdom' h - excl)))"

text \<open>\<^verbatim>\<open>hasToken\<close>: the token occurs in any case between spaces, commas, tabs and the ends.\<close>

definition token_boundary :: "char \<Rightarrow> bool" where
  "token_boundary c \<longleftrightarrow> c = CHR '' '' \<or> c = CHR '','' \<or> c = CHR 0x09"

definition hasToken :: "string \<Rightarrow> string \<Rightarrow> bool" where
  "hasToken v token \<longleftrightarrow>
     token \<noteq> [] \<and>
     list_ex (\<lambda>sp. (sp = 0 \<or> token_boundary (v ! (sp - 1))) \<and>
         (sp + length token = length v \<or> token_boundary (v ! (sp + length token))) \<and>
         ToLower (take (length token) (drop sp v)) = ToLower token)
       [0..<Suc (length v) - length token]"

section \<open>The length of the body\<close>

text \<open>A length of 0 with bytes in the body means that the length is not known (-1).\<close>

definition sent_length :: "Response \<Rightarrow> int" where
  "sent_length r = (if rs_ContentLength r = 0 \<and> rs_Body r \<noteq> [] then - 1 else rs_ContentLength r)"

definition ProtoAtLeast :: "Response \<Rightarrow> int \<Rightarrow> int \<Rightarrow> bool" where
  "ProtoAtLeast r major minor \<longleftrightarrow>
     rs_ProtoMajor r > major \<or> rs_ProtoMajor r = major \<and> rs_ProtoMinor r \<ge> minor"

definition sent_close :: "Response \<Rightarrow> bool" where
  "sent_close r \<longleftrightarrow> rs_Close r \<or> sent_length r = - 1 \<and> ProtoAtLeast r 1 1"

definition shouldSendContentLength :: "Response \<Rightarrow> bool" where
  "shouldSendContentLength r \<longleftrightarrow>
     sent_length r > 0 \<or> sent_length r = 0 \<and> rs_Method r \<in> {''POST'', ''PUT'', ''PATCH''}"

definition bodyAllowedForStatus :: "int \<Rightarrow> bool" where
  "bodyAllowedForStatus status \<longleftrightarrow> \<not> (100 \<le> status \<and> status \<le> 199 \<or> status = 204 \<or> status = 304)"

definition transfer_lines :: "Response \<Rightarrow> string list" where
  "transfer_lines r =
     (if sent_close r \<and> \<not> hasToken (hdr_get (rs_Header r) ''Connection'') ''close'' then [''Connection: close''] else []) @
     (if shouldSendContentLength r then [''Content-Length: '' @ FormatInt (sent_length r)] else [])"

definition zero_length_line :: "Response \<Rightarrow> string list" where
  "zero_length_line r =
     (if sent_length r = 0 \<and> \<not> shouldSendContentLength r \<and> bodyAllowedForStatus (rs_Status r)
      then [''Content-Length: 0''] else [])"

definition response_fields :: "Response \<Rightarrow> string list" where
  "response_fields r = transfer_lines r @ WriteSubset (rs_Header r) respExcludeHeader @ zero_length_line r"

definition sent_body :: "Response \<Rightarrow> string" where
  "sent_body r =
     (if rs_Method r = ''HEAD'' then []
      else if sent_length r = - 1 then rs_Body r else take (nat (sent_length r)) (rs_Body r))"

definition lines_text :: "string list \<Rightarrow> string" where
  "lines_text ls = concat (map (\<lambda>l. l @ CRLF) ls)"

text \<open>What is written, and whether the write ends without an error of its own.\<close>

definition Response_Write :: "Response \<Rightarrow> string \<times> bool" where
  "Response_Write r =
     (lines_text (status_line r # response_fields r) @ CRLF @ sent_body r,
      rs_Method r = ''HEAD'' \<or> sent_length r = - 1 \<or> sent_length r = int (length (rs_Body r)))"

section \<open>Reading a response\<close>

text \<open>
  A client reads the head up to the empty line and then the body: none for \<^verbatim>\<open>HEAD\<close> and for a
  status without a body, else as many bytes as \<^verbatim>\<open>Content-Length\<close> says, else everything up to
  the end of the connection.
\<close>

datatype payload = Complete string string | UntilClose string | Partial

function split_lines :: "string \<Rightarrow> string list" where
  "split_lines s = (case Index CRLF s of None \<Rightarrow> [s] | Some i \<Rightarrow> take i s # split_lines (drop (i + 2) s))"
  by pat_completeness auto
termination
  by (relation "measure length") (auto simp: CRLF_def dest: Index_bound)

declare split_lines.simps [simp del]

definition field_name :: "string \<Rightarrow> string" where
  "field_name l = ToLower (takeWhile (\<lambda>c. c \<noteq> CHR '':'') l)"

definition content_length :: "string list \<Rightarrow> int option" where
  "content_length ls =
     (case filter (\<lambda>l. field_name l = ''content-length'') ls of
        [] \<Rightarrow> None
      | l # _ \<Rightarrow> strconvAtoi (TrimSpace (drop (Suc (length (field_name l))) l)))"

definition read_response :: "string \<Rightarrow> string \<Rightarrow> (int \<times> string list \<times> payload) option" where
  "read_response meth s =
     (case Index (CRLF @ CRLF) s of
        None \<Rightarrow> None
      | Some i \<Rightarrow>
          (case split_lines (take i s) of
             [] \<Rightarrow> None
           | l # ls \<Rightarrow>
               (let code = status_of l; rest = drop (i + 4) s
                in Some (code, ls,
                     if meth = ''HEAD'' \<or> \<not> bodyAllowedForStatus code then Complete [] rest
                     else case content_length ls of
                            None \<Rightarrow> UntilClose rest
                          | Some n \<Rightarrow>
                              if nat n \<le> length rest then Complete (take (nat n) rest) (drop (nat n) rest)
                              else Partial))))"

section \<open>Lines\<close>

text \<open>A line of a head: it has bytes, and none of them ends a line.\<close>

lemma CR_LF [simp]: "CR \<noteq> LF" "LF \<noteq> CR"
  by (simp_all add: CR_def LF_def)

lemma field_line_iff: "field_line l \<longleftrightarrow> l \<noteq> [] \<and> list_all (\<lambda>c. c \<noteq> CR \<and> c \<noteq> LF) l"
  by (auto simp: field_line_def list_all_iff)

lemma Index_skip: "CR \<notin> set l \<Longrightarrow> Index (CR # p) (l @ s) = map_option ((+) (length l)) (Index (CR # p) s)"
proof (induction l)
  case Nil
  show ?case by (cases "Index (CR # p) s") simp_all
next
  case (Cons c l)
  then have "\<not> HasPrefix (c # l @ s) (CR # p)" by (auto simp: HasPrefix_def)
  with Cons show ?case by (cases "Index (CR # p) s") (auto simp: comp_def)
qed

lemma Index_here: "Index p (p @ s) = Some 0"
  using HasPrefix_append [of p s] by (cases "p @ s") auto

lemma Index_blank_line:
  assumes "list_all field_line ls" "field_line l"
  shows "Index (CRLF @ CRLF) (lines_text (l # ls) @ CRLF @ rest) = Some (length (lines_text (l # ls)) - 2)"
  using assms
proof (induction ls arbitrary: l)
  case Nil
  have "Index (CRLF @ CRLF) (CRLF @ CRLF @ rest) = Some 0"
    using Index_here [of "CRLF @ CRLF" rest] by simp
  moreover have "CR \<notin> set l" using Nil by (simp add: field_line_def)
  ultimately show ?case using Index_skip [of l "LF # CRLF" "CRLF @ CRLF @ rest"]
    by (simp add: lines_text_def CRLF_def)
next
  case (Cons l' ls)
  let ?rest = "lines_text (l' # ls) @ CRLF @ rest"
  have l: "CR \<notin> set l" using Cons.prems by (simp add: field_line_def)
  obtain c cs where c: "?rest = c # cs" "c \<noteq> CR"
    using Cons.prems(1) by (cases l') (auto simp: field_line_def lines_text_def)
  have skip: "Index (CR # LF # CR # [LF]) (CR # LF # ?rest) = map_option ((+) 2) (Index (CR # LF # CR # [LF]) ?rest)"
    using c by (cases "Index (CR # LF # CR # [LF]) (c # cs)") (auto simp: HasPrefix_def)
  have "Index (CRLF @ CRLF) ?rest = Some (length (lines_text (l' # ls)) - 2)" using Cons by simp
  then have "Index (CRLF @ CRLF) (l @ CRLF @ ?rest) = Some (length l + (2 + (length (lines_text (l' # ls)) - 2)))"
    using Index_skip [OF l, of "LF # CRLF" "CRLF @ ?rest"] skip by (simp add: CRLF_def)
  moreover have "2 \<le> length (lines_text (l' # ls))" by (simp add: lines_text_def CRLF_def)
  ultimately show ?case by (simp add: lines_text_def CRLF_def)
qed

lemma after_blank_line: "drop (length (lines_text (l # ls)) - 2 + 4) (lines_text (l # ls) @ CRLF @ s) = s"
proof -
  have "length (lines_text (l # ls)) - 2 + 4 = length (lines_text (l # ls) @ CRLF)" by (simp add: lines_text_def CRLF_def)
  then show ?thesis by (metis append_assoc append_eq_conv_conj)
qed

text \<open>The head of a text of lines, without the end of its last line, is split into these lines.\<close>

lemma Index_no_CR: "CR \<notin> set l \<Longrightarrow> Index (CR # p) l = None"
  using Index_skip [of l p "[]"] by simp

lemma split_lines_text:
  "list_all field_line (l # ls) \<Longrightarrow> split_lines (take (length (lines_text (l # ls)) - 2) (lines_text (l # ls) @ s)) = l # ls"
proof (induction ls arbitrary: l)
  case Nil
  then have "Index CRLF l = None" using Index_no_CR [of l "[LF]"] by (simp add: field_line_def CRLF_def)
  then show ?case by (simp add: lines_text_def CRLF_def split_lines.simps [of l])
next
  case (Cons l' ls)
  let ?t = "take (length (lines_text (l' # ls)) - 2) (lines_text (l' # ls) @ s)"
  have l: "CR \<notin> set l" using Cons.prems by (simp add: field_line_def)
  have "2 \<le> length (lines_text (l' # ls))" by (simp add: lines_text_def CRLF_def)
  then have "take (length (lines_text (l # l' # ls)) - 2) (lines_text (l # l' # ls) @ s) = l @ CRLF @ ?t"
    by (simp add: lines_text_def CRLF_def numeral_2_eq_2)
  moreover have "Index CRLF (l @ CRLF @ ?t) = Some (length l)"
    using Index_skip [OF l, of "[LF]" "CRLF @ ?t"] Index_here [of CRLF ?t] by (simp add: CRLF_def)
  moreover have "split_lines ?t = l' # ls" using Cons by simp
  ultimately show ?case by (subst split_lines.simps) (simp add: CRLF_def)
qed

section \<open>What is written are lines\<close>

definition plain_bytes :: "string \<Rightarrow> bool" where
  "plain_bytes s \<longleftrightarrow> list_all (\<lambda>c. c \<noteq> CR \<and> c \<noteq> LF) s"

lemma plain_append [simp]: "plain_bytes (s @ t) \<longleftrightarrow> plain_bytes s \<and> plain_bytes t"
  and plain_Cons [simp]: "plain_bytes (c # s) \<longleftrightarrow> c \<noteq> CR \<and> c \<noteq> LF \<and> plain_bytes s"
  and plain_Nil [simp]: "plain_bytes []"
  by (simp_all add: plain_bytes_def)

lemma field_line_plain: "field_line l \<longleftrightarrow> l \<noteq> [] \<and> plain_bytes l"
  by (simp add: field_line_iff plain_bytes_def)

lemma plain_digits: "list_all is_digit s \<Longrightarrow> plain_bytes s"
  by (induction s) (auto simp: is_digit_def CR_def LF_def)

lemma plain_nat_digits [simp]: "plain_bytes (nat_digits 10 n)"
  by (rule plain_digits [OF nat_digits_all_digits])

lemma plain_FormatInt [simp]: "plain_bytes (FormatInt v)"
  by (simp add: FormatInt_def CR_def LF_def)

lemma plain_replicate: "plain_bytes (replicate n c) \<longleftrightarrow> n = 0 \<or> c \<noteq> CR \<and> c \<noteq> LF"
  by (induction n) auto

lemma plain_three_digits [simp]: "plain_bytes (three_digits n)"
  by (simp add: three_digits_def appendInt_def Let_def plain_replicate) (simp add: CR_def LF_def)

lemma plain_status_text [simp]: "plain_bytes (status_text code)"
proof -
  have "list_all (\<lambda>(code, t). plain_bytes t) status_texts" by code_simp
  then have "plain_bytes t" if "map_of status_texts code = Some t" for t
    using map_of_SomeD [OF that] by (auto simp: list_all_iff)
  moreover have "plain_bytes ''status code ''" by code_simp
  ultimately show ?thesis by (simp add: status_text_def split: option.split)
qed

lemma status_line_plain: "field_line (status_line r)"
  by (simp add: field_line_plain status_line_def) (simp add: CR_def LF_def)

lemma plain_name: "list_all valid_field_byte k \<Longrightarrow> plain_bytes k \<and> CHR '':'' \<notin> set k"
proof -
  have "\<not> valid_field_byte CR" "\<not> valid_field_byte LF" "\<not> valid_field_byte CHR '':''"
    by (simp_all add: valid_field_byte_def CR_def LF_def)
  then show "list_all valid_field_byte k \<Longrightarrow> ?thesis" by (induction k) auto
qed

lemma plain_clean [simp]: "plain_bytes (clean_value v)"
proof -
  have blank: "CHR '' '' \<noteq> CR" "CHR '' '' \<noteq> LF" by (simp_all add: CR_def LF_def)
  have "set (clean_value v) \<subseteq> set (map (\<lambda>c. if c = LF \<or> c = CR then CHR '' '' else c) v)"
    by (auto simp: clean_value_def Let_def dest!: set_dropWhileD)
  then show ?thesis using blank by (fastforce simp: plain_bytes_def list_all_iff)
qed

lemma named_lines_field: "l \<in> set (named_lines h k) \<Longrightarrow> field_line l \<and> field_name l = ToLower k"
proof -
  assume l: "l \<in> set (named_lines h k)"
  then obtain v where k: "list_all valid_field_byte k" "k \<noteq> []" "l = k @ '': '' @ clean_value v"
    by (auto simp: named_lines_def split: if_splits)
  have "\<forall>c \<in> set k. c \<noteq> CHR '':''" using plain_name [OF k(1)] by blast
  then have "takeWhile (\<lambda>c. c \<noteq> CHR '':'') l = k" by (simp add: k(3) takeWhile_append2)
  moreover have "plain_bytes '': ''" by code_simp
  ultimately show ?thesis using k plain_name [OF k(1)] by (simp add: field_line_plain field_name_def)
qed

lemma response_fields_plain: "list_all field_line (response_fields r)"
proof -
  have "plain_bytes ''Connection: close''" "plain_bytes ''Content-Length: ''" "plain_bytes ''Content-Length: 0''" by code_simp+
  moreover have "list_all field_line (WriteSubset (rs_Header r) respExcludeHeader)"
    by (auto simp: WriteSubset_def list_all_iff dest: named_lines_field)
  ultimately show ?thesis by (simp add: response_fields_def transfer_lines_def zero_length_line_def field_line_plain)
qed

section \<open>The status can be read back\<close>

lemma SplitByte_none: "c \<notin> set s \<Longrightarrow> SplitByte s c = [s]"
  by (induction s) auto

lemma SplitByte_first: "c \<notin> set a \<Longrightarrow> SplitByte (a @ c # b) c = a # SplitByte b c"
  by (induction a) auto

lemma trim_after:
  assumes "x \<noteq> []" "\<not> P (last x)"
  shows "rev (dropWhile P (rev (x @ y))) = x @ rev (dropWhile P (rev y))"
proof -
  obtain z c where "x = z @ [c]" "\<not> P c" using assms by (cases x rule: rev_cases) auto
  then show ?thesis by (cases "\<forall>b \<in> set y. P b") (auto simp: dropWhile_append dropWhile_append1 dropWhile_eq_Nil_conv)
qed

lemma digit_not_space: "is_digit c \<Longrightarrow> \<not> is_space c \<and> c \<noteq> CHR '' ''"
  by (auto simp: is_digit_def is_space_def Let_def)

lemma TrimSpace_digits: "list_all is_digit s \<Longrightarrow> TrimSpace s = s"
proof -
  have "dropWhile is_space t = t" if "list_all is_digit t" for t
    using that digit_not_space by (cases t) auto
  then show "list_all is_digit s \<Longrightarrow> ?thesis" by (simp add: TrimSpace_def)
qed

lemma TrimSpace_CRLF: "TrimSpace (s @ CRLF) = TrimSpace s"
proof -
  have sp: "is_space CR" "is_space LF" by (simp_all add: is_space_def CR_def LF_def)
  show ?thesis
    using sp by (cases "\<forall>c \<in> set s. is_space c") (auto simp: TrimSpace_def CRLF_def dropWhile_append dropWhile_append1 dest!: set_dropWhileD)
qed

text \<open>The second word of a line is its status, when it is a number.\<close>

lemma status_of_words:
  assumes "a \<noteq> []" "\<not> is_space (hd a)" "CHR '' '' \<notin> set a" "d \<noteq> []" "list_all is_digit d" "strconvAtoi d = Some n"
  shows "status_of (a @ '' '' @ d @ '' '' @ t) = n"
proof -
  let ?x = "a @ '' '' @ d"
  have d: "CHR '' '' \<notin> set d" "\<not> is_space (last d)"
    using assms(4,5) digit_not_space by (auto simp: list_all_iff)
  define y where "y = rev (dropWhile is_space (rev ('' '' @ t)))"
  have y: "y = [] \<or> (\<exists>u. y = CHR '' '' # u)"
  proof (cases "\<forall>c \<in> set t. is_space c")
    case True
    then have "y = []" by (simp add: y_def is_space_def)
    then show ?thesis ..
  next
    case False
    then have "y = CHR '' '' # rev (dropWhile is_space (rev t))" by (auto simp: y_def dropWhile_append1)
    then show ?thesis by blast
  qed
  have "dropWhile is_space (a @ '' '' @ d @ '' '' @ t) = a @ '' '' @ d @ '' '' @ t"
    using assms(1,2) by (cases a) auto
  then have "TrimSpace (a @ '' '' @ d @ '' '' @ t) = ?x @ y"
    using trim_after [of ?x is_space "'' '' @ t"] assms(4) d(2) by (simp add: TrimSpace_def y_def)
  moreover have "SplitByte (d @ y) (CHR '' '') ! 0 = d"
    using y SplitByte_none [OF d(1)] SplitByte_first [OF d(1)] by auto
  moreover have "SplitByte (?x @ y) (CHR '' '') = a # SplitByte (d @ y) (CHR '' '')"
    using SplitByte_first [OF assms(3), of "d @ y"] by simp
  moreover have "0 < length (SplitByte (d @ y) (CHR '' ''))" by simp
  ultimately show ?thesis using assms(6) by (simp add: status_of_def Let_def Suc_le_eq)
qed

lemma wrap64_step: "wrap64 (wrap64 n * 10 + d) = wrap64 (n * 10 + d)"
proof -
  define q where "q = (n + 2 ^ 63) div 2 ^ 64"
  have "wrap64 n = n - 2 ^ 64 * q"
    using minus_mult_div_eq_mod [of "n + 2 ^ 63" "2 ^ 64"] by (simp add: wrap64_def q_def)
  then have "wrap64 n * 10 + d + 2 ^ 63 = n * 10 + d + 2 ^ 63 + 2 ^ 64 * (- 10 * q)" by (simp add: algebra_simps)
  then show ?thesis unfolding wrap64_def [of "wrap64 n * 10 + d"] by (simp only: mod_mult_self2 wrap64_def)
qed

lemma atoi_loop_value:
  "list_all is_digit s \<Longrightarrow> atoi_loop (wrap64 n) s = Some (wrap64 (foldl (\<lambda>a c. a * 10 + int (digit_val c)) n s))"
  by (induction s arbitrary: n) (simp_all add: wrap64_step)

lemma int_dec_value: "int (foldl (\<lambda>a c. a * 10 + digit_val c) n s) = foldl (\<lambda>a c. a * 10 + int (digit_val c)) (int n) s"
  by (induction s arbitrary: n) (simp_all add: algebra_simps)

lemma strconvAtoi_digits:
  assumes "list_all is_digit s" "dec_value s < 2 ^ 63"
  shows "strconvAtoi s = Some (int (dec_value s))"
proof -
  have "in_i64 (int (dec_value s))" using assms(2) by (simp add: in_i64_def)
  with atoi_loop_value [OF assms(1), of 0] int_dec_value [of 0 s] show ?thesis
    by (simp add: strconvAtoi_def dec_value_def)
qed

lemma strconvAtoi_FormatInt: "0 \<le> n \<Longrightarrow> in_i64 n \<Longrightarrow> strconvAtoi (FormatInt n) = Some n"
  using strconvAtoi_digits [of "nat_digits 10 (nat n)"] nat_digits_all_digits [of "nat n"]
  by (simp add: FormatInt_def in_i64_def nat_less_iff)

lemma three_digits_value:
  assumes "0 \<le> n" "n \<le> 999"
  shows "list_all is_digit (three_digits n)" "three_digits n \<noteq> []" "strconvAtoi (three_digits n) = Some n"
proof -
  let ?s = "nat_digits 10 (nat n)"
  have t: "three_digits n = replicate (3 - length ?s) CHR ''0'' @ ?s" using assms by (simp add: three_digits_def appendInt_def Let_def)
  have zero: "is_digit CHR ''0''" "digit_val CHR ''0'' = 0" by (simp_all add: is_digit_def digit_val_def)
  show all: "list_all is_digit (three_digits n)" unfolding t by (auto simp: list_all_iff zero nat_digits_all_digits [unfolded list_all_iff])
  show "three_digits n \<noteq> []" unfolding t by simp
  have "foldl (\<lambda>a c. a * 10 + digit_val c) 0 (replicate m CHR ''0'') = 0" for m
    by (induction m) (simp_all add: zero)
  then have "dec_value (three_digits n) = nat n" unfolding t using dec_value_digits [of "nat n"] by (simp add: dec_value_def)
  with strconvAtoi_digits [OF all] assms show "strconvAtoi (three_digits n) = Some n" by simp
qed

lemma status_of_line:
  assumes "0 \<le> rs_Status r" "rs_Status r \<le> 999"
  shows "status_of (status_line r) = rs_Status r" "status_of (status_line r @ CRLF) = rs_Status r"
proof -
  let ?a = "''HTTP/'' @ FormatInt (rs_ProtoMajor r) @ ''.'' @ FormatInt (rs_ProtoMinor r)"
  have fmt: "CHR '' '' \<notin> set (FormatInt v)" for v
    using nat_digits_all_digits digit_not_space by (auto simp: FormatInt_def list_all_iff)
  have "\<not> is_space CHR ''H''" by (simp add: is_space_def)
  then have "status_of (?a @ '' '' @ three_digits (rs_Status r) @ '' '' @ status_text (rs_Status r)) = rs_Status r"
    using fmt by (intro status_of_words three_digits_value [OF assms]) simp_all
  then show "status_of (status_line r) = rs_Status r" by (simp add: status_line_def)
  then show "status_of (status_line r @ CRLF) = rs_Status r" by (simp add: status_of_def TrimSpace_CRLF)
qed

section \<open>The length can be read back\<close>

lemma subset_no_length:
  assumes "hdr_ok h" "l \<in> set (WriteSubset h respExcludeHeader)"
  shows "field_name l \<noteq> ''content-length''"
proof
  assume n: "field_name l = ''content-length''"
  obtain k where k: "l \<in> set (named_lines h k)" "k \<in> fmdom' h" "k \<notin> respExcludeHeader"
    using assms(2) by (auto simp: WriteSubset_def)
  have valid: "list_all valid_field_byte k" using k(1) by (auto simp: named_lines_def split: if_splits)
  have "list_all valid_field_byte ''Content-Length''" "canon ''Content-Length'' = ''Content-Length''"
    "ToLower ''Content-Length'' = ''content-length''" by code_simp+
  moreover have "ToLower k = ''content-length''" using named_lines_field [OF k(1)] n by simp
  ultimately have "canon k = ''Content-Length''" using canon_cong_lower [OF valid] by metis
  then show False using k(2,3) assms(1) by (auto simp: hdr_ok_def respExcludeHeader_def)
qed

lemma length_line: "field_name (''Content-Length: '' @ s) = ''content-length''"
proof -
  have "takeWhile (\<lambda>c. c \<noteq> CHR '':'') (''Content-Length: '' @ s) = ''Content-Length''" by simp
  moreover have "ToLower ''Content-Length'' = ''content-length''" by code_simp
  ultimately show ?thesis by (simp add: field_name_def)
qed

text \<open>The first length in the head, if there is one, is that of the response.\<close>

lemma content_length_fields:
  assumes "hdr_ok (rs_Header r)" "in_i64 (rs_ContentLength r)" "- 1 \<le> sent_length r" "bodyAllowedForStatus (rs_Status r)"
  shows "content_length (response_fields r) = (if sent_length r = - 1 then None else Some (sent_length r))"
proof -
  let ?p = "\<lambda>l. field_name l = ''content-length''"
  have conn: "field_name ''Connection: close'' \<noteq> ''content-length''" by code_simp
  have sub: "filter ?p (WriteSubset (rs_Header r) respExcludeHeader) = []"
    using subset_no_length [OF assms(1)] by (simp add: filter_empty_conv)
  have zero: "FormatInt 0 = ''0''" by code_simp
  have fs: "filter ?p (response_fields r) = (if sent_length r = - 1 then [] else [''Content-Length: '' @ FormatInt (sent_length r)])"
    using assms(3,4) conn sub length_line [of "FormatInt (sent_length r)"] length_line [of "''0''"] zero
    by (auto simp: response_fields_def transfer_lines_def zero_length_line_def shouldSendContentLength_def)
  have n: "strconvAtoi (FormatInt (sent_length r)) = Some (sent_length r)" if "sent_length r \<noteq> - 1"
    using that assms(2,3) by (intro strconvAtoi_FormatInt) (auto simp: sent_length_def split: if_splits)
  have blank: "TrimSpace (CHR '' '' # s) = TrimSpace s" for s by (simp add: TrimSpace_def is_space_def)
  have "TrimSpace (drop (Suc (length (field_name (''Content-Length: '' @ FormatInt (sent_length r)))))
      (''Content-Length: '' @ FormatInt (sent_length r))) = FormatInt (sent_length r)" if "sent_length r \<noteq> - 1"
    using that assms(3) FormatInt_digits [of "sent_length r"] by (simp only: length_line) (simp add: blank TrimSpace_digits)
  with fs n show ?thesis by (simp add: content_length_def)
qed

section \<open>Reading back what was written\<close>

text \<open>
  A response that can be delivered: its status has three digits and is final, its write ends without an
  error, and it has no body where its status allows none.
\<close>

definition deliverable :: "Response \<Rightarrow> bool" where
  "deliverable r \<longleftrightarrow> 200 \<le> rs_Status r \<and> rs_Status r \<le> 999 \<and> snd (Response_Write r) \<and> in_i64 (rs_ContentLength r) \<and>
     (bodyAllowedForStatus (rs_Status r) \<or> rs_Body r = [])"

definition bodyless :: "Response \<Rightarrow> bool" where
  "bodyless r \<longleftrightarrow> rs_Method r = ''HEAD'' \<or> \<not> bodyAllowedForStatus (rs_Status r)"

lemma read_written:
  assumes "deliverable r" "hdr_ok (rs_Header r)"
  shows "read_response (rs_Method r) (fst (Response_Write r) @ later) =
    Some (rs_Status r, response_fields r,
      if bodyless r then Complete [] later
      else if sent_length r = - 1 then UntilClose (rs_Body r @ later) else Complete (rs_Body r) later)"
proof -
  let ?head = "lines_text (status_line r # response_fields r)"
  let ?s = "?head @ CRLF @ sent_body r @ later"
  have lines: "list_all field_line (status_line r # response_fields r)"
    using status_line_plain response_fields_plain by simp
  have idx: "Index (CRLF @ CRLF) ?s = Some (length ?head - 2)"
    using Index_blank_line [of "response_fields r" "status_line r" "sent_body r @ later"] lines by simp
  have split: "split_lines (take (length ?head - 2) ?s) = status_line r # response_fields r"
    by (rule split_lines_text [OF lines])
  note rest = after_blank_line [of "status_line r" "response_fields r" "sent_body r @ later"]
  have code: "status_of (status_line r) = rs_Status r" using assms(1) by (intro status_of_line) (auto simp: deliverable_def)
  have body: "bodyless r \<Longrightarrow> sent_body r = []"
    using assms(1) by (auto simp: bodyless_def deliverable_def sent_body_def)
  have full: "\<not> bodyless r \<Longrightarrow> sent_length r = - 1 \<or> sent_length r = int (length (rs_Body r))"
    using assms(1) by (auto simp: bodyless_def deliverable_def Response_Write_def)
  have cl: "\<not> bodyless r \<Longrightarrow> content_length (response_fields r) = (if sent_length r = - 1 then None else Some (sent_length r))"
    using assms full by (intro content_length_fields) (auto simp: deliverable_def bodyless_def)
  have "fst (Response_Write r) @ later = ?s" by (simp add: Response_Write_def)
  then have "read_response (rs_Method r) (fst (Response_Write r) @ later) = Some (rs_Status r, response_fields r,
      if bodyless r then Complete [] (sent_body r @ later)
      else case content_length (response_fields r) of None \<Rightarrow> UntilClose (sent_body r @ later)
        | Some n \<Rightarrow> if nat n \<le> length (sent_body r @ later)
            then Complete (take (nat n) (sent_body r @ later)) (drop (nat n) (sent_body r @ later)) else Partial)"
    by (simp only: read_response_def idx option.case split list.case Let_def rest code bodyless_def)
  then show ?thesis
    using body full cl by (cases "bodyless r"; cases "sent_length r = - 1") (auto simp: sent_body_def bodyless_def)
qed

text \<open>The responses to a sequence of requests, read one after the other from the bytes of a connection.\<close>

fun read_all :: "string list \<Rightarrow> string \<Rightarrow> ((int \<times> string list \<times> string) list \<times> string) option" where
  "read_all [] s = Some ([], s)"
| "read_all (meth # meths) s =
     (case read_response meth s of
        Some (code, ls, Complete body rest) \<Rightarrow>
          map_option (\<lambda>(rs, rest). ((code, ls, body) # rs, rest)) (read_all meths rest)
      | _ \<Rightarrow> None)"

definition delimited :: "Response \<Rightarrow> bool" where
  "delimited r \<longleftrightarrow> bodyless r \<or> sent_length r \<noteq> - 1"

definition as_read :: "Response \<Rightarrow> int \<times> string list \<times> string" where
  "as_read r = (rs_Status r, response_fields r, if bodyless r then [] else rs_Body r)"

definition written :: "Response list \<Rightarrow> string" where
  "written rs = concat (map (\<lambda>r. fst (Response_Write r)) rs)"

lemma read_all_written:
  "\<forall>r \<in> set rs. deliverable r \<and> hdr_ok (rs_Header r) \<and> delimited r \<Longrightarrow>
     read_all (map rs_Method rs) (written rs @ later) = Some (map as_read rs, later)"
proof (induction rs)
  case (Cons r rs)
  then have "read_response (rs_Method r) (fst (Response_Write r) @ written rs @ later) =
      Some (rs_Status r, response_fields r, Complete (if bodyless r then [] else rs_Body r) (written rs @ later))"
    using read_written [of r "written rs @ later"] by (auto simp: delimited_def)
  with Cons show ?case by (simp add: written_def as_read_def)
qed (simp add: written_def)

section \<open>The translator of the HTTP/2 handler\<close>

lemma head_lines:
  "take (length (lines_text (l # ls)) - 2) (lines_text (l # ls) @ s) =
     (if ls = [] then l else l @ CRLF @ concat (map (\<lambda>l. l @ CRLF) (butlast ls)) @ last ls)"
  by (cases ls rule: rev_cases) (simp_all add: lines_text_def CRLF_def)

text \<open>
  A response that is written to the translator, with whatever follows: status, all header lines but the
  last, and a body that goes on with what follows.
\<close>

lemma rt_Write_response:
  assumes "map_range rng" "200 \<le> rs_Status r" "rs_Status r \<le> 999"
  shows "\<exists>rt h. rt_Write rng (fst (Response_Write r) @ later) \<lparr>rt_w = new_writer, rt_buf = [], rt_parsed = False\<rparr> = Ret rt \<and>
    rw_sent (rt_w rt) = Some (rs_Status r, h) \<and> rw_body (rt_w rt) = sent_body r @ later \<and>
    (\<forall>k. hdr_values h k = hdr_values (foldl (\<lambda>h l. header_field l h) fmempty (butlast (response_fields r))) k)"
proof -
  let ?ls = "response_fields r" and ?rt = "\<lparr>rt_w = new_writer, rt_buf = [], rt_parsed = False\<rparr>"
  let ?text = "lines_text (status_line r # ?ls)" and ?H = "foldl (\<lambda>h l. header_field l h) fmempty (butlast (response_fields r))"
  have lines: "list_all field_line ?ls" "field_line (status_line r)" using status_line_plain response_fields_plain by auto
  have idx: "Index (CRLF @ CRLF) (?text @ CRLF @ sent_body r @ later) = Some (length ?text - 2)"
    using Index_blank_line [OF lines] .
  note rest = after_blank_line [of "status_line r" ?ls "sent_body r @ later"]
  define head where "head = take (length ?text - 2) (?text @ CRLF @ sent_body r @ later)"
  have "fst (Response_Write r) @ later = ?text @ CRLF @ sent_body r @ later" by (simp add: Response_Write_def)
  then have emit: "rt_Write rng (fst (Response_Write r) @ later) ?rt = rt_emit rng head (sent_body r @ later) ?rt"
    using idx rest by (simp add: rt_Write_def head_def)
  have LF: "LF \<notin> set (status_line r)" using lines(2) by (simp add: field_line_def)
  have "\<exists>line eof. read_line head = (line, if ?ls = [] then [] else concat (map (\<lambda>l. l @ CRLF) (butlast ?ls)) @ last ?ls, eof) \<and>
      status_of line = rs_Status r"
    using head_lines [of "status_line r" ?ls "CRLF @ sent_body r @ later"] read_line_crlf [OF LF] read_line_last [OF LF]
      status_of_line [of r] assms(2,3) by (auto simp: head_def)
  then obtain line eof where rl: "read_line head = (line, if ?ls = [] then [] else concat (map (\<lambda>l. l @ CRLF) (butlast ?ls)) @ last ?ls, eof)"
      "status_of line = rs_Status r" by blast
  have "list_all field_line (butlast ?ls)" "?ls \<noteq> [] \<Longrightarrow> LF \<notin> set (last ?ls)"
    using lines(1) by (auto simp: list_all_iff field_line_def dest: in_set_butlastD)
  then have hl: "header_loop (if ?ls = [] then [] else concat (map (\<lambda>l. l @ CRLF) (butlast ?ls)) @ last ?ls) fmempty = ?H"
    using header_loop_lines [of "butlast ?ls" "last ?ls" fmempty] header_loop_lines [of "[]" "[]" fmempty] by auto
  have ok: "hdr_ok ?H" by (rule hdr_ok_fields) simp
  show ?thesis
    using assms(2,3) add_all_values [OF assms(1) ok] unfolding emit rt_emit_def rl(1) Let_def prod.case hl rl(2)
    by (auto simp: WriteHeader_def rw_Write_def new_writer_def)
qed

end
