(* ===== verification/GP_WireProps.thy ===== *)
theory GP_WireProps
  imports GP_ConnectionProps GP_H2Props GP_Wire
begin

text \<open>
  What a client sees of the responses: the bytes on an HTTP/1 connection, taken apart by the rules for
  the length of messages, and what the HTTP/2 handler makes of the same bytes.
\<close>

section \<open>Reading an HTTP/1 connection\<close>

text \<open>
  C6. A client can read the connection: when all responses that an unlimited connection wrote could be
  delivered and have a known length, a client that reads the bytes with the methods of its requests
  gets exactly one response for each request, in order, with its status, its header lines and its whole
  body, and what comes later on the connection is left for later. The responses of the proxy itself are
  of this kind; for those of an upstream it is what the proxy got from its HTTP client.
\<close>
theorem client_reads_connection:
  assumes "Handle (http_filters False cfg) c ins k = Ret (r, k')" "k_out k' = k_out k @ wss"
    and "\<forall>ws \<in> set wss. \<forall>w \<in> set ws. \<exists>x. w = Sent x \<and> deliverable x \<and> delimited x"
  shows "\<exists>n xs. Handle (http_filters False cfg) c (take n ins) k = Ret (r, k') \<and> wss = map (\<lambda>x. [Sent x]) xs \<and>
    read_all (map (\<lambda>(e, req). rq_Method req) (requests_of (take n ins))) (written xs @ later) = Some (map as_read xs, later)"
proof -
  obtain n where out: "reads (http_filters False cfg) c ins k (r, k') n"
      "list_all2 (\<lambda>(e, req). single_response (rq_Method req)) (requests_of (take n ins)) wss"
    using Handle_out [OF assms(1)] assms(2) by auto
  have "\<exists>xs. wss = map (\<lambda>x. [Sent x]) xs \<and> map rs_Method xs = map (\<lambda>(e, req). rq_Method req) rqs \<and>
      (\<forall>x \<in> set xs. deliverable x \<and> hdr_ok (rs_Header x) \<and> delimited x)"
    if "list_all2 (\<lambda>(e, req). single_response (rq_Method req)) rqs wss" for rqs :: "(req_env \<times> Request) list"
    using that assms(3)
  proof (induction rule: list_all2_induct)
    case (Cons rq rqs ws wss)
    obtain e req where rq: "rq = (e, req)" by force
    obtain x where x: "ws = [Sent x]" "answers (rq_Method req) (Sent x)" "deliverable x" "delimited x"
      using Cons.hyps(1) Cons.prems by (auto simp: rq single_response_def)
    obtain xs where "wss = map (\<lambda>x. [Sent x]) xs" "map rs_Method xs = map (\<lambda>(e, req). rq_Method req) rqs"
        "\<forall>x \<in> set xs. deliverable x \<and> hdr_ok (rs_Header x) \<and> delimited x"
      using Cons.IH Cons.prems by auto
    with x rq show ?case by (intro exI [of _ "x # xs"]) (simp add: answers_def)
  qed simp
  from this [OF out(2)] obtain xs where xs: "wss = map (\<lambda>x. [Sent x]) xs"
      "map rs_Method xs = map (\<lambda>(e, req). rq_Method req) (requests_of (take n ins))"
      "\<forall>x \<in> set xs. deliverable x \<and> hdr_ok (rs_Header x) \<and> delimited x" by blast
  then show ?thesis using out(1) read_all_written [OF xs(3), of later] by (auto simp: reads_def)
qed

lemma own_deliverable:
  "200 \<le> status \<Longrightarrow> status \<le> 999 \<Longrightarrow> bodyAllowedForStatus status \<Longrightarrow> body \<noteq> [] \<Longrightarrow> length body < 2 ^ 63 \<Longrightarrow>
     deliverable (text_response req status body close) \<and> delimited (text_response req status body close)"
  by (auto simp: deliverable_def delimited_def text_response_def Response_Write_def sent_length_def in_i64_def)

theorem client_reads_connection_witness:
  "\<exists>k' n x. Handle (http_filters False (ex_config\<lparr>Routes := []\<rparr>)) ex_ctx ex_ins ex_conn = Ret (None, k') \<and> k_out k' = [[Sent x]] \<and>
     read_all (map (\<lambda>(e, req). rq_Method req) (requests_of (take n ex_ins))) (written [x]) = Some ([as_read x], [])"
proof -
  let ?cfg = "ex_config\<lparr>Routes := []\<rparr>" and ?s = "prepared ex_renv (start_state ex_ctx ex_renv ex_req ex_conn)"
  have cl: "rc_UpstreamCluster (routed ex_renv ?cfg (us_rc (cs_us ?s))) = []" "\<not> rc_Responded (routed ex_renv ?cfg (us_rc (cs_us ?s)))"
      "rc_W (routed ex_renv ?cfg (us_rc (cs_us ?s))) = []"
    by (simp_all add: routed_def router_cluster prepared_def start_state_def on_rc_def new_rc_def ex_config_def)
  then have "Chain_Run ex_renv (http_filters False ?cfg) (start_state ex_ctx ex_renv ex_req ex_conn) = Ret (None, on_rc (routed ex_renv ?cfg) ?s)"
    by (simp add: chain_unlimited proxied_def Upstream_OnRequest_def cluster_of_def on_rc_def)
  then obtain k1 where "handle_request (http_filters False ?cfg) ex_ctx ex_renv ex_req ex_conn = Ret (Continue, k1)"
      "k_out k1 = [[Sent (text_response ex_req 404 (''no route'' @ newline) False)]]"
    using cl by (simp add: handle_request_def on_rc_def own_response_def account_def Let_def text_response_def ex_renv_def ex_conn_def
        ex_req_def)
  then have run: "Handle (http_filters False ?cfg) ex_ctx ex_ins ex_conn = Ret (None, k1)"
      "k_out k1 = k_out ex_conn @ [[Sent (text_response ex_req 404 (''no route'' @ newline) False)]]"
    by (simp_all add: ex_ins_def read_verdict_def ex_conn_def)
  have "deliverable (text_response ex_req 404 (''no route'' @ newline) False) \<and> delimited (text_response ex_req 404 (''no route'' @ newline) False)"
    by (rule own_deliverable) (simp_all add: bodyAllowedForStatus_def newline_def)
  then have "\<forall>ws \<in> set [[Sent (text_response ex_req 404 (''no route'' @ newline) False)]]. \<forall>w \<in> set ws. \<exists>x. w = Sent x \<and> deliverable x \<and> delimited x"
    by simp
  from client_reads_connection [OF run this, of "[]"] run show ?thesis by (auto simp: ex_conn_def)
qed

section \<open>A connection that is not closed\<close>

text \<open>
  C35. The loop looks at what the request says about closing the connection, not at what the response
  says: after a response that was written, a connection whose request does not ask to close it waits
  for the next request. So a response that announces the end of the connection (the 503, 504 and 429 of
  the filters do) is not followed by it; and the response of an upstream whose length is not known, because
  it was sent in chunks or was decompressed, has a body that a client has to read up to an end of
  the connection that does not come.
\<close>
theorem connection_left_open:
  assumes "Chain_Run e (http_filters False cfg) (start_state c e req k) = Ret (err, s)"
    and "rc_W (us_rc (cs_us s)) = [Sent x]" "rc_Responded (us_rc (cs_us s))" "\<not> rq_Close req" "re_flush e"
  shows "Handle (http_filters False cfg) c [GotRequest e req] k = Blocked \<and>
    (sent_close x \<and> hdr_values (rs_Header x) ''Connection'' = [] \<longrightarrow> ''Connection: close'' \<in> set (response_fields x)) \<and>
    (deliverable x \<and> \<not> delimited x \<longrightarrow>
      read_response (rq_Method req) (fst (Response_Write x)) = Some (rs_Status x, response_fields x, UntilClose (rs_Body x)))"
proof -
  obtain k' where run: "handle_request (http_filters False cfg) c e req k = Ret (Continue, k')" "k_out k' = k_out k @ [[Sent x]]"
    using assms by (simp add: handle_request_def Let_def account_def)
  then have "answers (rq_Method req) (Sent x)"
    using handle_request_out [OF run(1)] by (auto simp: single_response_def)
  moreover have "\<not> hasToken [] ''close''" by code_simp
  ultimately show ?thesis
    using run(1) read_written [of x "[]"]
    by (auto simp: answers_def delimited_def response_fields_def transfer_lines_def hdr_get_def)
qed

text \<open>A cluster with a free endpoint that answers.\<close>

definition free_world :: world where
  "free_world = \<lparr>w_cm = fmupd ''web'' (full_cluster\<lparr>state := fmupd ''a'' new_epState fmempty\<rparr>) fmempty,
     w_reg = empty_registry, w_queue = fmempty\<rparr>"

lemma answered_run:
  assumes "cluster_of s = ''web''" "w_cm (us_w s) = w_cm free_world" "us_sched s = (\<lambda>_ w. w)"
    and "0 < max_attempts (request_policy u (us_rc s)) (rc_Req (us_rc s))" "envs 0 = ex_env\<lparr>ae_do := \<lambda>_. Inr resp\<rparr>"
  shows "\<exists>s'. Upstream_OnRequest rng u envs s = Ret (None, s') \<and> rc_Responded (us_rc s') \<and>
    rc_W (us_rc s') = rc_W (us_rc s) @ [Sent (downstream_response rng (rc_Req (us_rc s)) resp)]"
proof -
  have c: "cluster_of s \<noteq> []" using assms(1) by simp
  show ?thesis
    using assms(1-3,5) unfolding Upstream_OnRequest_def Let_def if_not_P [OF c]
    by (subst attempt_loop.simps)
      (simp add: assms(4) free_world_def ex_http_defs one_attempt_def others_def picked_def acquire_def cluster_of_def TryAcquire_def
        set_inflight_def wrap64_01 pick_and_try_def Pick_def snapshotEndpoints_def pick_random_def isAvailable_def
        underEndpointCap_def Before_def zeroTime_def try_endpoint_def on_response_def call_def tally_def release_slot_def
        build_request_def case_prod_beta Let_def)
qed

definition chunked_resp :: Response where
  "chunked_resp = ex_resp\<lparr>rs_ContentLength := - 1\<rparr>"

definition answer_env :: "Response \<Rightarrow> req_env" where
  "answer_env resp = ex_renv\<lparr>re_attempts := \<lambda>_. ex_env\<lparr>ae_do := \<lambda>_. Inr resp\<rparr>\<rparr>"

definition free_conn :: conn_state where
  "free_conn = ex_conn\<lparr>k_w := free_world\<rparr>"

theorem connection_left_open_witness:
  "\<exists>x. Handle (http_filters False (ex_config\<lparr>Clusters := []\<rparr>)) ex_ctx [GotRequest (answer_env chunked_resp) ex_req] free_conn = Blocked \<and>
     read_response ''POST'' (fst (Response_Write x)) = Some (200, response_fields x, UntilClose ''ok'')"
proof -
  let ?e = "answer_env chunked_resp" and ?cfg = "ex_config\<lparr>Clusters := []\<rparr>"
  let ?u = "NewUpstreamProxy (Clusters ?cfg)" and ?s = "prepared ?e (start_state ex_ctx ?e ex_req free_conn)"
  let ?us = "cs_us (on_rc (routed ?e ?cfg) ?s)"
  let ?x = "downstream_response (re_rng ?e) (rc_Req (us_rc ?us)) chunked_resp"
  have path: "first_match (rq_Path ex_req) (Routes ?cfg) = Some 0" "rr_Cluster (Routes ?cfg ! 0) = ''web''"
    by (simp_all add: ex_config_def ex_route_def ex_req_def go_defs)
  have early: "rc_UpstreamCluster (us_rc (cs_us ?s)) = []" "rq_Path (rc_Req (us_rc (cs_us ?s))) = rq_Path ex_req"
      "rc_RetryOverride (us_rc (cs_us ?s)) = None"
    by (simp_all add: prepared_def start_state_def on_rc_def new_rc_def ForwardedHeaders_OnRequest_def Let_def)
  have us: "cluster_of ?us = ''web''" using early path by (simp add: cluster_of_def on_rc_def routed_def router_cluster)
  have w: "w_cm (us_w ?us) = w_cm free_world" "us_sched ?us = (\<lambda>_ w. w)"
    by (simp_all add: on_rc_def prepared_def start_state_def free_conn_def answer_env_def ex_renv_def)
  have tries: "0 < max_attempts (request_policy ?u (us_rc ?us)) (rc_Req (us_rc ?us))"
    using no_override [OF early(3)] by (simp add: on_rc_def one_try)
  have env: "re_attempts ?e 0 = ex_env\<lparr>ae_do := \<lambda>_. Inr chunked_resp\<rparr>" by (simp add: answer_env_def)
  have W: "rc_W (us_rc ?us) = []" by (simp add: on_rc_def routed_def prepared_def start_state_def new_rc_def)
  from answered_run [where envs = "re_attempts ?e" and resp = chunked_resp, OF us w tries env, of "re_rng ?e"] W obtain us' where
    up: "Upstream_OnRequest (re_rng ?e) ?u (re_attempts ?e) ?us = Ret (None, us')" "rc_Responded (us_rc us')" "rc_W (us_rc us') = [Sent ?x]"
    by auto
  then have run: "Chain_Run ?e (http_filters False ?cfg) (start_state ex_ctx ?e ex_req free_conn) = Ret (None, ?s\<lparr>cs_us := us'\<rparr>)"
    by (simp add: chain_unlimited proxied_def)
  have "\<not> rq_Close ex_req" "re_flush ?e" by (simp_all add: ex_req_def answer_env_def ex_renv_def)
  note left = connection_left_open [OF run _ _ this, of ?x]
  have org: "origin (us_rc ?us) = (''POST'', rq_Path ex_req, cc_Remote ex_ctx, re_start ?e)"
    by (simp add: on_rc_def origin_routed prepared_def origin_forwarded start_state_def) (simp add: origin_def new_rc_def ex_req_def)
  then have meth: "rq_Method (rc_Req (us_rc ?us)) = ''POST''" by (simp add: origin_def)
  have "deliverable ?x" "\<not> delimited ?x" "rs_Status ?x = 200" "rs_Body ?x = ''ok''"
    using meth
    by (simp_all add: downstream_response_def chunked_resp_def ex_resp_def deliverable_def delimited_def Response_Write_def bodyless_def
        bodyAllowedForStatus_def sent_length_def in_i64_def)
  with left up(2,3) show ?thesis by (intro exI [of _ ?x]) (simp add: ex_req_def)
qed

section \<open>The same bytes over HTTP/2\<close>

text \<open>The chain of the HTTP/2 handler.\<close>

definition h2_proxied :: "req_env \<Rightarrow> ProxyConfig \<Rightarrow> cstate \<Rightarrow> (uerr option \<times> cstate) go" where
  "h2_proxied e cfg s =
     go_bind (Upstream_OnRequest (re_rng e) (NewUpstreamProxy (Clusters cfg)) (re_attempts e)
                (cs_us (on_rc (Router_OnRequest (Routes cfg)) s)))
       (\<lambda>(err, us). Ret (err, s\<lparr>cs_us := us\<rparr>))"

definition h2_start :: "string \<Rightarrow> bool \<Rightarrow> req_env \<Rightarrow> Request \<Rightarrow> world \<times> RateLimiter option \<times> log_line list \<Rightarrow> cstate" where
  "h2_start addr tls e req st =
     \<lparr>cs_us = \<lparr>us_rc = new_rc req (OtherAddr addr) (re_start e) tls, us_w = fst st, us_trace = [], us_sched = re_sched e, us_clock = 0\<rparr>,
      cs_rl = fst (snd st), cs_log = snd (snd st)\<rparr>"

lemma h2_tail:
  "Chain_Run e [FRouter (Routes cfg), FUpstream (NewUpstreamProxy (Clusters cfg))] s = h2_proxied e cfg s"
proof (cases "Upstream_OnRequest (re_rng e) (NewUpstreamProxy (Clusters cfg)) (re_attempts e)
    (cs_us (on_rc (Router_OnRequest (Routes cfg)) s))")
  case (Ret r)
  then show ?thesis by (cases r) (auto simp: h2_proxied_def on_rc_def split: option.splits)
qed (simp_all add: h2_proxied_def on_rc_def)

lemma h2_head:
  "Chain_Run e (h2_filters hasLimiter cfg) s =
     Chain_Run e ((if hasLimiter then [FRateLimit] else []) @ [FRouter (Routes cfg), FUpstream (NewUpstreamProxy (Clusters cfg))])
       (prepared e s)"
  by (simp add: h2_filters_def Chain_Run.simps(2) [of e FLogging] Chain_Run.simps(2) [of e "FForwarded _"] prepared_def
      del: Chain_Run.simps)

lemma h2_unlimited: "Chain_Run e (h2_filters False cfg) s = h2_proxied e cfg (prepared e s)"
  by (simp add: h2_head h2_tail del: Chain_Run.simps)

text \<open>What a client of the handler gets when its chain has written a response, in pieces of any size, and more.\<close>

definition cuts :: "(wire \<Rightarrow> string list) \<Rightarrow> bool" where
  "cuts ser \<longleftrightarrow> (\<forall>x. concat (ser (Sent x)) = fst (Response_Write x)) \<and> (\<forall>w. [] \<notin> set (ser w))"

lemma cuts_whole: "cuts (\<lambda>w. [fst (Response_Write (wire_response w))])"
  by (auto simp: cuts_def Response_Write_def CRLF_def)

lemma ServeHTTP_written:
  assumes "map_range rng" "cuts ser" "Chain_Run e chain (h2_start addr tls e req st) = Ret (err, s)"
    and "rc_W (us_rc (cs_us s)) = Sent x # ws" "rc_Responded (us_rc (cs_us s))" "200 \<le> rs_Status x" "rs_Status x \<le> 999"
  shows "\<exists>out st' h. ServeHTTP ser rng chain addr tls e req st = Ret (out, st') \<and> rw_sent out = Some (rs_Status x, h) \<and>
    rw_body out = sent_body x @ concat (concat (map ser ws)) \<and>
    (\<forall>k. hdr_values h k = hdr_values (foldl (\<lambda>h l. header_field l h) fmempty (butlast (response_fields x))) k)"
proof -
  let ?rt = "\<lparr>rt_w = new_writer, rt_buf = [], rt_parsed = False\<rparr>"
  obtain w rl lg where st: "st = (w, rl, lg)" by (metis surj_pair)
  have bytes: "concat (ser (Sent x)) = fst (Response_Write x)" using assms(2) by (simp add: cuts_def)
  then have "ser (Sent x) \<noteq> []" by (auto simp: Response_Write_def CRLF_def)
  then obtain p ps where p: "ser (Sent x) = p # ps" by (cases "ser (Sent x)") auto
  have "\<forall>q \<in> set (ps @ concat (map ser ws)). q \<noteq> []"
    using assms(2) p by (auto simp: cuts_def) (metis list.set_intros(2))
  then have "rt_WriteAll rng (concat (map ser (Sent x # ws))) ?rt = rt_Write rng (fst (Response_Write x) @ concat (concat (map ser ws))) ?rt"
    using rt_WriteAll_concat [of "ps @ concat (map ser ws)" rng p ?rt] p bytes [symmetric] by simp
  moreover obtain rt h where rt: "rt_Write rng (fst (Response_Write x) @ concat (concat (map ser ws))) ?rt = Ret rt"
      "rw_sent (rt_w rt) = Some (rs_Status x, h)" "rw_body (rt_w rt) = sent_body x @ concat (concat (map ser ws))"
      "\<forall>k. hdr_values h k = hdr_values (foldl (\<lambda>h l. header_field l h) fmempty (butlast (response_fields x))) k"
    using rt_Write_response [OF assms(1,6,7), of "concat (concat (map ser ws))"] by blast
  ultimately have "ServeHTTP ser rng chain addr tls e req st = Ret (rt_w rt, us_w (cs_us s), cs_rl s, cs_log s)"
    using assms(3-5) by (simp add: ServeHTTP_def st h2_start_def)
  with rt show ?thesis by blast
qed

text \<open>
  C25. What an HTTP/2 client gets of an upstream response, however its bytes are cut into writes: its
  status, exactly the body that an HTTP/1 client would read, and all its header lines but the last, in
  the order in which they are written (the length and the closing first, then by name): the last header is lost.
\<close>
theorem h2_response:
  assumes "map_range rng" "cuts ser" "Chain_Run e (h2_filters False cfg) (h2_start addr tls e req st) = Ret (None, s)"
    and "rc_W (us_rc (cs_us s)) = [Sent x]" "deliverable x"
  shows "\<exists>out st' h. ServeHTTP ser rng (h2_filters False cfg) addr tls e req st = Ret (out, st') \<and>
    rw_sent out = Some (rs_Status x, h) \<and>
    (\<forall>k. hdr_values h k = hdr_values (foldl (\<lambda>h l. header_field l h) fmempty (butlast (response_fields x))) k) \<and>
    (case read_response (rq_Method req) (fst (Response_Write x)) of
       Some (code, ls, Complete body rest) \<Rightarrow> code = rs_Status x \<and> ls = response_fields x \<and> rw_body out = body
     | Some (code, ls, UntilClose body) \<Rightarrow> code = rs_Status x \<and> ls = response_fields x \<and> rw_body out = body
     | _ \<Rightarrow> False)"
proof -
  let ?s = "prepared e (h2_start addr tls e req st)"
  let ?us = "cs_us (on_rc (Router_OnRequest (Routes cfg)) ?s)"
  have up: "Upstream_OnRequest (re_rng e) (NewUpstreamProxy (Clusters cfg)) (re_attempts e) ?us = Ret (None, cs_us s)"
    using assms(3) by (auto simp: h2_unlimited h2_proxied_def go_bind_eq_Ret)
  have "origin (us_rc ?us) = origin (new_rc req (OtherAddr addr) (re_start e) tls)"
    by (simp add: on_rc_def origin_router prepared_def origin_forwarded h2_start_def)
  then have meth: "rq_Method (rc_Req (us_rc ?us)) = rq_Method req" by (simp add: origin_def new_rc_def)
  have empty: "rc_W (us_rc ?us) = []" by (simp add: on_rc_def prepared_def h2_start_def new_rc_def)
  then have "cluster_of ?us \<noteq> []" using up assms(4) by (auto simp: Upstream_OnRequest_def)
  then have "answers (rq_Method req) (Sent x)" and resp: "rc_Responded (us_rc (cs_us s))"
    using upstream_wrote [OF up] assms(4) meth empty by (auto simp: attempt_wrote_def answered_def)
  then have x: "rs_Method x = rq_Method req" "hdr_ok (rs_Header x)" by (auto simp: answers_def)
  have body: "bodyless x \<Longrightarrow> sent_body x = []" "\<not> bodyless x \<Longrightarrow> sent_body x = rs_Body x"
    using assms(5) by (auto simp: deliverable_def bodyless_def sent_body_def Response_Write_def)
  have "200 \<le> rs_Status x" "rs_Status x \<le> 999" using assms(5) by (auto simp: deliverable_def)
  from ServeHTTP_written [OF assms(1,2,3,4) resp this] read_written [OF assms(5) x(2), of "[]"] x(1) body show ?thesis
    by (auto split: if_splits)
qed

text \<open>An HTTP/2 request that is routed to the free endpoint and answered there.\<close>

lemma h2_answered:
  assumes "rc_UpstreamCluster (us_rc (cs_us s)) = []" "rq_Path (rc_Req (us_rc (cs_us s))) = rq_Path ex_req"
    and "rc_RetryOverride (us_rc (cs_us s)) = None" "w_cm (us_w (cs_us s)) = w_cm free_world" "us_sched (cs_us s) = (\<lambda>_ w. w)"
  shows "\<exists>s'. h2_proxied (answer_env ex_resp) (ex_config\<lparr>Clusters := []\<rparr>) s = Ret (None, s') \<and>
    rc_W (us_rc (cs_us s')) = rc_W (us_rc (cs_us s)) @ [Sent (downstream_response sorted_range (rc_Req (us_rc (cs_us s))) ex_resp)]"
proof -
  let ?cfg = "ex_config\<lparr>Clusters := []\<rparr>" and ?e = "answer_env ex_resp" and ?u = "NewUpstreamProxy []"
  let ?us = "cs_us (on_rc (Router_OnRequest (Routes ?cfg)) s)"
  have path: "first_match (rq_Path ex_req) (Routes ?cfg) = Some 0" "rr_Cluster (Routes ?cfg ! 0) = ''web''"
    by (simp_all add: ex_config_def ex_route_def ex_req_def go_defs)
  have us: "cluster_of ?us = ''web''" using assms path by (simp add: cluster_of_def on_rc_def router_cluster)
  have w: "w_cm (us_w ?us) = w_cm free_world" "us_sched ?us = (\<lambda>_ w. w)" using assms by (simp_all add: on_rc_def)
  have "rc_RetryOverride (us_rc ?us) = None"
    using assms(3) by (simp add: on_rc_def Router_OnRequest_def route_loop_spec split: option.split)
  then have tries: "0 < max_attempts (request_policy ?u (us_rc ?us)) (rc_Req (us_rc ?us))" by (rule one_try)
  have env: "re_attempts ?e 0 = ex_env\<lparr>ae_do := \<lambda>_. Inr ex_resp\<rparr>" by (simp add: answer_env_def)
  have "re_rng ?e = sorted_range" by (simp add: answer_env_def ex_renv_def)
  then show ?thesis
    using answered_run [where envs = "re_attempts ?e" and resp = ex_resp, OF us w tries env, of sorted_range]
    by (auto simp: h2_proxied_def on_rc_def)
qed

lemma prepared_example:
  "rc_UpstreamCluster (us_rc (cs_us (prepared e (h2_start addr tls e ex_req st)))) = []"
  "rq_Path (rc_Req (us_rc (cs_us (prepared e (h2_start addr tls e ex_req st))))) = rq_Path ex_req"
  "rc_RetryOverride (us_rc (cs_us (prepared e (h2_start addr tls e ex_req st)))) = None"
  "us_w (cs_us (prepared e (h2_start addr tls e ex_req st))) = fst st"
  "us_sched (cs_us (prepared e (h2_start addr tls e ex_req st))) = re_sched e"
  "rc_W (us_rc (cs_us (prepared e (h2_start addr tls e ex_req st)))) = []"
  by (simp_all add: prepared_def h2_start_def on_rc_def new_rc_def ForwardedHeaders_OnRequest_def Let_def)

lemma answer_env_sched: "re_sched (answer_env resp) = (\<lambda>_ w. w)"
  by (simp add: answer_env_def ex_renv_def)

theorem h2_response_witness:
  "\<exists>out st' h. ServeHTTP (\<lambda>w. [fst (Response_Write (wire_response w))]) sorted_range (h2_filters False (ex_config\<lparr>Clusters := []\<rparr>))
      ''1.2.3.4:5'' True (answer_env ex_resp) ex_req (free_world, None, []) = Ret (out, st') \<and>
    rw_sent out = Some (200, h) \<and> rw_body out = ''ok''"
proof -
  let ?e = "answer_env ex_resp"
  let ?start = "h2_start ''1.2.3.4:5'' True ?e ex_req (free_world, None, [])"
  define req where "req = rc_Req (us_rc (cs_us (prepared ?e ?start)))"
  let ?x = "downstream_response sorted_range req ex_resp"
  have meth: "rq_Method req = ''POST''"
    by (simp add: req_def prepared_def on_rc_def h2_start_def ForwardedHeaders_OnRequest_def Let_def new_rc_def ex_req_def)
  obtain s where run: "Chain_Run ?e (h2_filters False (ex_config\<lparr>Clusters := []\<rparr>)) ?start = Ret (None, s)"
      "rc_W (us_rc (cs_us s)) = [Sent ?x]"
    using h2_answered [of "prepared ?e ?start"] by (auto simp: prepared_example answer_env_sched h2_unlimited req_def)
  have x: "deliverable ?x" "rs_Status ?x = 200" "rs_Body ?x = ''ok''" "\<not> bodyless ?x" "sent_length ?x \<noteq> - 1" "hdr_ok (rs_Header ?x)"
      "rs_Method ?x = ''POST''"
    using meth answers_downstream(1) [of "''POST''" sorted_range req ex_resp]
    by (auto simp: downstream_response_def ex_resp_def deliverable_def Response_Write_def bodyless_def bodyAllowedForStatus_def
        sent_length_def in_i64_def answers_def)
  have "rq_Method ex_req = ''POST''" by (simp add: ex_req_def)
  with h2_response [OF sorted_range.map_range_axioms cuts_whole run x(1)] read_written [OF x(1,6), of "[]"] x(2-5,7)
  show ?thesis by auto
qed

lemma h2_denied:
  assumes "re_rl_others e rl0 = Some rl"
    and "getBucket rl (limit_ip rl (new_rc req (OtherAddr addr) (re_start e) tls)) (re_created e) = Some b"
    and "\<not> fst (allow (re_fl e) (re_now e) b)" "re_rl_ok e"
  shows "\<exists>s1. Chain_Run e (h2_filters True cfg) (h2_start addr tls e req (w, rl0, lg)) = h2_proxied e cfg s1 \<and>
    us_rc (cs_us s1) = answer True (text_response req 429 (''rate limited'' @ [CHR 0x0A]) True)
      (us_rc (cs_us (prepared e (h2_start addr tls e req (w, rl0, lg))))) \<and>
    w_cm (us_w (cs_us s1)) = w_cm w \<and> us_sched (cs_us s1) = re_sched e"
proof -
  let ?early = "prepared e (h2_start addr tls e req (w, rl0, lg))"
  let ?deny = "text_response req 429 (''rate limited'' @ [CHR 0x0A]) True"
  have deny: "text_response (rc_Req (us_rc (cs_us ?early))) 429 (''rate limited'' @ [CHR 0x0A]) True = ?deny"
    by (simp add: text_response_def prepared_def on_rc_def h2_start_def ForwardedHeaders_OnRequest_def Let_def new_rc_def)
  have ip: "limit_ip rl (us_rc (cs_us ?early)) = limit_ip rl (new_rc req (OtherAddr addr) (re_start e) tls)"
    by (simp add: limit_ip_def on_rc_def prepared_def h2_start_def new_rc_def)
  have rl: "re_rl_others e (cs_rl ?early) = Some rl" using assms(1) by (simp add: prepared_def on_rc_def h2_start_def)
  obtain rl' m' where lim: "RateLimiter_OnRequest (re_fl e) (re_created e) (re_now e) (re_rl_ok e) (Some rl)
      (us_rc (cs_us ?early), w_reg (us_w (cs_us ?early))) = Ret (Some rl', answer True ?deny (us_rc (cs_us ?early)), m')"
    using limiter_denies [of rl "us_rc (cs_us ?early)" "re_created e" b "re_fl e" "re_now e" "re_rl_ok e" "w_reg (us_w (cs_us ?early))"]
      assms(2-4) unfolding ip deny by auto
  define s1 where "s1 = ?early\<lparr>cs_us := (cs_us ?early)\<lparr>us_rc := answer True ?deny (us_rc (cs_us ?early)),
    us_w := (us_w (cs_us ?early))\<lparr>w_reg := m'\<rparr>\<rparr>, cs_rl := Some rl'\<rparr>"
  have "Chain_Run e (h2_filters True cfg) (h2_start addr tls e req (w, rl0, lg)) = h2_proxied e cfg s1"
    using lim rl by (simp add: h2_head Chain_Run.simps(2) [of e FRateLimit] h2_tail s1_def del: Chain_Run.simps)
  then show ?thesis by (intro exI [of _ s1]) (simp add: s1_def prepared_def on_rc_def h2_start_def)
qed


text \<open>The free endpoint again, behind a limiter without tokens.\<close>

definition empty_bucket :: bucket where
  "empty_bucket = \<lparr>b_cap = 1, b_rate = 1, b_tok = 0, b_last = 0\<rparr>"

definition empty_limiter :: RateLimiter where
  "empty_limiter = \<lparr>rl_scope = ''global'', rl_global = Some empty_bucket, rl_perIP = fmempty, rl_defCap = 1, rl_defRate = 1\<rparr>"


end
