(* ===== verification/GP_Requests.thy ===== *)
theory GP_Requests
  imports GP_Echo
begin

text \<open>
  The helper that builds requests (\<^verbatim>\<open>httpcm/testhelpers_http.go\<close>): it prints a URL and lets
  \<^verbatim>\<open>http.NewRequest\<close> parse it. What it uses of package \<^verbatim>\<open>net/url\<close> is the printing of a URL
  with a host and a path and the parsing of URLs with the scheme http and a plain host name; a request
  keeps the path that was asked for, whatever its bytes are.
\<close>

section \<open>URLs\<close>

text \<open>\<^verbatim>\<open>URL.String\<close> for the scheme http, a host name and a path.\<close>

definition URL_String :: "string \<Rightarrow> string \<Rightarrow> string" where
  "URL_String host path =
     (let p = EscapedPath [] path
      in ''http://'' @ host @ (if p \<noteq> [] \<and> hd p \<noteq> CHR ''/'' then ''/'' else []) @ p)"

definition ctl_byte :: "char \<Rightarrow> bool" where
  "ctl_byte c \<longleftrightarrow> (let n = (of_char c :: nat) in n < 32 \<or> n = 127)"

definition host_byte :: "char \<Rightarrow> bool" where
  "host_byte c \<longleftrightarrow>
     (let n = (of_char c :: nat) in
      (48 \<le> n \<and> n \<le> 57) \<or> (65 \<le> n \<and> n \<le> 90) \<or> (97 \<le> n \<and> n \<le> 122)) \<or> c \<in> set ''-.''"

record URL =
  u_Host :: string
  u_Path :: string
  u_RawPath :: string
  u_RawQuery :: string

text \<open>
  \<^verbatim>\<open>url.Parse\<close> for URLs with the scheme http and a plain host name (\<open>None\<close> for all others): the
  fragment is cut off, then the query, then the host; the raw path is kept where its escapes are not the default ones.
\<close>

definition URL_Parse :: "string \<Rightarrow> URL option" where
  "URL_Parse s =
     (let s = takeWhile (\<lambda>c. c \<noteq> CHR ''#'') s; rest = drop 7 s;
          before = takeWhile (\<lambda>c. c \<noteq> CHR ''?'') rest;
          host = takeWhile (\<lambda>c. c \<noteq> CHR ''/'') before;
          p = drop (length host) before
      in if list_ex ctl_byte s \<or> \<not> HasPrefix s ''http://'' \<or> host = [] \<or> \<not> list_all host_byte host then None
         else (case unescape_path p of None \<Rightarrow> None
               | Some path \<Rightarrow> Some \<lparr>u_Host = host, u_Path = path, u_RawPath = (if p = escape_path path then [] else p),
                   u_RawQuery = drop 1 (dropWhile (\<lambda>c. c \<noteq> CHR ''?'') rest)\<rparr>))"

section \<open>Requests\<close>

datatype request_error = InvalidMethod string | InvalidURL string

text \<open>\<^verbatim>\<open>http.NewRequest\<close> with an empty reader as the body: its length is known to be 0, so that there is none.\<close>

definition NewRequest :: "string \<Rightarrow> string \<Rightarrow> request_error + Request" where
  "NewRequest meth url =
     (let meth = (if meth = [] then ''GET'' else meth)
      in if \<not> list_all valid_field_byte meth then Inl (InvalidMethod meth)
         else (case URL_Parse url of None \<Rightarrow> Inl (InvalidURL url)
               | Some u \<Rightarrow> Inr \<lparr>rq_Method = meth, rq_Path = u_Path u, rq_RawQuery = u_RawQuery u, rq_Host = u_Host u,
                   rq_Header = fmempty, rq_Body = NoBody, rq_ProtoMajor = 1, rq_ProtoMinor = 1, rq_Close = False\<rparr>))"

definition newHTTPRequest :: "string \<Rightarrow> string \<Rightarrow> request_error + Request" where
  "newHTTPRequest meth path = NewRequest meth (URL_String ''example'' path)"

section \<open>The path is kept\<close>

text \<open>What an escaped path consists of.\<close>

definition escaped_char :: "char \<Rightarrow> bool" where
  "escaped_char c \<longleftrightarrow> \<not> ctl_byte c \<and> c \<noteq> CHR ''#'' \<and> c \<noteq> CHR ''?''"

lemma upper_hex_escaped:
  assumes "d < 16"
  shows "escaped_char (upper_hex d)"
proof -
  have n: "(of_char (upper_hex d) :: nat) = (if d < 10 then 48 + d else 55 + d)" using assms by (simp add: upper_hex_def)
  have "upper_hex d \<noteq> c" if "(of_char c :: nat) \<in> {35, 63}" for c using that n assms by (auto split: if_splits)
  from this [of "CHR ''#''"] this [of "CHR ''?''"] show ?thesis
    using n assms by (simp add: escaped_char_def ctl_byte_def)
qed

lemma path_byte_escaped: "path_byte c \<Longrightarrow> escaped_char c"
  by (auto simp: path_byte_def escaped_char_def ctl_byte_def Let_def)

lemma escape_path_escaped: "list_all escaped_char (escape_path s)"
proof (induction s)
  case (Cons c s)
  have "escaped_char CHR ''%''" by code_simp
  moreover have "(of_char c :: nat) div 16 < 16" using nat_of_char_less_256 [of c] by linarith
  ultimately show ?case
    using Cons by (simp add: escape_path_def escape_byte_def path_byte_escaped upper_hex_escaped Let_def)
qed (simp add: escape_path_def)

lemma EscapedPath_escaped: "list_all escaped_char (EscapedPath [] path)"
proof -
  have "escaped_char CHR ''*''" by code_simp
  then show ?thesis by (simp add: EscapedPath_def escape_path_escaped)
qed

lemma unescape_EscapedPath: "unescape_path (EscapedPath [] path) = Some path"
  by (simp add: EscapedPath_def unescape_escape)

text \<open>A path that does not start with a slash gets one.\<close>

definition rooted :: "string \<Rightarrow> string" where
  "rooted path = (if path \<noteq> [] \<and> hd path \<noteq> CHR ''/'' then CHR ''/'' # path else path)"

lemma escape_Nil [simp]: "escape_path [] = []"
  by (simp add: escape_path_def)

lemma hd_escape: "path \<noteq> [] \<Longrightarrow> escape_path path \<noteq> [] \<and> (hd (escape_path path) = CHR ''/'' \<longleftrightarrow> hd path = CHR ''/'')"
proof (cases path)
  case (Cons c cs)
  have "path_byte CHR ''/''" by (simp add: path_byte_def)
  with Cons show ?thesis by (auto simp: escape_path_def escape_byte_def Let_def)
qed simp

lemma URL_roundtrip:
  assumes "host \<noteq> []" "list_all host_byte host"
  shows "\<exists>raw. URL_Parse (URL_String host path) = Some \<lparr>u_Host = host, u_Path = rooted path, u_RawPath = raw, u_RawQuery = []\<rparr>"
proof -
  define p where "p = (if rooted path = path then [] else ''/'') @ EscapedPath [] path"
  have esc: "EscapedPath [] path = ''*'' \<and> path = ''*'' \<or> EscapedPath [] path = escape_path path \<and> path \<noteq> ''*''"
    by (auto simp: EscapedPath_def)
  then have string: "URL_String host path = ''http://'' @ host @ p"
    using hd_escape [of path] by (cases "path = []") (auto simp: URL_String_def Let_def p_def rooted_def)
  have "escaped_char CHR ''/''" by code_simp
  then have ok: "list_all escaped_char p" using EscapedPath_escaped [of path] by (auto simp: p_def)
  have host: "list_all (\<lambda>c. escaped_char c \<and> c \<noteq> CHR ''/'') host"
    using assms(2) by (auto simp: list_all_iff host_byte_def escaped_char_def ctl_byte_def Let_def)
  define s where "s = ''http://'' @ host @ p"
  have "list_all escaped_char ''http://''" by code_simp
  with ok host have "list_all escaped_char s" "list_all escaped_char (host @ p)" by (auto simp: s_def list_all_iff)
  then have cut: "takeWhile (\<lambda>c. c \<noteq> CHR ''#'') s = s" "\<not> list_ex ctl_byte s"
      "takeWhile (\<lambda>c. c \<noteq> CHR ''?'') (host @ p) = host @ p" "dropWhile (\<lambda>c. c \<noteq> CHR ''?'') (host @ p) = []"
    by (auto simp: list_all_iff list_ex_iff escaped_char_def takeWhile_eq_all_conv dropWhile_eq_Nil_conv)
  have start: "drop 7 s = host @ p" "HasPrefix s ''http://''" by (simp_all add: s_def HasPrefix_def)
  have "p = [] \<or> hd p = CHR ''/''"
    using esc hd_escape [of path] by (cases "path = []") (auto simp: p_def rooted_def split: if_splits)
  then have at: "takeWhile (\<lambda>c. c \<noteq> CHR ''/'') (host @ p) = host"
    using host by (cases p) (auto simp: list_all_iff)
  have path: "unescape_path p = Some (rooted path)"
    using unescape_EscapedPath [of path] by (auto simp: p_def rooted_def)
  show ?thesis unfolding string s_def [symmetric] URL_Parse_def Let_def cut(1,3) start(1) at cut(4)
    using cut(2) start(2) path assms by simp
qed

text \<open>
  The helper gives a request for exactly the path that was asked for, whatever its bytes are, and fails only
  for a method that is not a token.
\<close>
lemma newHTTPRequest_path:
  "newHTTPRequest meth path =
     (if list_all valid_field_byte meth
      then Inr \<lparr>rq_Method = (if meth = [] then ''GET'' else meth), rq_Path = rooted path, rq_RawQuery = [], rq_Host = ''example'',
        rq_Header = fmempty, rq_Body = NoBody, rq_ProtoMajor = 1, rq_ProtoMinor = 1, rq_Close = False\<rparr>
      else Inl (InvalidMethod meth))"
proof -
  have "list_all host_byte ''example''" "list_all valid_field_byte ''GET''" by code_simp+
  then show ?thesis using URL_roundtrip [of "''example''" path]
    by (auto simp: newHTTPRequest_def NewRequest_def Let_def)
qed

end
