(* ===== verification/Spec2Isabelle.thy ===== *)
theory Spec2Isabelle
  imports GP_ClusterProps GP_ProcessProps GP_AdminProps GP_WireProps GP_Requests
begin

text \<open>
  Verification of go-proxy, an HTTP reverse proxy in the style of Envoy.

  \<^bold>\<open>The program.\<close> \<^verbatim>\<open>cmd/proxy/main.go\<close> starts a supervisor
  (\<^verbatim>\<open>internal/runtime/supervisor\<close>) and an admin server (\<^verbatim>\<open>internal/admin\<close>). The
  supervisor loads and validates a configuration (\<^verbatim>\<open>internal/config\<close>), builds a cluster
  manager (\<^verbatim>\<open>internal/cluster\<close>) and a registry of network filters
  (\<^verbatim>\<open>internal/filter\<close>), and starts the listeners (\<^verbatim>\<open>internal/listener\<close>); on reload it
  replaces all of them. A listener accepts connections, finishes TLS, picks a filter chain by server
  name and hands the connection to the HTTP connection manager (\<^verbatim>\<open>internal/httpcm/hcm.go\<close>) or to
  the HTTP/2 handler (\<^verbatim>\<open>h2handler.go\<close>). Each request runs through the HTTP filters: forwarded
  headers, rate limiter, router, route options, and the upstream proxy, which asks the cluster manager
  for a circuit-breaker slot and an endpoint, sends the request, retries, and reports the outcome back.
  All of them count in one registry of metrics (\<^verbatim>\<open>internal/obs/metrics\<close>) that the admin server
  renders, and print access logs (\<^verbatim>\<open>internal/obs/accesslog\<close>). \<^verbatim>\<open>cmd/echo/main.go\<close> is an
  upstream to try the proxy with.

  \<^bold>\<open>Theories.\<close> Each component has a theory with its records, its operations, its invariant and its
  lemmas; the theories named \<open>..Props\<close> and this one hold the properties that are stated over them.

  \<^item> \<open>GP_Prelude\<close>: outcomes of a Go call (\<open>Ret\<close>, \<open>Panic\<close>, \<open>Blocked\<close>), 64-bit wrap-around, strings
    as bytes, iteration over maps (locale \<open>map_range\<close>: the order is an argument), and the locales of
    transition systems \<open>inductive_invariant\<close>, \<open>event_system\<close> and \<open>service\<close>.
  \<^item> \<open>GP_Net\<close>, \<open>GP_Http\<close>: what the code uses of packages \<^verbatim>\<open>net\<close> and \<^verbatim>\<open>net/http\<close>;
    locale \<open>header_store\<close> for header maps; the request context of \<^verbatim>\<open>httpcm/types.go\<close>.
  \<^item> \<open>GP_Config\<close>: \<^verbatim>\<open>types.go\<close> and \<^verbatim>\<open>validate.go\<close>; \<open>Validate\<close> equals the declarative
    \<open>valid_config\<close>.
  \<^item> \<open>GP_Metrics\<close>: \<^verbatim>\<open>metrics.go\<close>; locale \<open>counter_store\<close>, interpreted for counters and for
    gauges. \<open>GP_Prom\<close>: \<^verbatim>\<open>prom.go\<close>, with what a match of its regular expressions is, which
    integer text is written and which lines come out.
  \<^item> \<open>GP_Cluster\<close> (state, \<^verbatim>\<open>NewManager\<close>), \<open>GP_Health\<close> (outlier ejection, active health checks,
    in-flight counts), \<open>GP_Balance\<close> (\<^verbatim>\<open>Pick\<close>; locale \<open>selector\<close> is the contract of the three
    policies), \<open>GP_Breaker\<close> (\<^verbatim>\<open>TryAcquire\<close>, \<^verbatim>\<open>Release\<close>; locale \<open>slot_pool\<close>),
    \<open>GP_Discovery\<close> (\<^verbatim>\<open>Start\<close>, DNS), \<open>GP_Manager\<close> (all of them as the transition system
    \<open>manager_step\<close>): \<^verbatim>\<open>cluster/manager.go\<close>. Properties in \<open>GP_ClusterProps\<close>.
  \<^item> \<open>GP_Router\<close>, \<open>GP_RateLimit\<close> (locale \<open>rounding\<close> for float64), \<open>GP_Forwarded\<close>: the filters
    \<^verbatim>\<open>router.go\<close>, \<^verbatim>\<open>routeopts.go\<close>, \<^verbatim>\<open>ratelimit.go\<close>, \<^verbatim>\<open>forwarded.go\<close>.
    Properties in \<open>GP_HttpProps\<close>.
  \<^item> \<open>GP_Upstream\<close> (\<^verbatim>\<open>upstream.go\<close>, with the HTTP clients it makes) and \<open>GP_Attempts\<close> (what its
    attempt loop does to slots, endpoints, responses and the body of the request; one induction rule,
    \<open>attempt_loop_rule\<close>, for all of it), \<open>GP_Returns\<close> (when it returns). Properties in \<open>GP_ProxyProps\<close>.
  \<^item> \<open>GP_Log\<close>: the lines that are printed (\<^verbatim>\<open>accesslog.go\<close>, \<^verbatim>\<open>logging.go\<close>, the
    logging filter of \<^verbatim>\<open>filter.go\<close>) and the calendar and layouts of their time stamps.
  \<^item> \<open>GP_Hcm\<close>: \<^verbatim>\<open>hcm.go\<close>, the filter chain, \<^verbatim>\<open>connctx.go\<close> and
    \<^verbatim>\<open>filter/filter.go\<close>; \<open>GP_Connection\<close>: when a whole connection ends; \<open>GP_Access\<close>: what it logs. Properties
    in \<open>GP_ConnectionProps\<close>. \<open>GP_H2\<close>: \<^verbatim>\<open>h2handler.go\<close>, with properties in \<open>GP_H2Props\<close>.
  \<^item> \<open>GP_Wire\<close>: the bytes of a response as \<^verbatim>\<open>Response.Write\<close> of \<^verbatim>\<open>net/http\<close> makes them
    of the fields the code sets, and a client that takes them apart again by the rules for the length of a message.
    \<open>GP_WireProps\<close>: what clients read, over HTTP/1 and over HTTP/2.
  \<^item> \<open>GP_Listener\<close>: construction of listeners, TLS, one connection; \<open>GP_Serve\<close>: the goroutines of
    the listeners and of \<^verbatim>\<open>Manager.Start\<close>, a \<open>service\<close> that can always be shut down;
    \<open>GP_Supervisor\<close>: \<^verbatim>\<open>load.go\<close> and \<^verbatim>\<open>supervisor.go\<close>; \<open>GP_Admin\<close>:
    the handlers of \<^verbatim>\<open>admin/server.go\<close>. Properties in \<open>GP_RuntimeProps\<close> and \<open>GP_AdminProps\<close>.
  \<^item> \<open>GP_Process\<close>: \<^verbatim>\<open>cmd/proxy/main.go\<close> and the life of the admin server, as events around those
    of the supervisor; \<open>GP_Echo\<close>: \<^verbatim>\<open>cmd/echo/main.go\<close>. Properties in
    \<open>GP_ProcessProps\<close>. \<open>GP_Requests\<close>: \<^verbatim>\<open>testhelpers_http.go\<close>, with the URLs it prints and parses.

  \<^bold>\<open>How the code is modelled.\<close> Structs are records and keep their fields' names with a prefix; interfaces
  with a fixed set of implementations are datatypes (\<open>HTTPFilter\<close>, \<open>NetworkFilter\<close>). A method takes the
  state it may change and returns it. An int or a time is an \<open>int\<close> and every operation that can
  overflow is wrapped to 64 bits; the round-robin counter and the circuit breaker's counters wrap as in
  the code. A float64 is a rational with the rounding of each operation as an argument \<open>fl\<close>. Clocks,
  random numbers, DNS answers, probe results, the HTTP client, TLS files, JSON and YAML decoding,
  the file system and other goroutines are arguments (the records named \<open>.._env\<close>); what is assumed
  about them is a hypothesis of the theorem that needs it. A critical section under a lock is one step.
  Code that gives up its lock in between is several steps: the two sections of \<^verbatim>\<open>resolveOnce\<close> in
  \<open>manager_step\<close>, the atomic operations of the circuit breaker in \<open>breaker_step\<close>, the goroutines of a listener
  in \<open>run_event\<close> and \<open>mgr_event\<close>, the parts of \<^verbatim>\<open>Reload\<close> in \<open>sup_event\<close> and the goroutines of the
  process in \<open>proc_event\<close>; their theorems hold for every order of the steps. A request is followed through
  its handler as one function, and the other goroutines get their turn before every call it makes to
  the cluster manager, to the pending queue and to the rate limiter: what they do there is the
  argument \<open>us_sched\<close> (\<open>re_rl_others\<close> for the limiter), any change of the shared state, or any steps of
  \<open>manager_step\<close> where a theorem needs the manager to stay well formed. The body of a request is a
  stream that an attempt may read and close; the response of an attempt says how much it left.

  \<^bold>\<open>Loops.\<close> No function has fuel. Loops over data are recursive over it; the retry loop and the digits of
  \<open>itoa\<close> have a measure. A loop that waits (polling for capacity, reading requests from a
  connection) takes the list of what it meets, and is \<open>Blocked\<close> when the list ends first; theorems about
  it cover every list. Tickers of health checks and DNS are runs over a list of ticks.

  \<^bold>\<open>What is shown.\<close> Configuration: the validator is exact, and what it accepts can be built and
  started. Cluster manager: well formed in every reachable state; what \<^verbatim>\<open>Pick\<close> returns, its fairness
  and its limits; ejection and health marks are functions of the history of reports and probes; the circuit breaker
  never exceeds its limit. Requests: one response each, routes by first match, the exact request that is
  forwarded, bounded retries, that the handler returns and every connection ends, the account of slots
  and endpoints on every path, token buckets under their bound, one access log line for each request,
  with a time stamp that can be read back. Bytes: a client that reads the bytes of a connection gets every response
  with its status, its header lines and its whole body, and an HTTP/2 client the same body however the bytes are cut.
  Listeners and supervisor: exact gauge of connections, shutdown, one runtime at a time,
  the outcome of reloads. Process: start-up, exit codes, and that its supervisor runs as the supervisor
  alone does. Admin server: the Prometheus text and its labels, which requests change
  anything. Several theorems show what the code does wrong, by its own comments or documentation: leaked
  slots, requests proxied after a 429, HTTP/2 errors turned into 200, the lost last header, a stale
  DNS answer applied last, a drain that is never noticed, a failed reload that leaves no listener,
  concurrent reloads that orphan a runtime, retries without the body, a body that is parsed as the next
  request, responses whose end a client cannot see because the connection is not closed, a 429 whose HTTP/2
  body goes on with the bytes of the upstream's response, forged log lines, and an exit that does not wait for connections.

  \<^bold>\<open>Not modelled.\<close> Parsing of requests, what a transport does with its settings, trailers and the sending of
  chunks (package \<^verbatim>\<open>net/http\<close>; the proxy itself never sends chunks or trailers); what \<^verbatim>\<open>golang.org/x/net/http2\<close> does with a
  connection beyond calling the handler; parsing of flags; a signal that arrives between
  \<^verbatim>\<open>stop\<close> and the end of the process, which then has its default action; a panic of a handler that
  \<^verbatim>\<open>net/http\<close> recovers or that ends the process, beyond being a value; the multiplexer that
  redirects requests with unclean paths before they reach the handler of the echo server; URLs with other schemes, users or ports
  than those the helper of \<^verbatim>\<open>testhelpers_http.go\<close> makes. Data races in the sense
  of the Go memory model are outside the model, where every access to shared state is atomic.
\<close>

section \<open>Configuration and start-up\<close>

text \<open>
  C9. \<^verbatim>\<open>Validate\<close> accepts a configuration exactly when it is valid: cluster names are
  distinct and not empty, every cluster has endpoints, all of the form host:port, a known balancing
  policy and no negative limits, every route has a prefix and names a cluster that exists, and every
  listener has a name, an address, existing key files and chains of known filters.
\<close>
theorem Validate_exact: "Validate stat cfg = None \<longleftrightarrow> valid_config stat cfg"
  by (rule Validate_valid)

section \<open>Metrics\<close>

text \<open>
  The latency histogram: after any sequence of samples for a cluster, each bucket has grown by the
  number of samples at or below its bound (negative samples count as 0), the last bucket and the
  count by the number of samples, and the sum by their sum, modulo \<open>2^64\<close>.
\<close>
theorem histogram_counts:
  assumes "registry_ok m" "b \<in> set hist_buckets"
  shows "counter_val (observe_all cluster samples m) (bucket_key cluster b) =
      wrap64 (counter_val m (bucket_key cluster b) + int (length (filter (\<lambda>ms. max 0 ms \<le> b) samples))) \<and>
    counter_val (observe_all cluster samples m) (hist_key cluster ''.bucket.Inf'') =
      wrap64 (counter_val m (hist_key cluster ''.bucket.Inf'') + int (length samples)) \<and>
    counter_val (observe_all cluster samples m) (hist_key cluster ''.count'') =
      wrap64 (counter_val m (hist_key cluster ''.count'') + int (length samples)) \<and>
    counter_val (observe_all cluster samples m) (hist_key cluster ''.sum'') =
      wrap64 (counter_val m (hist_key cluster ''.sum'') + (\<Sum>ms\<leftarrow>samples. max 0 ms))"
  using assms by (simp add: observe_all_val observed_bucket observed_totals)

theorem histogram_counts_witness:
  "counter_val (observe_all ''web'' [3, 7, 60] empty_registry) (bucket_key ''web'' 10) = 2"
  using histogram_counts [OF registry_ok_empty, of 10 "''web''" "[3, 7, 60]"]
  by (simp add: hist_buckets_def counter_val_def empty_registry_def wrap64_def)

text \<open>
  Concurrent additions to counters are never lost: the value of every counter depends only on which
  additions were made, not on their order.
\<close>
theorem counters_order_independent:
  assumes "registry_ok m" "mset ops = mset ops'"
  shows "counter_val (foldl (\<lambda>m (k, d). Add k d m) m ops) k = counter_val (foldl (\<lambda>m (k, d). Add k d m) m ops') k"
  by (rule counter_reg.get_foldl_perm [OF assms])

theorem counters_order_independent_witness:
  "counter_val (foldl (\<lambda>m (k, d). Add k d m) empty_registry [(''a'', 1), (''b'', 2)]) ''a'' =
   counter_val (foldl (\<lambda>m (k, d). Add k d m) empty_registry [(''b'', 2), (''a'', 1)]) ''a''"
  by (rule counters_order_independent) simp_all

end
